(* ===== verification/Prelude.thy ===== *)
theory Prelude
  imports Main "HOL-Library.Word"
begin

text \<open>
  Shared vocabulary of the development: fixed-width integers, Rust strings as lists of
  Unicode scalar values, the result monad behind the \<open>?\<close> operator, growable vectors
  and the named collections that the component proofs use.
\<close>

unbundle bit_operations_syntax

section \<open>Collections\<close>

text \<open>
  \<open>newtype_defs\<close>: accessors and constructors of validated newtypes.
  \<open>table_defs\<close>: operations of the slot-indexed side tables.
  \<open>world_defs\<close>: operations of the world aggregate.
  \<open>fsm_defs\<close>: the steps of the login machine.
\<close>

named_theorems newtype_defs
named_theorems table_defs
named_theorems world_defs
named_theorems fsm_defs
named_theorems telnet_defs

section \<open>Machine integers\<close>

type_synonym u8 = "8 word"
type_synonym u16 = "16 word"
type_synonym u32 = "32 word"
type_synonym u64 = "64 word"

text \<open>\<open>usize\<close> is 64 bits wide on the targets the server is built for.\<close>

definition usize_max :: nat where
  "usize_max = 2 ^ 64 - 1"

definition checked_add_usize :: "nat \<Rightarrow> nat \<Rightarrow> nat option" where
  "checked_add_usize a b = (if a + b \<le> usize_max then Some (a + b) else None)"

definition checked_sub_usize :: "nat \<Rightarrow> nat \<Rightarrow> nat option" where
  "checked_sub_usize a b = (if b \<le> a then Some (a - b) else None)"

definition saturating_add_u64 :: "u64 \<Rightarrow> u64 \<Rightarrow> u64" where
  "saturating_add_u64 a b = (if unat a + unat b < 2 ^ 64 then a + b else 0xFFFFFFFFFFFFFFFF)"

definition checked_add_u64 :: "u64 \<Rightarrow> u64 \<Rightarrow> u64 option" where
  "checked_add_u64 a b = (if unat a + unat b < 2 ^ 64 then Some (a + b) else None)"

lemma unat_saturating_add_u64:
  "unat (saturating_add_u64 a b) = min (unat a + unat b) (2 ^ 64 - 1)"
proof (cases "unat a + unat b < 2 ^ 64")
  case True
  then have "unat (a + b) = unat a + unat b"
    using unat_add_lem [where 'a = 64, of a b] by simp
  with True show ?thesis
    by (simp add: saturating_add_u64_def)
next
  case False
  then show ?thesis
    by (simp add: saturating_add_u64_def)
qed

lemma high_bit_zero:
  fixes w :: "'a::len word"
  assumes "unat w < 2 ^ k" and "k \<le> n"
  shows "\<not> bit w n"
proof
  assume b: "bit w n"
  then have "n < LENGTH('a)" by (rule bit_imp_le_length)
  with b have "bit (unat w) n" by (simp add: bit_unsigned_iff)
  moreover have "unat w < 2 ^ n"
    using assms by (meson less_le_trans one_le_numeral power_increasing)
  ultimately show False by (simp add: bit_iff_odd)
qed

lemma unat_u32_less: "unat (w :: u32) < 2 ^ 32"
proof -
  have "unat w < 2 ^ LENGTH(32)" by (rule unsigned_less)
  then show ?thesis by simp
qed

lemma unat_of_nat_u32: "n < 2 ^ 32 \<Longrightarrow> unat (of_nat n :: u32) = n"
  by (simp add: unsigned_of_nat take_bit_nat_eq_self)

section \<open>Results\<close>

text \<open>\<open>Result<T, E>\<close> is \<open>'e + 'a\<close>: \<open>Inl\<close> is \<open>Err\<close>, \<open>Inr\<close> is \<open>Ok\<close>.\<close>

fun bindE :: "'e + 'a \<Rightarrow> ('a \<Rightarrow> 'e + 'b) \<Rightarrow> 'e + 'b" where
  "bindE (Inl e) f = Inl e"
| "bindE (Inr x) f = f x"

fun map_err :: "('e \<Rightarrow> 'f) \<Rightarrow> 'e + 'a \<Rightarrow> 'f + 'a" where
  "map_err g (Inl e) = Inl (g e)"
| "map_err g (Inr x) = Inr x"

fun ok_or :: "'a option \<Rightarrow> 'e \<Rightarrow> 'e + 'a" where
  "ok_or None e = Inl e"
| "ok_or (Some x) e = Inr x"

fun is_ok :: "'e + 'a \<Rightarrow> bool" where
  "is_ok (Inl e) = False"
| "is_ok (Inr x) = True"

lemma bindE_eq_Inr [simp]: "bindE m f = Inr y \<longleftrightarrow> (\<exists>x. m = Inr x \<and> f x = Inr y)"
  by (cases m) auto

lemma bindE_eq_Inl: "bindE m f = Inl e \<longleftrightarrow> m = Inl e \<or> (\<exists>x. m = Inr x \<and> f x = Inl e)"
  by (cases m) auto

lemma ok_or_eq_Inr [simp]: "ok_or o' e = Inr x \<longleftrightarrow> o' = Some x"
  by (cases o') auto

lemma ok_or_eq_Inl [simp]: "ok_or o' e = Inl d \<longleftrightarrow> o' = None \<and> d = e"
  by (cases o') auto

lemma map_err_eq_Inr [simp]: "map_err g m = Inr x \<longleftrightarrow> m = Inr x"
  by (cases m) auto

lemma is_ok_iff: "is_ok m \<longleftrightarrow> (\<exists>x. m = Inr x)"
  by (cases m) auto

section \<open>Vectors\<close>

text \<open>\<open>Vec::get\<close>, \<open>Vec::pop\<close> (from the end) and \<open>Vec::resize\<close> to cover an index.\<close>

definition vec_get :: "'a list \<Rightarrow> nat \<Rightarrow> 'a option" where
  "vec_get xs i = (if i < length xs then Some (xs ! i) else None)"

definition vec_pop :: "'a list \<Rightarrow> ('a \<times> 'a list) option" where
  "vec_pop xs = (if xs = [] then None else Some (last xs, butlast xs))"

definition vec_resize :: "nat \<Rightarrow> 'a \<Rightarrow> 'a list \<Rightarrow> 'a list" where
  "vec_resize n d xs = take n xs @ replicate (n - length xs) d"

lemma mem_map_filter: "y \<in> set (List.map_filter f xs) \<longleftrightarrow> (\<exists>x \<in> set xs. f x = Some y)"
  by (force simp: List.map_filter_def)

lemma vec_get_Some: "vec_get xs i = Some x \<longleftrightarrow> i < length xs \<and> xs ! i = x"
  by (auto simp: vec_get_def)

lemma vec_get_None: "vec_get xs i = None \<longleftrightarrow> length xs \<le> i"
  by (auto simp: vec_get_def)

lemma vec_get_update:
  "vec_get (xs[i := x]) j = (if i = j \<and> i < length xs then Some x else vec_get xs j)"
  by (auto simp: vec_get_def)

lemma vec_get_append1:
  "vec_get (xs @ [x]) i = (if i = length xs then Some x else vec_get xs i)"
  by (auto simp: vec_get_def nth_append)

lemma vec_pop_Some [simp]: "vec_pop xs = Some (x, ys) \<longleftrightarrow> xs = ys @ [x]"
  by (cases xs rule: rev_cases) (auto simp: vec_pop_def)

lemma vec_pop_None [simp]: "vec_pop xs = None \<longleftrightarrow> xs = []"
  by (simp add: vec_pop_def)

lemma length_vec_resize [simp]: "length (vec_resize n d xs) = n"
  by (simp add: vec_resize_def)

lemma nth_vec_resize:
  "i < n \<Longrightarrow> length xs \<le> n \<Longrightarrow> vec_resize n d xs ! i = (if i < length xs then xs ! i else d)"
  by (auto simp: vec_resize_def nth_append)

text \<open>Grow a dense table so that it covers \<open>i\<close>, as every side-table write does first.\<close>

definition cover :: "'a \<Rightarrow> nat \<Rightarrow> 'a list \<Rightarrow> 'a list" where
  "cover d i xs = (if length xs \<le> i then vec_resize (Suc i) d xs else xs)"

lemma length_cover: "length (cover d i xs) = max (length xs) (Suc i)"
  by (auto simp: cover_def)

lemma cover_in_range [simp]: "i < length (cover d i xs)"
  by (simp add: length_cover)

text \<open>
  The growth itself as the code has it: an overflowing length is an early return (\<open>None\<close>).
\<close>

definition try_cover :: "'a \<Rightarrow> nat \<Rightarrow> 'a list \<Rightarrow> 'a list option" where
  "try_cover d i xs =
     (if length xs \<le> i then map_option (\<lambda>n. vec_resize n d xs) (checked_add_usize i 1)
      else Some xs)"

lemma try_cover_eq: "i < 2 ^ 32 \<Longrightarrow> try_cover d i xs = Some (cover d i xs)"
  by (simp add: try_cover_def cover_def checked_add_usize_def usize_max_def)

text \<open>The value a dense table holds at an index, with a default out of range.\<close>

definition dense :: "'a \<Rightarrow> 'a list \<Rightarrow> nat \<Rightarrow> 'a" where
  "dense d xs i = (if i < length xs then xs ! i else d)"

lemma dense_cover [simp]: "dense d (cover d i xs) = dense d xs"
  by (rule ext) (auto simp: dense_def cover_def nth_vec_resize)

lemma dense_update:
  "i < length xs \<Longrightarrow> dense d (xs[i := x]) = (dense d xs)(i := x)"
  by (rule ext) (auto simp: dense_def)

lemma dense_cover_update [simp]:
  "dense d ((cover d i xs)[i := x]) = (dense d xs)(i := x)"
  by (simp add: dense_update)

lemma dense_Nil [simp]: "dense d [] = (\<lambda>_. d)"
  by (rule ext) (simp add: dense_def)

section \<open>Strings\<close>

text \<open>
  A Rust \<open>String\<close> is a list of Unicode scalar values (its \<open>chars()\<close>). Literals are
  written as HOL strings and read through \<open>lit\<close>. Byte lengths go through the UTF-8
  encoding (theory Utf8).
\<close>

type_synonym rchar = nat
type_synonym ustring = "rchar list"

definition lit :: "string \<Rightarrow> ustring" where
  "lit s = map of_char s"

abbreviation (input) ch :: "char \<Rightarrow> rchar" where
  "ch c \<equiv> of_char c"

lemma lit_Nil [simp]: "lit [] = []"
  by (simp add: lit_def)

lemma inj_of_char_nat: "inj (of_char :: char \<Rightarrow> nat)"
  by (rule injI) (metis char_of_char)

lemma lit_eq_lit [simp]: "lit s = lit t \<longleftrightarrow> s = t"
  unfolding lit_def by (rule inj_map_eq_map [OF inj_of_char_nat])

lemma lit_append: "lit (s @ t) = lit s @ lit t"
  by (simp add: lit_def)

text \<open>\<open>char::is_ascii_*\<close> and \<open>to_ascii_lowercase\<close>.\<close>

definition is_ascii_digit :: "rchar \<Rightarrow> bool" where
  "is_ascii_digit c \<longleftrightarrow> 48 \<le> c \<and> c \<le> 57"

definition is_ascii_lower :: "rchar \<Rightarrow> bool" where
  "is_ascii_lower c \<longleftrightarrow> 97 \<le> c \<and> c \<le> 122"

definition is_ascii_upper :: "rchar \<Rightarrow> bool" where
  "is_ascii_upper c \<longleftrightarrow> 65 \<le> c \<and> c \<le> 90"

definition is_ascii_alphanumeric :: "rchar \<Rightarrow> bool" where
  "is_ascii_alphanumeric c \<longleftrightarrow> is_ascii_digit c \<or> is_ascii_lower c \<or> is_ascii_upper c"

definition ascii_lower_char :: "rchar \<Rightarrow> rchar" where
  "ascii_lower_char c = (if is_ascii_upper c then c + 32 else c)"

definition to_ascii_lowercase :: "ustring \<Rightarrow> ustring" where
  "to_ascii_lowercase s = map ascii_lower_char s"

definition eq_ignore_ascii_case :: "ustring \<Rightarrow> ustring \<Rightarrow> bool" where
  "eq_ignore_ascii_case s t \<longleftrightarrow> to_ascii_lowercase s = to_ascii_lowercase t"

lemma ascii_lower_char_idem [simp]:
  "ascii_lower_char (ascii_lower_char c) = ascii_lower_char c"
  by (auto simp: ascii_lower_char_def is_ascii_upper_def)

lemma to_ascii_lowercase_idem [simp]:
  "to_ascii_lowercase (to_ascii_lowercase s) = to_ascii_lowercase s"
  by (simp add: to_ascii_lowercase_def)

text \<open>\<open>char::is_whitespace\<close> (the Unicode White_Space property) and \<open>char::is_control\<close> (Cc).\<close>

definition is_whitespace :: "rchar \<Rightarrow> bool" where
  "is_whitespace c \<longleftrightarrow> (9 \<le> c \<and> c \<le> 13) \<or> c = 32 \<or> c = 133 \<or> c = 160 \<or> c = 5760 \<or>
     (8192 \<le> c \<and> c \<le> 8202) \<or> c = 8232 \<or> c = 8233 \<or> c = 8239 \<or> c = 8287 \<or> c = 12288"

definition is_control :: "rchar \<Rightarrow> bool" where
  "is_control c \<longleftrightarrow> c < 32 \<or> (127 \<le> c \<and> c < 160)"

text \<open>\<open>str::trim_start\<close>, \<open>trim\<close>, \<open>strip_prefix\<close>, \<open>starts_with\<close>.\<close>

definition trim_start :: "ustring \<Rightarrow> ustring" where
  "trim_start s = dropWhile is_whitespace s"

definition trim_end :: "ustring \<Rightarrow> ustring" where
  "trim_end s = rev (dropWhile is_whitespace (rev s))"

definition trim :: "ustring \<Rightarrow> ustring" where
  "trim s = trim_end (trim_start s)"

fun strip_prefix :: "ustring \<Rightarrow> ustring \<Rightarrow> ustring option" where
  "strip_prefix [] s = Some s"
| "strip_prefix (p # ps) [] = None"
| "strip_prefix (p # ps) (c # s) = (if p = c then strip_prefix ps s else None)"

fun starts_with :: "ustring \<Rightarrow> ustring \<Rightarrow> bool" where
  "starts_with [] s = True"
| "starts_with (p # ps) [] = False"
| "starts_with (p # ps) (c # s) = (p = c \<and> starts_with ps s)"

lemma strip_prefix_Some [simp]: "strip_prefix p s = Some r \<longleftrightarrow> s = p @ r"
  by (induction p s rule: strip_prefix.induct) auto

lemma starts_with_iff: "starts_with p s \<longleftrightarrow> (\<exists>r. s = p @ r)"
  by (induction p s rule: starts_with.induct) auto

text \<open>\<open>str::split(c)\<close> (always at least one piece) and \<open>[String]::join\<close>.\<close>

fun split_on :: "'a \<Rightarrow> 'a list \<Rightarrow> 'a list list" where
  "split_on d [] = [[]]"
| "split_on d (c # s) =
     (if c = d then [] # split_on d s
      else (case split_on d s of [] \<Rightarrow> [[c]] | p # ps \<Rightarrow> (c # p) # ps))"

fun join :: "'a list \<Rightarrow> 'a list list \<Rightarrow> 'a list" where
  "join sep [] = []"
| "join sep [p] = p"
| "join sep (p # q # ps) = p @ sep @ join sep (q # ps)"

lemma split_on_nonempty [simp]: "split_on d s \<noteq> []"
  by (induction s) (auto split: list.splits)

lemma join_split_on: "join [d] (split_on d s) = s"
proof (induction s)
  case Nil
  then show ?case by simp
next
  case (Cons c s)
  obtain p ps where eq: "split_on d s = p # ps"
    by (cases "split_on d s") auto
  then show ?case
    using Cons.IH by (cases ps) auto
qed

lemma split_on_no_sep: "d \<notin> set p \<Longrightarrow> split_on d p = [p]"
  by (induction p) auto

text \<open>\<open>str::find\<close> on a character class and \<open>splitn(2, class)\<close>.\<close>

definition find_char :: "(rchar \<Rightarrow> bool) \<Rightarrow> ustring \<Rightarrow> rchar option" where
  "find_char p s = List.find p s"

lemma find_char_None: "find_char p s = None \<longleftrightarrow> (\<forall>c \<in> set s. \<not> p c)"
  by (auto simp: find_char_def find_None_iff)

lemma find_char_SomeD: "find_char p s = Some c \<Longrightarrow> c \<in> set s \<and> p c"
  by (auto simp: find_char_def find_Some_iff)

text \<open>Decimal rendering of a \<open>usize\<close>, and \<open>str::parse::<usize>\<close> (an optional \<open>+\<close>, then digits).\<close>

fun show_nat :: "nat \<Rightarrow> ustring" where
  "show_nat n = (if n < 10 then [48 + n] else show_nat (n div 10) @ [48 + n mod 10])"

declare show_nat.simps [simp del]

definition digits_value :: "ustring \<Rightarrow> nat" where
  "digits_value s = foldl (\<lambda>acc c. acc * 10 + (c - 48)) 0 s"

definition parse_usize :: "ustring \<Rightarrow> nat option" where
  "parse_usize s =
     (let ds = (case s of c # r \<Rightarrow> if c = 43 then r else s | [] \<Rightarrow> [])
      in if ds = [] \<or> \<not> list_all is_ascii_digit ds then None
         else if digits_value ds \<le> usize_max then Some (digits_value ds) else None)"

lemma digits_value_snoc:
  "digits_value (s @ [c]) = digits_value s * 10 + (c - 48)"
  by (simp add: digits_value_def)

lemma show_nat_digits: "list_all is_ascii_digit (show_nat n)"
proof (induction n rule: show_nat.induct)
  case (1 n)
  then show ?case
    by (subst show_nat.simps) (auto simp: is_ascii_digit_def [of "_ + _"])
qed

lemma digits_value_show_nat: "digits_value (show_nat n) = n"
proof (induction n rule: show_nat.induct)
  case (1 n)
  show ?case
  proof (cases "n < 10")
    case True
    then show ?thesis by (subst show_nat.simps) (simp add: digits_value_def)
  next
    case False
    with "1.IH" have "digits_value (show_nat (n div 10)) = n div 10" by simp
    with False show ?thesis
      by (subst show_nat.simps) (simp add: digits_value_snoc)
  qed
qed

lemma show_nat_nonempty: "show_nat n \<noteq> []"
  by (subst show_nat.simps) simp

lemma parse_usize_show_nat: "n \<le> usize_max \<Longrightarrow> parse_usize (show_nat n) = Some n"
proof -
  assume le: "n \<le> usize_max"
  obtain c r where cr: "show_nat n = c # r"
    using show_nat_nonempty [of n] by (cases "show_nat n") auto
  have "is_ascii_digit c"
    using show_nat_digits [of n] cr by simp
  then have "c \<noteq> 43" by (auto simp: is_ascii_digit_def)
  with cr have "(case show_nat n of c # r \<Rightarrow> if c = 43 then r else show_nat n | [] \<Rightarrow> []) = show_nat n"
    by simp
  then show ?thesis
    using le show_nat_digits [of n] show_nat_nonempty [of n]
    by (simp add: parse_usize_def Let_def digits_value_show_nat)
qed

end
