(* ===== verification/Entity_Id.thy ===== *)
theory Entity_Id
  imports Prelude
begin

text \<open>
  Entity handles: crates/mud-core/src/entity/id.rs and key.rs. A handle packs a 12-bit
  tenant tag, a 32-bit slot index and a 20-bit generation into one 64-bit word. The
  newtypes of the source are datatypes with one constructor; the parse functions are the
  only public constructors, so the range predicates below hold of every value built
  through them.
\<close>

section \<open>Bit layout\<close>

definition TENANT_BITS :: nat where "TENANT_BITS = 12"
definition SLOT_BITS :: nat where "SLOT_BITS = 32"
definition GENERATION_BITS :: nat where "GENERATION_BITS = 20"

definition GENERATION_SHIFT :: nat where "GENERATION_SHIFT = 0"
definition SLOT_SHIFT :: nat where "SLOT_SHIFT = GENERATION_BITS"
definition TENANT_SHIFT :: nat where "TENANT_SHIFT = GENERATION_BITS + SLOT_BITS"

definition TENANT_MASK :: u64 where "TENANT_MASK = push_bit TENANT_BITS 1 - 1"
definition SLOT_MASK :: u64 where "SLOT_MASK = push_bit SLOT_BITS 1 - 1"
definition GENERATION_MASK :: u64 where "GENERATION_MASK = push_bit GENERATION_BITS 1 - 1"

lemmas layout_defs = TENANT_BITS_def SLOT_BITS_def GENERATION_BITS_def GENERATION_SHIFT_def
  SLOT_SHIFT_def TENANT_SHIFT_def TENANT_MASK_def SLOT_MASK_def GENERATION_MASK_def

section \<open>Components\<close>

datatype entity_id_error =
    TenantTagOutOfRange u16
  | GenerationOutOfRange u32

datatype tenant_tag = TenantTag (tag_get: u16)
datatype slot_index = SlotIndex (slot_get: u32)
datatype generation = Generation (gen_get: u32)

definition TenantTag_MAX :: u16 where
  "TenantTag_MAX = push_bit TENANT_BITS 1 - 1"

definition TenantTag_new :: "u16 \<Rightarrow> entity_id_error + tenant_tag" where
  "TenantTag_new v = (if v > TenantTag_MAX then Inl (TenantTagOutOfRange v) else Inr (TenantTag v))"

definition TenantTag_default :: tenant_tag where
  "TenantTag_default = TenantTag 0"

definition SlotIndex_new :: "u32 \<Rightarrow> slot_index" where
  "SlotIndex_new v = SlotIndex v"

text \<open>\<open>usize\<close> is 64 bits wide, so the conversion from \<open>u32\<close> never fails.\<close>

definition to_index :: "slot_index \<Rightarrow> nat option" where
  "to_index s = (if unat (slot_get s) \<le> usize_max then Some (unat (slot_get s)) else None)"

definition Generation_FIRST :: generation where
  "Generation_FIRST = Generation 0"

definition Generation_MAX :: u32 where
  "Generation_MAX = push_bit GENERATION_BITS 1 - 1"

definition Generation_new :: "u32 \<Rightarrow> entity_id_error + generation" where
  "Generation_new v =
     (if v > Generation_MAX then Inl (GenerationOutOfRange v) else Inr (Generation v))"

definition gen_next :: "generation \<Rightarrow> generation option" where
  "gen_next g = (if gen_get g \<ge> Generation_MAX then None else Some (Generation (gen_get g + 1)))"

text \<open>The ranges that the parsers establish.\<close>

definition tag_ok :: "tenant_tag \<Rightarrow> bool" where
  "tag_ok t \<longleftrightarrow> tag_get t \<le> TenantTag_MAX"

definition gen_ok :: "generation \<Rightarrow> bool" where
  "gen_ok g \<longleftrightarrow> gen_get g \<le> Generation_MAX"

section \<open>The packed handle\<close>

datatype entity_id = EntityId (id_bits: u64)

definition EntityId_new :: "tenant_tag \<Rightarrow> slot_index \<Rightarrow> generation \<Rightarrow> entity_id" where
  "EntityId_new t s g = EntityId
     (push_bit TENANT_SHIFT (ucast (tag_get t)) OR
      push_bit SLOT_SHIFT (ucast (slot_get s)) OR
      push_bit GENERATION_SHIFT (ucast (gen_get g)))"

definition id_tenant :: "entity_id \<Rightarrow> tenant_tag" where
  "id_tenant e = TenantTag (ucast (drop_bit TENANT_SHIFT (id_bits e) AND TENANT_MASK))"

definition id_slot :: "entity_id \<Rightarrow> slot_index" where
  "id_slot e = SlotIndex (ucast (drop_bit SLOT_SHIFT (id_bits e) AND SLOT_MASK))"

definition id_generation :: "entity_id \<Rightarrow> generation" where
  "id_generation e =
     Generation (ucast (drop_bit GENERATION_SHIFT (id_bits e) AND GENERATION_MASK))"

section \<open>Durable keys\<close>

text \<open>
  \<open>NonZeroU64\<close>: a 64-bit word that is not zero. The wrapped value is kept as a word and
  the constructors reject zero, as \<open>NonZeroU64::new\<close> does.
\<close>

definition nonzero_u64 :: "u64 \<Rightarrow> u64 option" where
  "nonzero_u64 v = (if v = 0 then None else Some v)"

datatype entity_key = EntityKey (ekey_get: u64)

section \<open>Facts about the layout\<close>

lemma to_index_eq [simp]: "to_index s = Some (unat (slot_get s))"
  using unat_u32_less [of "slot_get s"] by (simp add: to_index_def usize_max_def)

lemma generation_eq_iff: "g = g' \<longleftrightarrow> gen_get g = gen_get g'"
  by (cases g; cases g') simp

lemma slot_index_eq_iff: "s = s' \<longleftrightarrow> unat (slot_get s) = unat (slot_get s')"
  by (cases s; cases s') (simp add: word_unat_eq_iff)

lemma TenantTag_new_ok [simp]: "TenantTag_new v = Inr t \<longleftrightarrow> t = TenantTag v \<and> tag_ok t"
  by (auto simp: TenantTag_new_def tag_ok_def not_less)

lemma Generation_new_ok [simp]: "Generation_new v = Inr g \<longleftrightarrow> g = Generation v \<and> gen_ok g"
  by (auto simp: Generation_new_def gen_ok_def not_less)

lemma tag_ok_iff: "tag_ok t \<longleftrightarrow> unat (tag_get t) < 2 ^ 12"
  by (simp add: tag_ok_def TenantTag_MAX_def layout_defs word_le_nat_alt) linarith

lemma gen_ok_iff: "gen_ok g \<longleftrightarrow> unat (gen_get g) < 2 ^ 20"
  by (simp add: gen_ok_def Generation_MAX_def layout_defs word_le_nat_alt) linarith

lemma gen_ok_FIRST [simp]: "gen_ok Generation_FIRST"
  by (simp add: gen_ok_iff Generation_FIRST_def)

lemma gen_next_Some:
  assumes "gen_next g = Some g'"
  shows "unat (gen_get g') = Suc (unat (gen_get g)) \<and> gen_ok g'"
proof -
  from assms have lt: "gen_get g < 0xFFFFF" and g': "g' = Generation (gen_get g + 1)"
    by (auto simp: gen_next_def Generation_MAX_def layout_defs split: if_splits)
  from lt have "unat (gen_get g) < 0xFFFFF" by (simp add: word_less_nat_alt)
  then have "unat (gen_get g + 1) = Suc (unat (gen_get g))"
    by (simp add: unat_word_ariths)
  with g' \<open>unat (gen_get g) < 0xFFFFF\<close> show ?thesis by (simp add: gen_ok_iff)
qed

lemma gen_next_None: "gen_ok g \<Longrightarrow> gen_next g = None \<longleftrightarrow> gen_get g = Generation_MAX"
  by (auto simp: gen_next_def gen_ok_def)

lemma gen_high_bit: "gen_ok g \<Longrightarrow> 20 \<le> n \<Longrightarrow> \<not> bit (gen_get g) n"
  using high_bit_zero [of "gen_get g" 20 n] by (simp add: gen_ok_iff)

lemma tag_high_bit: "tag_ok t \<Longrightarrow> 12 \<le> n \<Longrightarrow> \<not> bit (tag_get t) n"
  using high_bit_zero [of "tag_get t" 12 n] by (simp add: tag_ok_iff)

text \<open>The components of a packed handle, read back.\<close>

lemma id_generation_new [simp]:
  assumes "gen_ok g"
  shows "id_generation (EntityId_new t s g) = g"
proof -
  have "n < 20" if "bit (gen_get g) n" for n
    using that assms(1) gen_high_bit [of g n] by (meson not_less)
  then have "ucast (drop_bit 0 (id_bits (EntityId_new t s g)) AND mask 20) = gen_get g"
    by (intro bit_word_eqI)
      (auto simp: EntityId_new_def layout_defs bit_simps not_less)
  then show ?thesis
    by (cases g) (simp add: id_generation_def layout_defs mask_eq_exp_minus_1 push_bit_of_1)
qed

lemma id_slot_new [simp]:
  assumes "gen_ok g"
  shows "id_slot (EntityId_new t s g) = s"
proof -
  have "\<not> bit (gen_get g) n" if "20 \<le> n" for n
    using that assms(1) by (rule gen_high_bit [rotated])
  then have "ucast (drop_bit 20 (id_bits (EntityId_new t s g)) AND mask 32) = slot_get s"
    by (intro bit_word_eqI)
      (auto simp: EntityId_new_def layout_defs bit_simps not_less)
  then show ?thesis
    by (cases s) (simp add: id_slot_def layout_defs mask_eq_exp_minus_1 push_bit_of_1)
qed

lemma id_tenant_new [simp]:
  assumes "gen_ok g" and "tag_ok t"
  shows "id_tenant (EntityId_new t s g) = t"
proof -
  have "\<not> bit (gen_get g) n" if "20 \<le> n" for n
    using that assms(1) by (rule gen_high_bit [rotated])
  moreover have "n < 12" if "bit (tag_get t) n" for n
    using that assms(2) tag_high_bit [of t n] by (meson not_less)
  moreover have "\<not> bit (slot_get s) (32 + n)" for n
    using bit_imp_le_length [of "slot_get s" "32 + n"] by auto
  ultimately have "ucast (drop_bit 52 (id_bits (EntityId_new t s g)) AND mask 12) = tag_get t"
    by (intro bit_word_eqI)
      (auto simp: EntityId_new_def layout_defs bit_simps not_less dest: bit_imp_le_length)
  then show ?thesis
    by (cases t) (simp add: id_tenant_def layout_defs mask_eq_exp_minus_1 push_bit_of_1)
qed

text \<open>The 12 + 32 + 20 bits use the whole word: a handle is its three components.\<close>

lemma layout_masks:
  "TENANT_MASK = mask 12" "SLOT_MASK = mask 32" "GENERATION_MASK = mask 20"
  by (simp_all add: layout_defs mask_eq_exp_minus_1)

lemma layout_shifts: "TENANT_SHIFT = 52" "SLOT_SHIFT = 20" "GENERATION_SHIFT = 0"
  by (simp_all add: layout_defs)

lemma id_gen_ok [simp]: "gen_ok (id_generation e)"
proof -
  have "take_bit 20 (unat (id_bits e)) < 2 ^ 20" by (rule take_bit_nat_less_exp)
  then have "unat (take_bit 20 (id_bits e)) < 2 ^ 20" by (simp add: unsigned_take_bit_eq)
  then show ?thesis
    by (simp add: gen_ok_iff id_generation_def layout_masks layout_shifts unsigned_ucast_eq
        le_less_trans [OF take_bit_nat_less_eq_self] flip: take_bit_eq_mask)
qed

lemma EntityId_new_parts [simp]:
  "EntityId_new (id_tenant e) (id_slot e) (id_generation e) = e"
proof -
  have "bit (id_bits (EntityId_new (id_tenant e) (id_slot e) (id_generation e))) n
      = bit (id_bits e) n" if "n < 64" for n
    using that
    by (cases "52 \<le> n") (auto simp: EntityId_new_def id_tenant_def id_slot_def id_generation_def layout_masks
        layout_shifts bit_simps)
  then show ?thesis
    by (intro entity_id.expand bit_word_eqI) simp
qed

lemma entity_id_eq_iff:
  "e = e' \<longleftrightarrow>
     id_tenant e = id_tenant e' \<and> id_slot e = id_slot e' \<and> id_generation e = id_generation e'"
  by (metis EntityId_new_parts)

section \<open>Properties\<close>

text \<open>
  C26. Packing is a bijection. A handle built from an in-range tenant, slot and generation reads
  back exactly those three, any 64-bit handle is the packing of the parts it reads as, and
  every generation that is read is in range: the fields never overlap and no bit is lost.
\<close>

theorem handle_pack_unpack:
  "(\<forall>t s g. tag_ok t \<and> gen_ok g \<longrightarrow>
      id_tenant (EntityId_new t s g) = t \<and> id_slot (EntityId_new t s g) = s \<and>
      id_generation (EntityId_new t s g) = g) \<and>
   (\<forall>e. EntityId_new (id_tenant e) (id_slot e) (id_generation e) = e \<and> gen_ok (id_generation e))"
  by simp

lemma handle_pack_unpack_witness:
  "id_slot (EntityId_new (TenantTag 0xFFF) (SlotIndex 0xFFFFFFFF) (Generation 0xFFFFF)) = SlotIndex 0xFFFFFFFF"
  using handle_pack_unpack by (simp add: tag_ok_iff gen_ok_iff)

end
