(* ===== verification/Handle_Pool.thy ===== *)
theory Handle_Pool
  imports Prelude
begin

text \<open>
  The contract of a pool that mints and retires handles, as the world relies on it: a
  minted handle is new, becomes live and is remembered as issued; retiring a handle makes
  it dead and forgets nothing. The consequences for a whole run of operations (no handle is
  minted twice, a dead handle stays dead) are proved once, from the laws.
\<close>

datatype 'h pool_op = Mint | Retire 'h

text \<open>
  A run of operations over a pool given by its two operations. \<open>None\<close> is a panic; the
  second component lists the handles minted, oldest first; failed operations leave no trace
  in it.
\<close>

fun pool_run ::
  "('s \<Rightarrow> ('s \<times> ('e + 'h)) option) \<Rightarrow> ('s \<Rightarrow> 'h \<Rightarrow> 's \<times> ('e + unit)) \<Rightarrow>
     's \<Rightarrow> 'h pool_op list \<Rightarrow> ('s \<times> 'h list) option" where
  "pool_run mint retire s [] = Some (s, [])"
| "pool_run mint retire s (Mint # ops) =
     (case mint s of
        None \<Rightarrow> None
      | Some (s', Inl e) \<Rightarrow> pool_run mint retire s' ops
      | Some (s', Inr h) \<Rightarrow>
          map_option (\<lambda>(t, hs). (t, h # hs)) (pool_run mint retire s' ops))"
| "pool_run mint retire s (Retire h # ops) = pool_run mint retire (fst (retire s h)) ops"

locale handle_pool =
  fixes mint :: "'s \<Rightarrow> ('s \<times> ('e + 'h)) option"
    and retire :: "'s \<Rightarrow> 'h \<Rightarrow> 's \<times> ('e + unit)"
    and live :: "'s \<Rightarrow> 'h \<Rightarrow> bool"
    and issued :: "'s \<Rightarrow> 'h set"
    and inv :: "'s \<Rightarrow> bool"
  assumes mint_total: "inv s \<Longrightarrow> mint s \<noteq> None"
    and mint_inv: "inv s \<Longrightarrow> mint s = Some (s', r) \<Longrightarrow> inv s'"
    and mint_fail: "inv s \<Longrightarrow> mint s = Some (s', Inl e) \<Longrightarrow> s' = s"
    and mint_live: "inv s \<Longrightarrow> mint s = Some (s', Inr h) \<Longrightarrow> live s' h' \<longleftrightarrow> h' = h \<or> live s h'"
    and mint_fresh: "inv s \<Longrightarrow> mint s = Some (s', Inr h) \<Longrightarrow> h \<notin> issued s"
    and mint_issued: "inv s \<Longrightarrow> mint s = Some (s', Inr h) \<Longrightarrow> issued s' = insert h (issued s)"
    and retire_inv: "inv s \<Longrightarrow> inv (fst (retire s h))"
    and retire_live: "inv s \<Longrightarrow> live (fst (retire s h)) h' \<longleftrightarrow> live s h' \<and> h' \<noteq> h"
    and retire_issued: "inv s \<Longrightarrow> issued (fst (retire s h)) = issued s"
    and retire_ok: "inv s \<Longrightarrow> is_ok (snd (retire s h)) \<longleftrightarrow> live s h"
    and live_issued: "inv s \<Longrightarrow> live s h \<Longrightarrow> h \<in> issued s"
begin

lemma mint_cases:
  assumes "inv s"
  obtains (fail) e where "mint s = Some (s, Inl e)"
    | (fresh) s' h where "mint s = Some (s', Inr h)" "inv s'"
proof -
  from mint_total [OF assms] obtain s' r where m: "mint s = Some (s', r)" by auto
  show thesis
  proof (cases r)
    case (Inl e)
    with m mint_fail [OF assms, of s' e] show thesis by (intro fail) simp
  next
    case (Inr h)
    with m mint_inv [OF assms m] show thesis by (intro fresh) simp_all
  qed
qed

lemma run_total: "inv s \<Longrightarrow> \<exists>t hs. pool_run mint retire s ops = Some (t, hs) \<and> inv t"
proof (induction ops arbitrary: s)
  case (Cons op ops)
  show ?case
  proof (cases op)
    case Mint
    from Cons.prems show ?thesis
    proof (cases rule: mint_cases)
      case (fail e)
      with Cons.IH [OF Cons.prems] show ?thesis by (simp add: Mint)
    next
      case (fresh s' h)
      from Cons.IH [OF fresh(2)] obtain t hs where "pool_run mint retire s' ops = Some (t, hs)"
        and "inv t" by blast
      with fresh show ?thesis by (simp add: Mint)
    qed
  next
    case (Retire h)
    with Cons.IH [of "fst (retire s h)"] Cons.prems show ?thesis by (simp add: retire_inv)
  qed
qed simp

lemma run_issued:
  "inv s \<Longrightarrow> pool_run mint retire s ops = Some (t, hs) \<Longrightarrow>
     issued t = issued s \<union> set hs \<and> set hs \<inter> issued s = {} \<and> distinct hs"
proof (induction ops arbitrary: s hs)
  case (Cons op ops)
  show ?case
  proof (cases op)
    case Mint
    from Cons.prems mint_total [of s] obtain s' r where m: "mint s = Some (s', r)" by auto
    show ?thesis
    proof (cases r)
      case (Inl e)
      with m Cons.prems mint_fail [of s s' e] have "pool_run mint retire s ops = Some (t, hs)"
        by (simp add: Mint)
      with Cons.prems(1) show ?thesis by (rule Cons.IH)
    next
      case (Inr h)
      with m Cons.prems obtain hs' where
        run: "pool_run mint retire s' ops = Some (t, hs')" and hs: "hs = h # hs'"
        by (auto simp: Mint)
      from m Inr Cons.prems(1) have iss: "issued s' = insert h (issued s)" and "h \<notin> issued s"
        and "inv s'" by (auto simp: mint_issued mint_fresh dest: mint_inv)
      with Cons.IH [OF \<open>inv s'\<close> run] hs show ?thesis by auto
    qed
  next
    case (Retire h)
    with Cons.prems Cons.IH [of "fst (retire s h)"] show ?thesis
      by (simp add: retire_inv retire_issued)
  qed
qed simp

text \<open>No handle is ever minted twice, and none that was issued before the run.\<close>

lemma run_distinct:
  "inv s \<Longrightarrow> pool_run mint retire s ops = Some (t, hs) \<Longrightarrow> distinct hs \<and> set hs \<inter> issued s = {}"
  using run_issued by blast

text \<open>A handle that was issued and is no longer live never becomes live again.\<close>

lemma run_dead:
  "inv s \<Longrightarrow> pool_run mint retire s ops = Some (t, hs) \<Longrightarrow> h \<in> issued s \<Longrightarrow> \<not> live s h \<Longrightarrow>
     \<not> live t h"
proof (induction ops arbitrary: s hs)
  case (Cons op ops)
  show ?case
  proof (cases op)
    case Mint
    from Cons.prems mint_total [of s] obtain s' r where m: "mint s = Some (s', r)" by auto
    show ?thesis
    proof (cases r)
      case (Inl e)
      with m Cons.prems mint_fail [of s s' e] have "pool_run mint retire s ops = Some (t, hs)"
        by (simp add: Mint)
      with Cons show ?thesis by blast
    next
      case (Inr h')
      with m Cons.prems obtain hs' where run: "pool_run mint retire s' ops = Some (t, hs')"
        by (auto simp: Mint)
      from m Inr Cons.prems have "inv s'" and "h \<in> issued s'" and "\<not> live s' h"
        using mint_fresh [of s s' h'] mint_live [of s s' h' h]
        by (auto simp: mint_issued dest: mint_inv)
      with Cons.IH run show ?thesis by blast
    qed
  next
    case (Retire h')
    with Cons.prems Cons.IH [of "fst (retire s h')"] show ?thesis
      by (simp add: retire_inv retire_issued retire_live)
  qed
qed simp

end

end
