(* ===== verification/Arena.thy ===== *)
theory Arena
  imports Entity_Id Handle_Pool
begin

text \<open>
  The generational arena of crates/mud-core/src/entity/arena.rs: the liveness authority
  that mints, validates and retires handles. \<open>unreachable!\<close> in \<open>reuse\<close> is a panic and is
  the outcome \<open>None\<close>; the invariant \<open>arena_ok\<close> shows that it is never reached.
\<close>

section \<open>State and operations\<close>

datatype arena_error =
    CrossTenant (err_arena: tenant_tag) (err_handle: tenant_tag)
  | StaleHandle
  | Exhausted

datatype slot_state = Live generation | Free generation | Burned

record entity_arena =
  tenant :: tenant_tag
  slots :: "slot_state list"
  free_list :: "slot_index list"

definition arena_new :: "tenant_tag \<Rightarrow> entity_arena" where
  "arena_new t = \<lparr>tenant = t, slots = [], free_list = []\<rparr>"

text \<open>\<open>Option::and_then\<close> over \<open>to_index\<close>: the state of the slot a handle names.\<close>

definition slot_at :: "entity_arena \<Rightarrow> slot_index \<Rightarrow> slot_state option" where
  "slot_at a s = Option.bind (to_index s) (vec_get (slots a))"

definition set_slot :: "entity_arena \<Rightarrow> slot_index \<Rightarrow> slot_state \<Rightarrow> entity_arena" where
  "set_slot a s st = a\<lparr>slots := (slots a)[unat (slot_get s) := st]\<rparr>"

definition reuse :: "entity_arena \<Rightarrow> slot_index \<Rightarrow> (entity_arena \<times> entity_id) option" where
  "reuse a s =
     (case slot_at a s of
        Some (Free g) \<Rightarrow> Some (set_slot a s (Live g), EntityId_new (tenant a) s g)
      | _ \<Rightarrow> None)"

definition u32_try_from :: "nat \<Rightarrow> u32 option" where
  "u32_try_from n = (if n < 2 ^ 32 then Some (of_nat n) else None)"

definition alloc :: "entity_arena \<Rightarrow> (entity_arena \<times> (arena_error + entity_id)) option" where
  "alloc a =
     (case vec_pop (free_list a) of
        Some (s, rest) \<Rightarrow>
          map_option (\<lambda>(a', e). (a', Inr e)) (reuse (a\<lparr>free_list := rest\<rparr>) s)
      | None \<Rightarrow>
          Some (case u32_try_from (length (slots a)) of
             None \<Rightarrow> (a, Inl Exhausted)
           | Some index \<Rightarrow>
               (a\<lparr>slots := slots a @ [Live Generation_FIRST]\<rparr>,
                Inr (EntityId_new (tenant a) (SlotIndex_new index) Generation_FIRST))))"

definition ensure_owned :: "entity_arena \<Rightarrow> entity_id \<Rightarrow> arena_error + unit" where
  "ensure_owned a e =
     (if id_tenant e = tenant a then Inr () else Inl (CrossTenant (tenant a) (id_tenant e)))"

definition free :: "entity_arena \<Rightarrow> entity_id \<Rightarrow> entity_arena \<times> (arena_error + unit)" where
  "free a e =
     (case ensure_owned a e of
        Inl err \<Rightarrow> (a, Inl err)
      | Inr _ \<Rightarrow>
          (case slot_at a (id_slot e) of
             Some (Live g) \<Rightarrow>
               (if g \<noteq> id_generation e then (a, Inl StaleHandle)
                else (case gen_next g of
                   Some g' \<Rightarrow>
                     ((set_slot a (id_slot e) (Free g'))\<lparr>free_list := free_list a @ [id_slot e]\<rparr>,
                      Inr ())
                 | None \<Rightarrow> (set_slot a (id_slot e) Burned, Inr ())))
           | _ \<Rightarrow> (a, Inl StaleHandle)))"

definition resolve :: "entity_arena \<Rightarrow> entity_id \<Rightarrow> arena_error + slot_index" where
  "resolve a e =
     bindE (ensure_owned a e) (\<lambda>_.
       case slot_at a (id_slot e) of
         Some (Live g) \<Rightarrow> if g = id_generation e then Inr (id_slot e) else Inl StaleHandle
       | _ \<Rightarrow> Inl StaleHandle)"

section \<open>Invariant\<close>

fun state_ok :: "slot_state \<Rightarrow> bool" where
  "state_ok (Live g) = gen_ok g"
| "state_ok (Free g) = gen_ok g"
| "state_ok Burned = True"

fun is_free :: "slot_state \<Rightarrow> bool" where
  "is_free (Free g) = True"
| "is_free _ = False"

text \<open>
  The tenant tag and every generation are in range, the vector stays inside the 32-bit slot
  space, and the free list holds each \<open>Free\<close> slot exactly once and nothing else.
\<close>

definition arena_ok :: "entity_arena \<Rightarrow> bool" where
  "arena_ok a \<longleftrightarrow> tag_ok (tenant a) \<and> list_all state_ok (slots a) \<and> length (slots a) \<le> 2 ^ 32 \<and>
     distinct (free_list a) \<and>
     (\<forall>s. s \<in> set (free_list a) \<longleftrightarrow> (\<exists>g. slot_at a s = Some (Free g)))"

definition alive :: "entity_arena \<Rightarrow> entity_id \<Rightarrow> bool" where
  "alive a e \<longleftrightarrow> id_tenant e = tenant a \<and> slot_at a (id_slot e) = Some (Live (id_generation e))"

text \<open>
  The handles that may have been minted so far: those whose generation the slot has
  reached. A slot that is burned has spent all of them.
\<close>

definition issued :: "entity_arena \<Rightarrow> entity_id set" where
  "issued a = {e. id_tenant e = tenant a \<and>
     (case slot_at a (id_slot e) of
        None \<Rightarrow> False
      | Some (Live g) \<Rightarrow> gen_get (id_generation e) \<le> gen_get g
      | Some (Free g) \<Rightarrow> gen_get (id_generation e) < gen_get g
      | Some Burned \<Rightarrow> True)}"

lemma slot_at_eq [simp]: "slot_at a s = vec_get (slots a) (unat (slot_get s))"
  by (simp add: slot_at_def)

lemma set_slot_sel [simp]:
  "tenant (set_slot a s st) = tenant a"
  "free_list (set_slot a s st) = free_list a"
  "slots (set_slot a s st) = (slots a)[unat (slot_get s) := st]"
  by (simp_all add: set_slot_def)

lemma resolve_ok: "resolve a e = Inr s \<longleftrightarrow> alive a e \<and> s = id_slot e"
  by (auto simp: resolve_def alive_def ensure_owned_def split: option.splits slot_state.splits)

lemma is_ok_resolve [simp]: "is_ok (resolve a e) \<longleftrightarrow> alive a e"
  by (auto simp: is_ok_iff resolve_ok)

lemma resolve_not_alive:
  "\<not> alive a e \<Longrightarrow> resolve a e =
     Inl (if id_tenant e = tenant a then StaleHandle else CrossTenant (tenant a) (id_tenant e))"
  by (auto simp: resolve_def alive_def ensure_owned_def split: option.splits slot_state.splits)

lemma arena_ok_new: "tag_ok t \<Longrightarrow> arena_ok (arena_new t)"
  by (simp add: arena_ok_def arena_new_def vec_get_def)

lemma alive_new [simp]: "\<not> alive (arena_new t) e"
  by (simp add: alive_def arena_new_def vec_get_def)

lemma state_ok_slot: "arena_ok a \<Longrightarrow> vec_get (slots a) i = Some st \<Longrightarrow> state_ok st"
  by (auto simp: arena_ok_def list_all_length vec_get_Some)

lemma alive_issued: "alive a e \<Longrightarrow> e \<in> issued a"
  by (auto simp: alive_def issued_def)

section \<open>Allocation\<close>

lemma set_slot_get:
  "unat (slot_get s) < length (slots a) \<Longrightarrow>
     slot_at (set_slot a s st) s' = (if s' = s then Some st else slot_at a s')"
  by (auto simp: vec_get_update slot_index_eq_iff)

lemma alloc_cases:
  assumes ok: "arena_ok a"
  obtains
    (reused) s g rest where
      "free_list a = rest @ [s]" "slot_at a s = Some (Free g)" "gen_ok g"
      "alloc a = Some (set_slot (a\<lparr>free_list := rest\<rparr>) s (Live g), Inr (EntityId_new (tenant a) s g))"
  | (grown) i where
      "free_list a = []" "unat i = length (slots a)" "slot_at a (SlotIndex i) = None"
      "alloc a = Some (a\<lparr>slots := slots a @ [Live Generation_FIRST]\<rparr>,
         Inr (EntityId_new (tenant a) (SlotIndex i) Generation_FIRST))"
  | (full) "free_list a = []" "length (slots a) = 2 ^ 32" "alloc a = Some (a, Inl Exhausted)"
proof (cases "free_list a" rule: rev_cases)
  case (snoc rest s)
  with ok obtain g where g: "slot_at a s = Some (Free g)" by (auto simp: arena_ok_def)
  have "gen_ok g" using state_ok_slot [OF ok] g by fastforce
  with snoc g show thesis
    by (intro reused [of rest s g]) (simp_all add: alloc_def reuse_def vec_pop_def)
next
  case Nil
  show thesis
  proof (cases "length (slots a) < 2 ^ 32")
    case True
    with Nil show thesis
      by (intro grown [of "of_nat (length (slots a))"])
        (simp_all add: alloc_def vec_pop_def u32_try_from_def SlotIndex_new_def
          unat_of_nat_u32 vec_get_None)
  next
    case False
    with Nil ok show thesis
      by (intro full) (simp_all add: alloc_def vec_pop_def u32_try_from_def arena_ok_def)
  qed
qed

lemma alloc_no_panic: "arena_ok a \<Longrightarrow> alloc a \<noteq> None"
  by (erule alloc_cases) auto

lemma arena_ok_alloc:
  assumes ok: "arena_ok a" and al: "alloc a = Some (a', r)"
  shows "arena_ok a'"
  using ok
proof (cases rule: alloc_cases)
  case (reused s g rest)
  then have len: "unat (slot_get s) < length (slots a)" by (simp add: vec_get_Some)
  have a': "a' = set_slot (a\<lparr>free_list := rest\<rparr>) s (Live g)" using reused al by simp
  have "slot_at a' s' = (if s' = s then Some (Live g) else slot_at a s')" for s'
    using len set_slot_get [of s "a\<lparr>free_list := rest\<rparr>" "Live g" s'] by (simp add: a')
  moreover have "list_all state_ok (slots a')"
    using ok reused by (auto simp: a' arena_ok_def list_all_iff dest: set_update_subset_insert [THEN subsetD])
  ultimately show ?thesis
    using ok reused by (auto simp: arena_ok_def a')
next
  case (grown i)
  with ok al have a': "a' = a\<lparr>slots := slots a @ [Live Generation_FIRST]\<rparr>" by simp
  have "Suc (length (slots a)) \<le> 2 ^ 32"
    using grown(2) unat_u32_less [of i] by simp
  moreover have "slot_at a' s \<noteq> Some (Free g)" if "slot_at a s \<noteq> Some (Free g)" for s g
    using that by (auto simp: a' vec_get_append1)
  moreover have "\<forall>s g. slot_at a s \<noteq> Some (Free g)"
    using ok grown(1) by (auto simp: arena_ok_def)
  ultimately show ?thesis
    using ok grown(1) by (auto simp: arena_ok_def a')
next
  case full
  with ok al show ?thesis by simp
qed

lemma alloc_tenant: "arena_ok a \<Longrightarrow> alloc a = Some (a', r) \<Longrightarrow> tenant a' = tenant a"
  by (erule alloc_cases) auto

lemma alloc_error: "arena_ok a \<Longrightarrow> alloc a = Some (a', Inl e) \<Longrightarrow>
   a' = a \<and> e = Exhausted \<and> length (slots a) = 2 ^ 32 \<and> free_list a = []"
  by (erule alloc_cases) auto

text \<open>What a successful allocation does to every slot of the arena.\<close>

lemma alloc_ok_slots:
  assumes ok: "arena_ok a" and al: "alloc a = Some (a', Inr e)"
  shows "id_tenant e = tenant a"
    and "slot_at a' s = (if s = id_slot e then Some (Live (id_generation e)) else slot_at a s)"
    and "slot_at a (id_slot e) = None \<and> id_generation e = Generation_FIRST \<or>
         slot_at a (id_slot e) = Some (Free (id_generation e))"
proof -
  have t: "tag_ok (tenant a)" using ok by (simp add: arena_ok_def)
  have "id_tenant e = tenant a \<and>
    slot_at a' s = (if s = id_slot e then Some (Live (id_generation e)) else slot_at a s) \<and>
    (slot_at a (id_slot e) = None \<and> id_generation e = Generation_FIRST \<or>
     slot_at a (id_slot e) = Some (Free (id_generation e)))"
    using ok
  proof (cases rule: alloc_cases)
    case (reused s' g rest)
    then have "unat (slot_get s') < length (slots a)" by (simp add: vec_get_Some)
    then show ?thesis
      using reused al t set_slot_get [of s' "a\<lparr>free_list := rest\<rparr>" "Live g" s] by auto
  next
    case (grown i)
    then show ?thesis
      using al t by (auto simp: vec_get_append1 slot_index_eq_iff)
  next
    case full
    then show ?thesis using al by simp
  qed
  then show "id_tenant e = tenant a"
    and "slot_at a' s = (if s = id_slot e then Some (Live (id_generation e)) else slot_at a s)"
    and "slot_at a (id_slot e) = None \<and> id_generation e = Generation_FIRST \<or>
         slot_at a (id_slot e) = Some (Free (id_generation e))"
    by blast+
qed

lemma alloc_alive:
  assumes ok: "arena_ok a" and al: "alloc a = Some (a', Inr e)"
  shows "alive a' e' \<longleftrightarrow> e' = e \<or> alive a e'" and "\<not> alive a e"
  using alloc_ok_slots [OF assms] alloc_tenant [OF assms]
  by (auto simp: alive_def entity_id_eq_iff split: if_splits)

lemma alloc_issued:
  assumes ok: "arena_ok a" and al: "alloc a = Some (a', Inr e)"
  shows "issued a' = insert e (issued a)" and "e \<notin> issued a"
proof -
  note sl = alloc_ok_slots [OF assms] and te = alloc_tenant [OF assms]
  show "e \<notin> issued a" using sl(3) by (auto simp: issued_def)
  have "e' \<in> issued a' \<longleftrightarrow> e' = e \<or> e' \<in> issued a" for e'
  proof (cases "id_slot e' = id_slot e")
    case True
    with sl(2) [of "id_slot e'"] te
    have new: "e' \<in> issued a' \<longleftrightarrow>
        id_tenant e' = tenant a \<and> gen_get (id_generation e') \<le> gen_get (id_generation e)"
      by (simp add: issued_def)
    have eq: "e' = e \<longleftrightarrow>
        id_tenant e' = tenant a \<and> gen_get (id_generation e') = gen_get (id_generation e)"
      using True sl(1) by (simp add: entity_id_eq_iff generation_eq_iff)
    from sl(3) show ?thesis
    proof
      assume "slot_at a (id_slot e) = None \<and> id_generation e = Generation_FIRST"
      with True have "e' \<notin> issued a" and "gen_get (id_generation e) = 0"
        by (simp_all add: issued_def Generation_FIRST_def)
      with new eq show ?thesis by simp
    next
      assume "slot_at a (id_slot e) = Some (Free (id_generation e))"
      with True have "e' \<in> issued a \<longleftrightarrow>
          id_tenant e' = tenant a \<and> gen_get (id_generation e') < gen_get (id_generation e)"
        by (simp add: issued_def)
      with new eq show ?thesis by (auto simp: order.order_iff_strict)
    qed
  next
    case False
    then show ?thesis using sl(2) te by (auto simp: issued_def)
  qed
  then show "issued a' = insert e (issued a)" by auto
qed

section \<open>Freeing\<close>

lemma free_not_alive:
  "\<not> alive a e \<Longrightarrow> free a e = (a,
     Inl (if id_tenant e = tenant a then StaleHandle else CrossTenant (tenant a) (id_tenant e)))"
  by (auto simp: free_def alive_def ensure_owned_def split: option.splits slot_state.splits)

lemma free_alive:
  "alive a e \<Longrightarrow> free a e =
     (case gen_next (id_generation e) of
        Some g' \<Rightarrow> ((set_slot a (id_slot e) (Free g'))\<lparr>free_list := free_list a @ [id_slot e]\<rparr>, Inr ())
      | None \<Rightarrow> (set_slot a (id_slot e) Burned, Inr ()))"
  by (simp add: free_def alive_def ensure_owned_def)

lemma is_ok_free [simp]: "is_ok (snd (free a e)) \<longleftrightarrow> alive a e"
  by (cases "alive a e") (auto simp: free_alive free_not_alive split: option.splits)

lemma free_tenant [simp]: "tenant (fst (free a e)) = tenant a"
  by (cases "alive a e") (auto simp: free_alive free_not_alive split: option.splits)

lemma free_slots:
  "alive a e \<Longrightarrow> slot_at (fst (free a e)) s =
     (if s = id_slot e then
        Some (case gen_next (id_generation e) of Some g' \<Rightarrow> Free g' | None \<Rightarrow> Burned)
      else slot_at a s)"
  by (auto simp: free_alive vec_get_update slot_index_eq_iff alive_def vec_get_Some
      split: option.splits)

lemma arena_ok_free:
  assumes ok: "arena_ok a"
  shows "arena_ok (fst (free a e))"
proof (cases "alive a e")
  case False
  with ok show ?thesis by (simp add: free_not_alive)
next
  case True
  have states: "list_all state_ok (slots (fst (free a e)))"
    using ok True
    by (auto simp: free_alive arena_ok_def list_all_iff gen_next_Some split: option.splits
        dest!: set_update_subset_insert [THEN subsetD])
  have notin: "id_slot e \<notin> set (free_list a)"
    using ok True by (auto simp: arena_ok_def alive_def)
  show ?thesis
  proof (cases "gen_next (id_generation e)")
    case None
    with ok True states notin free_slots [OF True] show ?thesis
      by (auto simp: arena_ok_def free_alive)
  next
    case (Some g')
    with ok True states notin free_slots [OF True] show ?thesis
      by (auto simp: arena_ok_def free_alive)
  qed
qed

lemma alive_free:
  "arena_ok a \<Longrightarrow> alive (fst (free a e)) e' \<longleftrightarrow> alive a e' \<and> e' \<noteq> e"
proof (cases "alive a e")
  case False
  then show ?thesis by (auto simp: free_not_alive)
next
  case True
  show ?thesis
  proof (cases "id_slot e' = id_slot e")
    case True
    with \<open>alive a e\<close> free_slots [OF \<open>alive a e\<close>, of "id_slot e'"] show ?thesis
      by (auto simp: alive_def entity_id_eq_iff split: option.splits)
  next
    case False
    with \<open>alive a e\<close> free_slots [OF \<open>alive a e\<close>, of "id_slot e'"] show ?thesis
      by (auto simp: alive_def)
  qed
qed

lemma gen_step: "gen_next g = Some g' \<Longrightarrow> gen_get h < gen_get g' \<longleftrightarrow> gen_get h \<le> gen_get g"
  using gen_next_Some [of g g'] by (auto simp: word_less_nat_alt word_le_nat_alt)

lemma issued_free:
  assumes ok: "arena_ok a"
  shows "issued (fst (free a e)) = issued a"
proof (cases "alive a e")
  case False
  then show ?thesis by (simp add: free_not_alive)
next
  case True
  have "e' \<in> issued (fst (free a e)) \<longleftrightarrow> e' \<in> issued a" for e'
  proof (cases "id_slot e' = id_slot e")
    case True
    have at: "slot_at a (id_slot e') = Some (Live (id_generation e))"
      using \<open>alive a e\<close> True by (simp add: alive_def)
    have "gen_get (id_generation e') \<le> Generation_MAX"
      using id_gen_ok [of e'] by (simp add: gen_ok_def)
    moreover have "gen_next (id_generation e) = None \<Longrightarrow> gen_get (id_generation e) = Generation_MAX"
      using gen_next_None by simp
    ultimately show ?thesis
      using True at free_slots [OF \<open>alive a e\<close>, of "id_slot e'"]
      by (auto simp: issued_def gen_step split: option.splits)
  next
    case False
    with free_slots [OF \<open>alive a e\<close>, of "id_slot e'"] show ?thesis
      by (simp add: issued_def)
  qed
  then show ?thesis by auto
qed

section \<open>The arena is a handle pool\<close>

interpretation arena_pool: handle_pool alloc free alive issued arena_ok
proof unfold_locales
  fix s s' :: entity_arena and h h' :: entity_id and r e
  assume ok: "arena_ok s"
  show "alloc s \<noteq> None" using ok by (rule alloc_no_panic)
  show "arena_ok s'" if "alloc s = Some (s', r)" using ok that by (rule arena_ok_alloc)
  show "s' = s" if "alloc s = Some (s', Inl e)" using alloc_error [OF ok that] by simp
  show "alive s' h' \<longleftrightarrow> h' = h \<or> alive s h'" if "alloc s = Some (s', Inr h)"
    using ok that by (rule alloc_alive)
  show "h \<notin> issued s" if "alloc s = Some (s', Inr h)" using ok that by (rule alloc_issued)
  show "issued s' = insert h (issued s)" if "alloc s = Some (s', Inr h)"
    using ok that by (rule alloc_issued)
  show "arena_ok (fst (free s h))" using ok by (rule arena_ok_free)
  show "alive (fst (free s h)) h' \<longleftrightarrow> alive s h' \<and> h' \<noteq> h" using ok by (rule alive_free)
  show "issued (fst (free s h)) = issued s" using ok by (rule issued_free)
  show "is_ok (snd (free s h)) \<longleftrightarrow> alive s h" by simp
  show "h \<in> issued s" if "alive s h" using that by (rule alive_issued)
qed

lemma arena_pool_tenant:
  "arena_ok a \<Longrightarrow> pool_run alloc free a ops = Some (a', hs) \<Longrightarrow> tenant a' = tenant a"
proof (induction ops arbitrary: a hs)
  case (Cons op ops)
  show ?case
  proof (cases op)
    case Mint
    from Cons.prems(1) show ?thesis
    proof (cases rule: arena_pool.mint_cases)
      case (fail e)
      with Cons show ?thesis by (simp add: Mint)
    next
      case (fresh a1 h)
      with Cons.prems(2) obtain hs' where "pool_run alloc free a1 ops = Some (a', hs')"
        by (auto simp: Mint)
      with Cons.IH [OF fresh(2)] alloc_tenant [OF Cons.prems(1) fresh(1)] show ?thesis by simp
    qed
  next
    case (Retire h)
    with Cons.IH [of "fst (free a h)"] Cons.prems show ?thesis by (simp add: arena_ok_free)
  qed
qed simp

section \<open>Properties\<close>

text \<open>
  C5. No handle is ever minted twice. Over any sequence of allocations and frees (with live,
  stale or foreign handles) starting from an empty arena, the run never panics, the handles
  it mints are pairwise distinct, and the invariant holds at the end.
\<close>

theorem arena_never_reissues:
  assumes "tag_ok t"
  shows "\<exists>a hs. pool_run alloc free (arena_new t) ops = Some (a, hs) \<and> distinct hs \<and> arena_ok a \<and>
    (\<forall>h. alive a h \<longrightarrow> h \<in> set hs)"
proof -
  have ok: "arena_ok (arena_new t)" using assms by (rule arena_ok_new)
  then obtain a hs where run: "pool_run alloc free (arena_new t) ops = Some (a, hs)" and inv: "arena_ok a"
    using arena_pool.run_total by blast
  have "issued (arena_new t) = {}" by (simp add: issued_def arena_new_def vec_get_def)
  with arena_pool.run_issued [OF ok run] have "issued a = set hs" "distinct hs" by auto
  with run inv alive_issued show ?thesis by blast
qed

lemma arena_never_reissues_witness:
  "\<exists>a hs. pool_run alloc free (arena_new (TenantTag 5))
      [Mint, Retire (EntityId_new (TenantTag 5) (SlotIndex 0) (Generation 0)), Mint, Mint] = Some (a, hs) \<and>
    distinct hs"
proof -
  have "tag_ok (TenantTag 5)" by (simp add: tag_ok_iff)
  from arena_never_reissues [OF this] show ?thesis by blast
qed

text \<open>
  A freed handle is refused from then on: after any further allocations and frees, both
  resolving and freeing it fail with the stale-handle error and change nothing.
\<close>

theorem freed_handle_is_stale:
  assumes ok: "arena_ok a" and l: "alive a h"
    and run: "pool_run alloc free (fst (free a h)) ops = Some (a', hs)"
  shows "h \<notin> set hs \<and> resolve a' h = Inl StaleHandle \<and> free a' h = (a', Inl StaleHandle)"
proof -
  let ?a = "fst (free a h)"
  have ok': "arena_ok ?a" using ok by (rule arena_ok_free)
  have iss: "h \<in> issued ?a" using alive_issued [OF l] issued_free [OF ok] by simp
  have dead: "\<not> alive ?a h" using alive_free [OF ok] by simp
  have "tenant a' = tenant a"
    using arena_pool_tenant [OF ok' run] by simp
  moreover have "\<not> alive a' h" using arena_pool.run_dead [OF ok' run iss dead] .
  moreover have "id_tenant h = tenant a" using l by (simp add: alive_def)
  ultimately have "resolve a' h = Inl StaleHandle" "free a' h = (a', Inl StaleHandle)"
    using resolve_not_alive [of a' h] free_not_alive [of a' h] by simp_all
  moreover have "h \<notin> set hs" using arena_pool.run_distinct [OF ok' run] iss by blast
  ultimately show ?thesis by simp
qed

lemma freed_handle_is_stale_witness:
  "\<exists>a a' hs. alloc (arena_new (TenantTag 0)) = Some (a, Inr (EntityId_new (TenantTag 0) (SlotIndex 0) (Generation 0))) \<and>
     pool_run alloc free (fst (free a (EntityId_new (TenantTag 0) (SlotIndex 0) (Generation 0)))) [Mint] = Some (a', hs) \<and>
     resolve a' (EntityId_new (TenantTag 0) (SlotIndex 0) (Generation 0)) = Inl StaleHandle"
proof -
  let ?h = "EntityId_new (TenantTag 0) (SlotIndex 0) (Generation 0)"
  have new: "arena_ok (arena_new (TenantTag 0))" by (simp add: arena_ok_new tag_ok_iff)
  have "\<exists>a. alloc (arena_new (TenantTag 0)) = Some (a, Inr ?h)"
    by (simp add: alloc_def arena_new_def vec_pop_def u32_try_from_def SlotIndex_new_def Generation_FIRST_def)
  then obtain a where al: "alloc (arena_new (TenantTag 0)) = Some (a, Inr ?h)" ..
  have ok: "arena_ok a" and l: "alive a ?h"
    using arena_ok_alloc [OF new al] alloc_alive(1) [OF new al, of ?h] by simp_all
  obtain a' hs where run: "pool_run alloc free (fst (free a ?h)) [Mint] = Some (a', hs)"
    using arena_pool.run_total [OF arena_ok_free [OF ok]] by blast
  from freed_handle_is_stale [OF ok l run] al run show ?thesis by blast
qed

end
