(* ===== verification/Side_Tables.thy ===== *)
theory Side_Tables
  imports Entity_Id
begin

text \<open>
  The hot side tables of crates/mud-core/src/side_tables: where each entity is, what each
  container holds and which keywords each entity answers to. Every table is a vector indexed
  by the slot of a handle. A write whose slot cannot be reached after growing
  (\<open>unreachable!\<close>) is the outcome \<open>None\<close>; it never happens.
\<close>

section \<open>The interface of a slot-indexed table\<close>

text \<open>
  What the world relies on when it retires a handle: a table is read by slot, and releasing a
  handle empties its slot and touches no other, so that the next handle of that slot starts
  from the empty value.
\<close>

locale side_table =
  fixes read :: "'t \<Rightarrow> entity_id \<Rightarrow> 'v"
    and release :: "'t \<Rightarrow> entity_id \<Rightarrow> 't"
    and blank :: 'v
  assumes read_slot: "id_slot e = id_slot e' \<Longrightarrow> read t e = read t e'"
    and read_release: "read (release t e) e' = (if id_slot e' = id_slot e then blank else read t e')"
begin

lemma release_blank: "id_slot e' = id_slot e \<Longrightarrow> read (release t e) e' = blank"
  by (simp add: read_release)

lemma release_other: "id_slot e' \<noteq> id_slot e \<Longrightarrow> read (release t e) e' = read t e'"
  by (simp add: read_release)

lemma release_all:
  "read (foldl release t es) e = (if id_slot e \<in> id_slot ` set es then blank else read t e)"
  by (induction es arbitrary: t) (auto simp: read_release)

end

text \<open>A table whose write replaces the value of one slot.\<close>

locale slot_register = side_table read release blank
  for read :: "'t \<Rightarrow> entity_id \<Rightarrow> 'v" and release :: "'t \<Rightarrow> entity_id \<Rightarrow> 't" and blank :: 'v +
  fixes store :: "'t \<Rightarrow> entity_id \<Rightarrow> 'v \<Rightarrow> 't option"
    and wf :: "'v \<Rightarrow> bool"
  assumes store_total: "wf v \<Longrightarrow> store t e v \<noteq> None"
    and read_store: "wf v \<Longrightarrow> store t e v = Some t' \<Longrightarrow>
      read t' e' = (if id_slot e' = id_slot e then v else read t e')"
begin

lemma last_write_wins:
  "wf v \<Longrightarrow> wf w \<Longrightarrow> store t e v = Some t1 \<Longrightarrow> store t1 e w = Some t2 \<Longrightarrow>
     store t e w = Some t3 \<Longrightarrow> read t2 = read t3"
  by (rule ext) (simp add: read_store)

lemma store_release:
  "wf v \<Longrightarrow> store t e v = Some t' \<Longrightarrow> read (release t' e) = read (release t e)"
  by (rule ext) (simp add: read_store read_release)

end

section \<open>Places an entity can be at\<close>

text \<open>\<open>PlaceId\<close> wraps a \<open>NonZeroU64\<close>.\<close>

datatype place_id = PlaceId (place_get: u64)

section \<open>Locations\<close>

record location_of =
  loc_by_slot :: "place_id option list"
  loc_occupants :: "place_id \<rightharpoonup> entity_id list"

definition location_new :: location_of where
  "location_new = \<lparr>loc_by_slot = [], loc_occupants = Map.empty\<rparr>"

text \<open>\<open>remove_occupant\<close>: drop the occupant of that slot, pruning a list that empties.\<close>

definition remove_occupant ::
  "(place_id \<rightharpoonup> entity_id list) \<Rightarrow> place_id \<Rightarrow> slot_index \<Rightarrow> (place_id \<rightharpoonup> entity_id list)" where
  "remove_occupant occ p s =
     (case occ p of
        None \<Rightarrow> occ
      | Some l \<Rightarrow>
          (let l' = filter (\<lambda>occupant. id_slot occupant \<noteq> s) l
           in if l' = [] then occ(p := None) else occ(p \<mapsto> l')))"

text \<open>\<open>entry(p).or_default().push(e)\<close>.\<close>

definition push_occupant ::
  "(place_id \<rightharpoonup> entity_id list) \<Rightarrow> place_id \<Rightarrow> entity_id \<Rightarrow> (place_id \<rightharpoonup> entity_id list)" where
  "push_occupant occ p e = occ(p \<mapsto> (case occ p of None \<Rightarrow> [] | Some l \<Rightarrow> l) @ [e])"

definition location_place :: "location_of \<Rightarrow> entity_id \<Rightarrow> place_id \<Rightarrow> location_of option" where
  "location_place t e p =
     (case to_index (id_slot e) of
        None \<Rightarrow> Some t
      | Some i \<Rightarrow>
          (case try_cover None i (loc_by_slot t) of
             None \<Rightarrow> Some t
           | Some tab \<Rightarrow>
               (case vec_get tab i of
                  None \<Rightarrow> None
                | Some cell \<Rightarrow>
                    (let occ = (case cell of
                         Some previous \<Rightarrow> remove_occupant (loc_occupants t) previous (id_slot e)
                       | None \<Rightarrow> loc_occupants t)
                     in Some \<lparr>loc_by_slot = tab[i := Some p],
                              loc_occupants = push_occupant occ p e\<rparr>))))"

definition location_remove :: "location_of \<Rightarrow> entity_id \<Rightarrow> location_of" where
  "location_remove t e =
     (case to_index (id_slot e) of
        None \<Rightarrow> t
      | Some i \<Rightarrow>
          (case vec_get (loc_by_slot t) i of
             Some (Some previous) \<Rightarrow>
               \<lparr>loc_by_slot = (loc_by_slot t)[i := None],
                loc_occupants = remove_occupant (loc_occupants t) previous (id_slot e)\<rparr>
           | _ \<Rightarrow> t))"

definition location :: "location_of \<Rightarrow> entity_id \<Rightarrow> place_id option" where
  "location t e =
     Option.bind (Option.bind (to_index (id_slot e)) (vec_get (loc_by_slot t))) id"

definition occupants :: "location_of \<Rightarrow> place_id \<Rightarrow> entity_id list" where
  "occupants t p = (case loc_occupants t p of None \<Rightarrow> [] | Some l \<Rightarrow> l)"

section \<open>Inventories\<close>

datatype inventory = Inventory (inv_by_slot: "entity_id list list")

definition inventory_new :: inventory where
  "inventory_new = Inventory []"

definition inventory_insert :: "inventory \<Rightarrow> entity_id \<Rightarrow> entity_id \<Rightarrow> inventory option" where
  "inventory_insert t container item =
     (case to_index (id_slot container) of
        None \<Rightarrow> Some t
      | Some i \<Rightarrow>
          (case try_cover [] i (inv_by_slot t) of
             None \<Rightarrow> Some t
           | Some tab \<Rightarrow>
               (case vec_get tab i of
                  None \<Rightarrow> None
                | Some contents \<Rightarrow>
                    Some (Inventory
                      (if list_ex (\<lambda>held. id_slot held = id_slot item) contents then tab
                       else tab[i := contents @ [item]])))))"

definition inventory_remove :: "inventory \<Rightarrow> entity_id \<Rightarrow> entity_id \<Rightarrow> inventory" where
  "inventory_remove t container item =
     (case Option.bind (to_index (id_slot container)) (\<lambda>i. map_option (Pair i) (vec_get (inv_by_slot t) i)) of
        None \<Rightarrow> t
      | Some (i, contents) \<Rightarrow>
          Inventory ((inv_by_slot t)[i := filter (\<lambda>held. id_slot held \<noteq> id_slot item) contents]))"

definition inventory_clear :: "inventory \<Rightarrow> entity_id \<Rightarrow> inventory" where
  "inventory_clear t container =
     (case Option.bind (to_index (id_slot container)) (\<lambda>i. map_option (Pair i) (vec_get (inv_by_slot t) i)) of
        None \<Rightarrow> t
      | Some (i, _) \<Rightarrow> Inventory ((inv_by_slot t)[i := []]))"

definition contents :: "inventory \<Rightarrow> entity_id \<Rightarrow> entity_id list" where
  "contents t container =
     (case Option.bind (to_index (id_slot container)) (vec_get (inv_by_slot t)) of
        None \<Rightarrow> [] | Some l \<Rightarrow> l)"

section \<open>Names\<close>

datatype keyword = Keyword (keyword_str: ustring)

text \<open>
  \<open>str::to_lowercase\<close> is Unicode case mapping; the model takes it as the parameter
  \<open>lower\<close>. On ASCII text it is \<open>to_ascii_lowercase\<close>.
\<close>

definition Keyword_new :: "(ustring \<Rightarrow> ustring) \<Rightarrow> ustring \<Rightarrow> keyword" where
  "Keyword_new lower text = Keyword (lower text)"

datatype naming = Naming (nam_by_slot: "keyword list list")

definition naming_new :: naming where
  "naming_new = Naming []"

definition naming_set :: "naming \<Rightarrow> entity_id \<Rightarrow> keyword list \<Rightarrow> naming" where
  "naming_set t e ks =
     (case to_index (id_slot e) of
        None \<Rightarrow> t
      | Some i \<Rightarrow>
          (case try_cover [] i (nam_by_slot t) of
             None \<Rightarrow> t
           | Some tab \<Rightarrow> Naming (if i < length tab then tab[i := ks] else tab)))"

definition naming_clear :: "naming \<Rightarrow> entity_id \<Rightarrow> naming" where
  "naming_clear t e =
     (case to_index (id_slot e) of
        None \<Rightarrow> t
      | Some i \<Rightarrow>
          (if i < length (nam_by_slot t) then Naming ((nam_by_slot t)[i := []]) else t))"

definition naming_keywords :: "naming \<Rightarrow> entity_id \<Rightarrow> keyword list" where
  "naming_keywords t e =
     (case Option.bind (to_index (id_slot e)) (vec_get (nam_by_slot t)) of
        None \<Rightarrow> [] | Some l \<Rightarrow> l)"

section \<open>The tables as functions of the slot\<close>

abbreviation slot_nat :: "entity_id \<Rightarrow> nat" where
  "slot_nat e \<equiv> unat (slot_get (id_slot e))"

lemma slot_nat_eq [simp]: "slot_nat e = slot_nat e' \<longleftrightarrow> id_slot e = id_slot e'"
  by (simp add: slot_index_eq_iff)

lemma cover_slot [simp]: "try_cover d (slot_nat e) xs = Some (cover d (slot_nat e) xs)"
  by (rule try_cover_eq [OF unat_u32_less])

lemma get_cover [simp]: "vec_get (cover d i xs) i = Some (dense d xs i)"
proof -
  have "vec_get (cover d i xs) i = Some (dense d (cover d i xs) i)"
    unfolding vec_get_def dense_def by simp
  then show ?thesis by (simp only: dense_cover)
qed

lemma case_get_dense: "(case vec_get xs i of None \<Rightarrow> d | Some x \<Rightarrow> x) = dense d xs i"
  by (simp add: vec_get_def dense_def)

lemma location_dense: "location t e = dense None (loc_by_slot t) (slot_nat e)"
  by (simp add: location_def vec_get_def dense_def)

lemma contents_dense: "contents t e = dense [] (inv_by_slot t) (slot_nat e)"
  by (simp add: contents_def case_get_dense)

lemma keywords_dense: "naming_keywords t e = dense [] (nam_by_slot t) (slot_nat e)"
  by (simp add: naming_keywords_def case_get_dense)

lemmas table_reads = location_dense contents_dense keywords_dense

lemma dense_clear: "i < length xs \<Longrightarrow> dense d (xs[i := d]) = (dense d xs)(i := d)"
  by (rule dense_update)

lemma dense_beyond: "\<not> i < length xs \<Longrightarrow> (dense d xs)(i := d) = dense d xs"
  by (auto simp: dense_def)


lemma location_place_eq:
  "location_place t e p = Some
     \<lparr>loc_by_slot = (cover None (slot_nat e) (loc_by_slot t))[slot_nat e := Some p],
      loc_occupants = push_occupant
        (case location t e of
           Some q \<Rightarrow> remove_occupant (loc_occupants t) q (id_slot e)
         | None \<Rightarrow> loc_occupants t) p e\<rparr>"
  by (simp add: location_place_def location_dense Let_def split: option.splits)

lemma location_place_read:
  "location_place t e p = Some t' \<Longrightarrow>
     location t' e' = (if id_slot e' = id_slot e then Some p else location t e')"
  by (auto simp: location_place_eq location_dense)

lemma location_remove_read:
  "location (location_remove t e) e' = (if id_slot e' = id_slot e then None else location t e')"
  by (auto simp: location_remove_def location_dense vec_get_def dense_def split: option.splits)

lemma inventory_insert_eq:
  "inventory_insert t c i = Some (Inventory
     (if \<exists>held \<in> set (contents t c). id_slot held = id_slot i then cover [] (slot_nat c) (inv_by_slot t)
      else (cover [] (slot_nat c) (inv_by_slot t))[slot_nat c := contents t c @ [i]]))"
  by (simp add: inventory_insert_def contents_dense list_ex_iff)

lemma inventory_insert_read:
  "inventory_insert t c i = Some t' \<Longrightarrow>
     contents t' e =
       (if id_slot e = id_slot c \<and> (\<forall>held \<in> set (contents t c). id_slot held \<noteq> id_slot i)
        then contents t c @ [i] else contents t e)"
  by (auto simp: inventory_insert_eq contents_dense)

lemma inventory_remove_read:
  "contents (inventory_remove t c i) e =
     (if id_slot e = id_slot c then filter (\<lambda>held. id_slot held \<noteq> id_slot i) (contents t c)
      else contents t e)"
  by (auto simp: inventory_remove_def contents_dense vec_get_def dense_def)

lemma inventory_clear_read:
  "contents (inventory_clear t c) e = (if id_slot e = id_slot c then [] else contents t e)"
  by (auto simp: inventory_clear_def contents_dense vec_get_def dense_def)

lemma naming_set_read:
  "naming_keywords (naming_set t e ks) e' = (if id_slot e' = id_slot e then ks else naming_keywords t e')"
  by (auto simp: naming_set_def keywords_dense)

lemma naming_clear_read:
  "naming_keywords (naming_clear t e) e' = (if id_slot e' = id_slot e then [] else naming_keywords t e')"
  by (auto simp: naming_clear_def keywords_dense dense_def)

lemmas table_writes = location_place_read location_remove_read inventory_insert_read
  inventory_remove_read inventory_clear_read naming_set_read naming_clear_read

section \<open>The three tables satisfy the interface\<close>

text \<open>
  A location is written by \<open>place\<close> with a place; writing \<open>None\<close> is \<open>remove\<close>, so only
  \<open>Some\<close> values are well formed for the register interface.
\<close>

definition location_store :: "location_of \<Rightarrow> entity_id \<Rightarrow> place_id option \<Rightarrow> location_of option" where
  "location_store t e v =
     (case v of Some p \<Rightarrow> location_place t e p | None \<Rightarrow> Some (location_remove t e))"

lemma read_by_slot:
  assumes "id_slot e = id_slot e'"
  shows "location t e = location t e'" and "contents i e = contents i e'"
    and "naming_keywords n e = naming_keywords n e'"
  using assms by (simp_all add: table_reads)

lemma location_store_total: "location_store t e v \<noteq> None"
  by (cases v) (simp_all add: location_store_def location_place_eq)

lemma location_store_read:
  "location_store t e v = Some t' \<Longrightarrow> location t' e' = (if id_slot e' = id_slot e then v else location t e')"
  by (cases v) (auto simp: location_store_def table_writes)

interpretation loc: slot_register location location_remove None location_store "\<lambda>_. True"
proof unfold_locales
  fix t :: location_of and e e' :: entity_id
  show "location t e = location t e'" if "id_slot e = id_slot e'" using that by (rule read_by_slot)
qed (simp_all add: location_remove_read location_store_total location_store_read)

interpretation inv: side_table contents inventory_clear "[]"
proof unfold_locales
  fix t :: inventory and e e' :: entity_id
  show "contents t e = contents t e'" if "id_slot e = id_slot e'" using that by (rule read_by_slot)
qed (simp add: inventory_clear_read)

interpretation nam: slot_register naming_keywords naming_clear "[]"
    "\<lambda>t e ks. Some (naming_set t e ks)" "\<lambda>_. True"
proof unfold_locales
  fix t :: naming and e e' :: entity_id
  show "naming_keywords t e = naming_keywords t e'" if "id_slot e = id_slot e'"
    using that by (rule read_by_slot)
qed (auto simp: naming_clear_read naming_set_read)

section \<open>The reverse index\<close>

text \<open>
  The two halves of the location table agree: no list is empty, a slot occurs at most once
  in a list, the occupants of a place are located there, and a slot located at a place has an
  occupant there.
\<close>

definition location_ok :: "location_of \<Rightarrow> bool" where
  "location_ok t \<longleftrightarrow>
     (\<forall>p. loc_occupants t p \<noteq> Some []) \<and>
     (\<forall>p. distinct (map id_slot (occupants t p))) \<and>
     (\<forall>p. \<forall>e \<in> set (occupants t p). location t e = Some p) \<and>
     (\<forall>p e. location t e = Some p \<longrightarrow> (\<exists>o' \<in> set (occupants t p). id_slot o' = id_slot e))"

lemma occupants_remove_occupant:
  "occupants \<lparr>loc_by_slot = tab, loc_occupants = remove_occupant occ p s\<rparr> q =
     (let l = occupants \<lparr>loc_by_slot = tab, loc_occupants = occ\<rparr> q
      in if q = p then filter (\<lambda>e. id_slot e \<noteq> s) l else l)"
  by (auto simp: occupants_def remove_occupant_def Let_def split: option.splits)

lemma occupants_push_occupant:
  "occupants \<lparr>loc_by_slot = tab, loc_occupants = push_occupant occ p e\<rparr> q =
     (let l = occupants \<lparr>loc_by_slot = tab, loc_occupants = occ\<rparr> q
      in if q = p then l @ [e] else l)"
  by (auto simp: occupants_def push_occupant_def)

lemma occupants_tab:
  "occupants \<lparr>loc_by_slot = tab, loc_occupants = loc_occupants t\<rparr> = occupants t"
  by (rule ext) (simp add: occupants_def)

lemma location_ok_new: "location_ok location_new"
  by (simp add: location_ok_def location_new_def occupants_def location_dense)

text \<open>In a consistent table, occupants after an operation are a filter of those before.\<close>

lemma filter_other_place:
  assumes "location_ok t" and "location t e \<noteq> Some p"
  shows "filter (\<lambda>o'. id_slot o' \<noteq> id_slot e) (occupants t p) = occupants t p"
proof (rule filter_True, rule ballI)
  fix x assume "x \<in> set (occupants t p)"
  with assms(1) have "location t x = Some p" by (auto simp: location_ok_def)
  with assms(2) show "id_slot x \<noteq> id_slot e" using read_by_slot(1) by metis
qed

lemma occupants_location_remove:
  assumes "location_ok t"
  shows "occupants (location_remove t e) p = filter (\<lambda>o'. id_slot o' \<noteq> id_slot e) (occupants t p)"
proof (cases "location t e")
  case None
  then have "location_remove t e = t"
    by (auto simp: location_remove_def location_dense dense_def vec_get_def split: if_splits)
  with None filter_other_place [OF assms, of e p] show ?thesis by simp
next
  case (Some q)
  then have "location_remove t e =
      \<lparr>loc_by_slot = (loc_by_slot t)[slot_nat e := None],
       loc_occupants = remove_occupant (loc_occupants t) q (id_slot e)\<rparr>"
    by (auto simp: location_remove_def location_dense dense_def vec_get_def split: if_splits)
  with Some filter_other_place [OF assms, of e p] show ?thesis
    by (auto simp: occupants_remove_occupant occupants_tab Let_def)
qed

lemma occupants_location_place:
  assumes ok: "location_ok t" and pl: "location_place t e p = Some t'"
  shows "occupants t' q =
    filter (\<lambda>o'. id_slot o' \<noteq> id_slot e) (occupants t q) @ (if q = p then [e] else [])"
proof (cases "location t e")
  case None
  with pl filter_other_place [OF ok, of e q] show ?thesis
    by (auto simp: location_place_eq occupants_push_occupant occupants_tab Let_def)
next
  case (Some r)
  with pl filter_other_place [OF ok, of e q] show ?thesis
    by (auto simp: location_place_eq occupants_push_occupant occupants_remove_occupant
        occupants_tab Let_def)
qed

lemma location_okD:
  assumes "location_ok t"
  shows "loc_occupants t p \<noteq> Some []"
    and "distinct (map id_slot (occupants t p))"
    and "e \<in> set (occupants t p) \<Longrightarrow> location t e = Some p"
    and "location t e = Some p \<Longrightarrow> \<exists>o' \<in> set (occupants t p). id_slot o' = id_slot e"
  using assms unfolding location_ok_def by blast+

lemma remove_occupant_pruned:
  "\<forall>p. occ p \<noteq> Some [] \<Longrightarrow> remove_occupant occ p s q \<noteq> Some []"
  by (auto simp: remove_occupant_def Let_def split: option.splits)

lemma location_ok_remove:
  assumes ok: "location_ok t"
  shows "location_ok (location_remove t e)"
  unfolding location_ok_def
proof (intro conjI allI ballI impI)
  fix p
  show "loc_occupants (location_remove t e) p \<noteq> Some []"
    using location_okD(1) [OF ok] remove_occupant_pruned
    by (auto simp: location_remove_def split: option.splits)
  show "distinct (map id_slot (occupants (location_remove t e) p))"
    using location_okD(2) [OF ok, of p]
    by (simp add: occupants_location_remove [OF ok] distinct_map_filter)
  show "location (location_remove t e) o' = Some p"
    if "o' \<in> set (occupants (location_remove t e) p)" for o'
    using that location_okD(3) [OF ok, of o' p]
    by (auto simp: occupants_location_remove [OF ok] location_remove_read)
  show "\<exists>o'' \<in> set (occupants (location_remove t e) p). id_slot o'' = id_slot o'"
    if "location (location_remove t e) o' = Some p" for o'
    using that location_okD(4) [OF ok, of o' p]
    by (auto simp: occupants_location_remove [OF ok] location_remove_read split: if_splits)
qed

lemma location_ok_place:
  assumes ok: "location_ok t" and pl: "location_place t e p = Some t'"
  shows "location_ok t'"
  unfolding location_ok_def
proof (intro conjI allI ballI impI)
  note occ = occupants_location_place [OF assms] and loc = location_place_read [OF pl]
  fix q
  have "\<forall>p. remove_occupant (loc_occupants t) r s p \<noteq> Some []" for r s
    using location_okD(1) [OF ok] remove_occupant_pruned by blast
  then show "loc_occupants t' q \<noteq> Some []"
    using pl location_okD(1) [OF ok, of q]
    by (auto simp: location_place_eq push_occupant_def split: option.splits if_splits)
  show "distinct (map id_slot (occupants t' q))"
    using location_okD(2) [OF ok, of q] by (auto simp: occ distinct_map_filter)
  show "location t' o' = Some q" if "o' \<in> set (occupants t' q)" for o'
    using that location_okD(3) [OF ok, of o' q] by (auto simp: occ loc split: if_splits)
  show "\<exists>o'' \<in> set (occupants t' q). id_slot o'' = id_slot o'" if "location t' o' = Some q" for o'
    using that location_okD(4) [OF ok, of o' q] by (auto simp: occ loc split: if_splits)
qed

text \<open>Two places never share an occupant, and a place never lists a slot twice.\<close>

lemma occupants_exclusive:
  "location_ok t \<Longrightarrow> e \<in> set (occupants t p) \<Longrightarrow> e' \<in> set (occupants t q) \<Longrightarrow>
     id_slot e = id_slot e' \<Longrightarrow> p = q \<and> e = e'"
  using location_okD(3) [of t] location_okD(2) [of t p] read_by_slot(1) [of e e' t]
  by (metis distinct_map inj_onD option.inject)

end
