(* ===== verification/World.thy ===== *)
theory World
  imports Arena Side_Tables
begin

text \<open>
  The per-tenant world aggregate (crates/mud-core/src/world.rs) and the write model it
  applies (write_model.rs). A semantic operation first asks the arena whether the handle is
  live and only then touches a side table. Operations that can reach an \<open>unreachable!\<close> of
  the arena or of a table have an option result, \<open>None\<close> being the panic; \<open>world_inv\<close> shows
  that it is never taken.
\<close>

section \<open>The write model\<close>

datatype effect =
    Create
  | Teardown entity_id
  | MoveTo entity_id place_id
  | ClearLocation entity_id
  | InventoryAdd entity_id entity_id
  | InventoryRemove entity_id entity_id

datatype precondition =
    LocatedIn entity_id place_id
  | Contains entity_id entity_id

record mutation_command =
  cmd_precondition :: "precondition option"
  cmd_effect :: effect

definition command_new :: "effect \<Rightarrow> mutation_command" where
  "command_new eff = \<lparr>cmd_precondition = None, cmd_effect = eff\<rparr>"

definition with_precondition :: "mutation_command \<Rightarrow> precondition \<Rightarrow> mutation_command" where
  "with_precondition c p = c\<lparr>cmd_precondition := Some p\<rparr>"

datatype tick_event =
    Created entity_id
  | PreconditionFailed precondition effect
  | Rejected effect arena_error

section \<open>The aggregate\<close>

record world =
  w_arena :: entity_arena
  w_locations :: location_of
  w_inventory :: inventory
  w_naming :: naming

definition world_new :: "tenant_tag \<Rightarrow> world" where
  "world_new t = \<lparr>w_arena = arena_new t, w_locations = location_new,
     w_inventory = inventory_new, w_naming = naming_new\<rparr>"

definition world_tenant :: "world \<Rightarrow> tenant_tag" where
  "world_tenant w = tenant (w_arena w)"

definition create :: "world \<Rightarrow> (world \<times> (arena_error + entity_id)) option" where
  "create w = map_option (\<lambda>(a, r). (w\<lparr>w_arena := a\<rparr>, r)) (alloc (w_arena w))"

definition teardown :: "world \<Rightarrow> entity_id \<Rightarrow> world \<times> (arena_error + unit)" where
  "teardown w e =
     (case free (w_arena w) e of
        (a, Inl err) \<Rightarrow> (w\<lparr>w_arena := a\<rparr>, Inl err)
      | (a, Inr _) \<Rightarrow>
          (w\<lparr>w_arena := a,
             w_locations := location_remove (w_locations w) e,
             w_inventory := inventory_clear (w_inventory w) e,
             w_naming := naming_clear (w_naming w) e\<rparr>, Inr ()))"

definition move_to :: "world \<Rightarrow> entity_id \<Rightarrow> place_id \<Rightarrow> (world \<times> (arena_error + unit)) option" where
  "move_to w e p =
     (case resolve (w_arena w) e of
        Inl err \<Rightarrow> Some (w, Inl err)
      | Inr _ \<Rightarrow>
          map_option (\<lambda>t. (w\<lparr>w_locations := t\<rparr>, Inr ())) (location_place (w_locations w) e p))"

definition clear_location :: "world \<Rightarrow> entity_id \<Rightarrow> world \<times> (arena_error + unit)" where
  "clear_location w e =
     (case resolve (w_arena w) e of
        Inl err \<Rightarrow> (w, Inl err)
      | Inr _ \<Rightarrow> (w\<lparr>w_locations := location_remove (w_locations w) e\<rparr>, Inr ()))"

definition name_entity :: "world \<Rightarrow> entity_id \<Rightarrow> keyword list \<Rightarrow> world \<times> (arena_error + unit)" where
  "name_entity w e ks =
     (case resolve (w_arena w) e of
        Inl err \<Rightarrow> (w, Inl err)
      | Inr _ \<Rightarrow> (w\<lparr>w_naming := naming_set (w_naming w) e ks\<rparr>, Inr ()))"

definition inventory_add ::
  "world \<Rightarrow> entity_id \<Rightarrow> entity_id \<Rightarrow> (world \<times> (arena_error + unit)) option" where
  "inventory_add w c i =
     (case resolve (w_arena w) c of
        Inl err \<Rightarrow> Some (w, Inl err)
      | Inr _ \<Rightarrow>
          (case resolve (w_arena w) i of
             Inl err \<Rightarrow> Some (w, Inl err)
           | Inr _ \<Rightarrow>
               map_option (\<lambda>t. (w\<lparr>w_inventory := t\<rparr>, Inr ()))
                 (inventory_insert (w_inventory w) c i)))"

definition inventory_take :: "world \<Rightarrow> entity_id \<Rightarrow> entity_id \<Rightarrow> world \<times> (arena_error + unit)" where
  "inventory_take w c i =
     (case resolve (w_arena w) c of
        Inl err \<Rightarrow> (w, Inl err)
      | Inr _ \<Rightarrow> (w\<lparr>w_inventory := inventory_remove (w_inventory w) c i\<rparr>, Inr ()))"

text \<open>\<open>result.err().map(|error| TickEvent::Rejected ...)\<close>.\<close>

fun rejection :: "effect \<Rightarrow> world \<times> (arena_error + unit) \<Rightarrow> world \<times> tick_event option" where
  "rejection eff (w, Inl err) = (w, Some (Rejected eff err))"
| "rejection eff (w, Inr _) = (w, None)"

fun apply_effect :: "world \<Rightarrow> effect \<Rightarrow> (world \<times> tick_event option) option" where
  "apply_effect w Create =
     map_option (\<lambda>(w', r). (w', Some (case r of Inr e \<Rightarrow> Created e | Inl err \<Rightarrow> Rejected Create err)))
       (create w)"
| "apply_effect w (Teardown e) = Some (rejection (Teardown e) (teardown w e))"
| "apply_effect w (MoveTo e p) = map_option (rejection (MoveTo e p)) (move_to w e p)"
| "apply_effect w (ClearLocation e) = Some (rejection (ClearLocation e) (clear_location w e))"
| "apply_effect w (InventoryAdd c i) =
     map_option (rejection (InventoryAdd c i)) (inventory_add w c i)"
| "apply_effect w (InventoryRemove c i) =
     Some (rejection (InventoryRemove c i) (inventory_take w c i))"

section \<open>Reads\<close>

definition is_located_in :: "world \<Rightarrow> entity_id \<Rightarrow> place_id \<Rightarrow> bool" where
  "is_located_in w e p \<longleftrightarrow> is_ok (resolve (w_arena w) e) \<and> location (w_locations w) e = Some p"

definition holds_item :: "world \<Rightarrow> entity_id \<Rightarrow> entity_id \<Rightarrow> bool" where
  "holds_item w c i \<longleftrightarrow>
     is_ok (resolve (w_arena w) c) \<and> list_ex (\<lambda>held. held = i) (contents (w_inventory w) c)"

fun satisfies :: "world \<Rightarrow> precondition \<Rightarrow> bool" where
  "satisfies w (LocatedIn e p) = is_located_in w e p"
| "satisfies w (Contains c i) = holds_item w c i"

definition location_of :: "world \<Rightarrow> entity_id \<Rightarrow> place_id option" where
  "location_of w e = (if \<not> is_ok (resolve (w_arena w) e) then None else location (w_locations w) e)"

definition occupants_of :: "world \<Rightarrow> place_id \<Rightarrow> entity_id list" where
  "occupants_of w p = occupants (w_locations w) p"

definition inventory_of :: "world \<Rightarrow> entity_id \<Rightarrow> entity_id list" where
  "inventory_of w c =
     (case resolve (w_arena w) c of Inl _ \<Rightarrow> [] | Inr _ \<Rightarrow> contents (w_inventory w) c)"

definition keywords_of :: "world \<Rightarrow> entity_id \<Rightarrow> keyword list" where
  "keywords_of w e =
     (if \<not> is_ok (resolve (w_arena w) e) then [] else naming_keywords (w_naming w) e)"

section \<open>Invariant\<close>

abbreviation live :: "world \<Rightarrow> entity_id \<Rightarrow> bool" where
  "live w e \<equiv> alive (w_arena w) e"

text \<open>
  The arena and the location table are consistent, the located entities are live, the items
  of a container have distinct slots, and a slot with no live handle is blank in every table.
\<close>

definition slot_live :: "entity_arena \<Rightarrow> slot_index \<Rightarrow> bool" where
  "slot_live a s \<longleftrightarrow> (case slot_at a s of Some (Live g) \<Rightarrow> True | _ \<Rightarrow> False)"

definition world_inv :: "world \<Rightarrow> bool" where
  "world_inv w \<longleftrightarrow>
     arena_ok (w_arena w) \<and> location_ok (w_locations w) \<and>
     (\<forall>p. \<forall>e \<in> set (occupants_of w p). live w e) \<and>
     (\<forall>c. distinct (map id_slot (contents (w_inventory w) c))) \<and>
     (\<forall>e. \<not> slot_live (w_arena w) (id_slot e) \<longrightarrow>
        location (w_locations w) e = None \<and> contents (w_inventory w) e = [] \<and>
        naming_keywords (w_naming w) e = [])"

lemma world_invD:
  assumes "world_inv w"
  shows "arena_ok (w_arena w)" "location_ok (w_locations w)"
    and "e \<in> set (occupants_of w p) \<Longrightarrow> live w e"
    and "distinct (map id_slot (contents (w_inventory w) c))"
    and "\<not> slot_live (w_arena w) (id_slot e) \<Longrightarrow> location (w_locations w) e = None"
    and "\<not> slot_live (w_arena w) (id_slot e) \<Longrightarrow> contents (w_inventory w) e = []"
    and "\<not> slot_live (w_arena w) (id_slot e) \<Longrightarrow> naming_keywords (w_naming w) e = []"
  using assms unfolding world_inv_def by blast+

lemma alive_slot_live: "alive a e \<Longrightarrow> slot_live a (id_slot e)"
  by (simp add: alive_def slot_live_def)

lemma alive_unique: "alive a e \<Longrightarrow> alive a e' \<Longrightarrow> id_slot e = id_slot e' \<longleftrightarrow> e = e'"
  by (auto simp: alive_def entity_id_eq_iff)

lemma world_inv_new: "tag_ok t \<Longrightarrow> world_inv (world_new t)"
  using location_ok_new
  by (simp add: world_inv_def world_new_def arena_ok_new occupants_of_def
      occupants_def location_new_def location_dense inventory_new_def contents_dense
      naming_new_def keywords_dense)

section \<open>Every operation preserves the invariant\<close>

lemma slot_live_alloc:
  assumes "arena_ok a" and "alloc a = Some (a', Inr e)"
  shows "slot_live a' s \<longleftrightarrow> s = id_slot e \<or> slot_live a s"
  using alloc_ok_slots(2) [OF assms, of s] by (simp add: slot_live_def)

lemma alloc_not_slot_live:
  assumes "arena_ok a" and "alloc a = Some (a', Inr e)"
  shows "\<not> slot_live a (id_slot e)"
  using alloc_ok_slots(3) [OF assms] by (auto simp: slot_live_def)

lemma slot_live_free:
  assumes "alive a e"
  shows "slot_live (fst (free a e)) s \<longleftrightarrow> s \<noteq> id_slot e \<and> slot_live a s"
  using free_slots [OF assms, of s] by (auto simp: slot_live_def split: option.splits)

lemma create_cases:
  assumes inv: "world_inv w"
  obtains
    (full) "create w = Some (w, Inl Exhausted)"
  | (fresh) a e where "alloc (w_arena w) = Some (a, Inr e)" "create w = Some (w\<lparr>w_arena := a\<rparr>, Inr e)"
proof -
  note ok = world_invD(1) [OF inv]
  from alloc_no_panic [OF ok] obtain a r where al: "alloc (w_arena w) = Some (a, r)" by auto
  show thesis
  proof (cases r)
    case (Inl err)
    with al alloc_error [OF ok, of a err] show thesis by (intro full) (simp add: create_def)
  next
    case (Inr e)
    with al show thesis by (intro fresh [of a e]) (simp_all add: create_def)
  qed
qed

lemma world_inv_create:
  assumes inv: "world_inv w" and cr: "create w = Some (w', r)"
  shows "world_inv w'"
  using inv
proof (cases rule: create_cases)
  case full
  with inv cr show ?thesis by simp
next
  case (fresh a e)
  note ok = world_invD(1) [OF inv]
  have w': "w' = w\<lparr>w_arena := a\<rparr>" using fresh cr by simp
  show ?thesis
    using world_invD [OF inv] arena_ok_alloc [OF ok fresh(1)] alloc_alive(1) [OF ok fresh(1)]
      slot_live_alloc [OF ok fresh(1)]
    by (simp add: world_inv_def w' occupants_of_def)
qed

lemma teardown_alive:
  "live w e \<Longrightarrow> teardown w e =
     (w\<lparr>w_arena := fst (free (w_arena w) e),
        w_locations := location_remove (w_locations w) e,
        w_inventory := inventory_clear (w_inventory w) e,
        w_naming := naming_clear (w_naming w) e\<rparr>, Inr ())"
  by (simp add: teardown_def free_alive split: option.splits)

lemma not_alive_error:
  assumes "\<not> live w e"
  obtains err where "resolve (w_arena w) e = Inl err" "free (w_arena w) e = (w_arena w, Inl err)"
  using resolve_not_alive [OF assms] free_not_alive [OF assms] by metis

lemma teardown_not_alive: "\<not> live w e \<Longrightarrow> \<exists>err. teardown w e = (w, Inl err)"
  by (erule not_alive_error) (simp add: teardown_def)

lemma world_inv_teardown:
  assumes inv: "world_inv w"
  shows "world_inv (fst (teardown w e))"
proof (cases "live w e")
  case False
  with inv teardown_not_alive show ?thesis by fastforce
next
  case True
  note ok = world_invD(1) [OF inv] and lok = world_invD(2) [OF inv]
  have occ: "live w o' \<and> o' \<noteq> e"
    if "o' \<in> set (occupants (location_remove (w_locations w) e) p)" for o' p
    using that world_invD(3) [OF inv, of o' p]
    by (auto simp: occupants_location_remove [OF lok] occupants_of_def)
  show ?thesis
    using world_invD [OF inv] True occ
    by (simp add: teardown_alive world_inv_def arena_ok_free location_ok_remove occupants_of_def
        alive_free [OF ok] slot_live_free location_remove_read inventory_clear_read
        naming_clear_read)
qed

lemma resolve_alive: "alive a e \<Longrightarrow> resolve a e = Inr (id_slot e)"
  by (simp add: resolve_ok)

lemma move_to_alive:
  "live w e \<Longrightarrow> location_place (w_locations w) e p = Some t \<Longrightarrow>
     move_to w e p = Some (w\<lparr>w_locations := t\<rparr>, Inr ())"
  by (simp add: move_to_def resolve_alive)

lemma world_inv_move_to:
  assumes inv: "world_inv w" and mv: "move_to w e p = Some (w', r)"
  shows "world_inv w'"
proof (cases "live w e")
  case False
  with inv mv show ?thesis by (auto simp: move_to_def elim: not_alive_error)
next
  case True
  note lok = world_invD(2) [OF inv]
  obtain t where t: "location_place (w_locations w) e p = Some t"
    by (simp add: location_place_eq)
  with True mv have w': "w' = w\<lparr>w_locations := t\<rparr>" by (simp add: move_to_alive)
  have occ: "live w o'" if "o' \<in> set (occupants t q)" for o' q
    using that True world_invD(3) [OF inv, of o' q]
    by (auto simp: occupants_location_place [OF lok t] occupants_of_def split: if_splits)
  show ?thesis
    using world_invD [OF inv] occ location_ok_place [OF lok t] alive_slot_live [OF True]
    by (auto simp add: world_inv_def w' occupants_of_def location_place_read [OF t])
qed

lemma world_inv_clear_location:
  assumes inv: "world_inv w"
  shows "world_inv (fst (clear_location w e))"
proof (cases "live w e")
  case False
  with inv show ?thesis by (auto simp: clear_location_def elim: not_alive_error)
next
  case True
  note lok = world_invD(2) [OF inv]
  have occ: "live w o'" if "o' \<in> set (occupants (location_remove (w_locations w) e) p)" for o' p
    using that world_invD(3) [OF inv, of o' p]
    by (auto simp: occupants_location_remove [OF lok] occupants_of_def)
  show ?thesis
    using world_invD [OF inv] occ location_ok_remove [OF lok]
    by (simp add: world_inv_def clear_location_def resolve_alive [OF True] occupants_of_def
        location_remove_read)
qed

lemma world_inv_name_entity:
  assumes inv: "world_inv w"
  shows "world_inv (fst (name_entity w e ks))"
proof (cases "live w e")
  case False
  with inv show ?thesis by (auto simp: name_entity_def elim: not_alive_error)
next
  case True
  then show ?thesis
    using world_invD [OF inv] alive_slot_live [OF True]
    by (auto simp: world_inv_def name_entity_def resolve_alive occupants_of_def naming_set_read)
qed

lemma inventory_add_alive:
  "live w c \<Longrightarrow> live w i \<Longrightarrow> inventory_insert (w_inventory w) c i = Some t \<Longrightarrow>
     inventory_add w c i = Some (w\<lparr>w_inventory := t\<rparr>, Inr ())"
  by (simp add: inventory_add_def resolve_alive)

lemma inventory_add_dead:
  "\<not> (live w c \<and> live w i) \<Longrightarrow> \<exists>err. inventory_add w c i = Some (w, Inl err)"
  by (cases "live w c")
    (auto simp: inventory_add_def resolve_alive elim: not_alive_error split: sum.splits)

lemma world_inv_inventory_add:
  assumes inv: "world_inv w" and add: "inventory_add w c i = Some (w', r)"
  shows "world_inv w'"
proof (cases "live w c \<and> live w i")
  case False
  with inv add inventory_add_dead [OF False] show ?thesis by auto
next
  case True
  obtain t where t: "inventory_insert (w_inventory w) c i = Some t"
    by (simp add: inventory_insert_eq)
  with True add have w': "w' = w\<lparr>w_inventory := t\<rparr>" by (simp add: inventory_add_alive)
  have "distinct (map id_slot (contents t e))" for e
    using world_invD(4) [OF inv, of e] world_invD(4) [OF inv, of c]
    by (auto simp: inventory_insert_read [OF t])
  moreover have "contents t e = []" if "\<not> slot_live (w_arena w) (id_slot e)" for e
    using that True world_invD(6) [OF inv, of e] alive_slot_live [of "w_arena w" c]
    by (auto simp: inventory_insert_read [OF t])
  ultimately show ?thesis
    using world_invD [OF inv] by (simp add: world_inv_def w' occupants_of_def)
qed

lemma world_inv_inventory_take:
  assumes inv: "world_inv w"
  shows "world_inv (fst (inventory_take w c i))"
proof (cases "live w c")
  case False
  with inv show ?thesis by (auto simp: inventory_take_def elim: not_alive_error)
next
  case True
  have "distinct (map id_slot (contents (inventory_remove (w_inventory w) c i) e))" for e
    using world_invD(4) [OF inv, of e] world_invD(4) [OF inv, of c]
    by (simp add: inventory_remove_read distinct_map_filter)
  moreover have "contents (inventory_remove (w_inventory w) c i) e = []"
    if "contents (w_inventory w) e = []" for e
    using that read_by_slot(2) [of e c "w_inventory w"] by (auto simp: inventory_remove_read)
  ultimately show ?thesis
    using world_invD [OF inv] True
    by (simp add: world_inv_def inventory_take_def resolve_alive occupants_of_def)
qed

text \<open>No effect panics, and every effect keeps the invariant.\<close>

lemma fst_rejection [simp]: "fst (rejection eff r) = fst r"
  by (cases "(eff, r)" rule: rejection.cases) auto

lemma apply_effect_ok:
  assumes inv: "world_inv w"
  shows "\<exists>w' ev. apply_effect w eff = Some (w', ev) \<and> world_inv w'"
proof -
  have split: "\<exists>w' ev. Some (rejection eff r) = Some (w', ev) \<and> world_inv w'"
    if "world_inv (fst r)" for r
    using that by (cases "rejection eff r") (metis fst_conv fst_rejection)
  show ?thesis
  proof (cases eff)
    case Create
    from inv show ?thesis
    proof (cases rule: create_cases)
      case full
      with inv show ?thesis by (simp add: Create)
    next
      case (fresh a e)
      with inv world_inv_create [OF inv fresh(2)] show ?thesis by (simp add: Create)
    qed
  next
    case (Teardown e)
    then show ?thesis using split [OF world_inv_teardown [OF inv]] by simp
  next
    case (ClearLocation e)
    then show ?thesis using split [OF world_inv_clear_location [OF inv]] by simp
  next
    case (InventoryRemove c i)
    then show ?thesis using split [OF world_inv_inventory_take [OF inv]] by simp
  next
    case (MoveTo e p)
    obtain w' r where mv: "move_to w e p = Some (w', r)"
      by (cases "resolve (w_arena w) e") (auto simp: move_to_def location_place_eq)
    then show ?thesis using split [of "(w', r)"] world_inv_move_to [OF inv mv]
      by (simp add: MoveTo)
  next
    case (InventoryAdd c i)
    obtain w' r where add: "inventory_add w c i = Some (w', r)"
      by (cases "resolve (w_arena w) c"; cases "resolve (w_arena w) i")
        (auto simp: inventory_add_def inventory_insert_eq)
    then show ?thesis using split [of "(w', r)"] world_inv_inventory_add [OF inv add]
      by (simp add: InventoryAdd)
  qed
qed

section \<open>What a handle sees\<close>

lemma inventory_of_live: "inventory_of w c = (if live w c then contents (w_inventory w) c else [])"
  by (cases "live w c") (auto simp: inventory_of_def resolve_alive elim: not_alive_error)

lemma world_views:
  "location_of w e = (if live w e then location (w_locations w) e else None)"
  "inventory_of w e = (if live w e then contents (w_inventory w) e else [])"
  "keywords_of w e = (if live w e then naming_keywords (w_naming w) e else [])"
  "is_located_in w e p \<longleftrightarrow> location_of w e = Some p"
  "holds_item w c i \<longleftrightarrow> i \<in> set (inventory_of w c)"
  by (auto simp: location_of_def inventory_of_live keywords_of_def is_located_in_def
      holds_item_def list_ex_iff)

text \<open>The reverse index and the forward table answer the same question, for live handles.\<close>

lemma occupants_of_iff:
  assumes inv: "world_inv w"
  shows "e \<in> set (occupants_of w p) \<longleftrightarrow> location_of w e = Some p"
proof
  assume "e \<in> set (occupants_of w p)"
  then show "location_of w e = Some p"
    using world_invD(3) [OF inv, of e p] location_okD(3) [OF world_invD(2) [OF inv], of e p]
    by (simp add: world_views occupants_of_def)
next
  assume "location_of w e = Some p"
  then have l: "live w e" and "location (w_locations w) e = Some p"
    by (simp_all add: world_views split: if_splits)
  then obtain o' where o': "o' \<in> set (occupants_of w p)" "id_slot o' = id_slot e"
    using location_okD(4) [OF world_invD(2) [OF inv], of e p] by (auto simp: occupants_of_def)
  with world_invD(3) [OF inv] l show "e \<in> set (occupants_of w p)"
    using alive_unique by metis
qed

lemma occupants_of_distinct: "world_inv w \<Longrightarrow> distinct (occupants_of w p)"
  using location_okD(2) [OF world_invD(2), of w p] by (simp add: occupants_of_def distinct_map)

section \<open>The contract of the aggregate\<close>

text \<open>
  What a world promises, without slots, vectors or free lists: the set of live handles and,
  for each of them, where it is, what it holds and what it is called. \<open>effect_handles\<close> are the
  handles an effect needs live; if one of them is not, the effect is rejected and nothing
  happens.
\<close>

record contract =
  k_live :: "entity_id set"
  k_at :: "entity_id \<Rightarrow> place_id option"
  k_items :: "entity_id \<Rightarrow> entity_id list"
  k_names :: "entity_id \<Rightarrow> keyword list"

definition world_view :: "world \<Rightarrow> contract" where
  "world_view w = \<lparr>k_live = {e. live w e}, k_at = location_of w, k_items = inventory_of w,
     k_names = keywords_of w\<rparr>"

fun effect_handles :: "effect \<Rightarrow> entity_id set" where
  "effect_handles Create = {}"
| "effect_handles (Teardown e) = {e}"
| "effect_handles (MoveTo e p) = {e}"
| "effect_handles (ClearLocation e) = {e}"
| "effect_handles (InventoryAdd c i) = {c, i}"
| "effect_handles (InventoryRemove c i) = {c}"

inductive contract_step :: "contract \<Rightarrow> effect \<Rightarrow> tick_event option \<Rightarrow> contract \<Rightarrow> bool" where
  rejected: "\<not> effect_handles eff \<subseteq> k_live k \<Longrightarrow>
     contract_step k eff (Some (Rejected eff err)) k"
| full: "contract_step k Create (Some (Rejected Create Exhausted)) k"
| created: "id_slot e \<notin> id_slot ` k_live k \<Longrightarrow>
     contract_step k Create (Some (Created e)) (k\<lparr>k_live := insert e (k_live k)\<rparr>)"
| torn_down: "e \<in> k_live k \<Longrightarrow>
     contract_step k (Teardown e) None
       (k\<lparr>k_live := k_live k - {e}, k_at := (k_at k)(e := None),
          k_items := (k_items k)(e := []), k_names := (k_names k)(e := [])\<rparr>)"
| moved: "e \<in> k_live k \<Longrightarrow>
     contract_step k (MoveTo e p) None (k\<lparr>k_at := (k_at k)(e := Some p)\<rparr>)"
| cleared: "e \<in> k_live k \<Longrightarrow>
     contract_step k (ClearLocation e) None (k\<lparr>k_at := (k_at k)(e := None)\<rparr>)"
| added: "c \<in> k_live k \<Longrightarrow> i \<in> k_live k \<Longrightarrow> id_slot i \<notin> id_slot ` set (k_items k c) \<Longrightarrow>
     contract_step k (InventoryAdd c i) None (k\<lparr>k_items := (k_items k)(c := k_items k c @ [i])\<rparr>)"
| kept: "c \<in> k_live k \<Longrightarrow> i \<in> k_live k \<Longrightarrow> id_slot i \<in> id_slot ` set (k_items k c) \<Longrightarrow>
     contract_step k (InventoryAdd c i) None k"
| taken: "c \<in> k_live k \<Longrightarrow>
     contract_step k (InventoryRemove c i) None
       (k\<lparr>k_items := (k_items k)(c := filter (\<lambda>h. id_slot h \<noteq> id_slot i) (k_items k c))\<rparr>)"

inductive_cases created_stepE: "contract_step k Create (Some (Created e)) k'"
inductive_cases move_stepE: "contract_step k (MoveTo e p) ev k'"

text \<open>Rejections: an effect that names a handle that is not live changes nothing.\<close>

lemma apply_effect_dead:
  assumes "\<not> effect_handles eff \<subseteq> {e. live w e}"
  shows "\<exists>err. apply_effect w eff = Some (w, Some (Rejected eff err))"
proof (cases eff)
  case (Teardown e)
  with assms teardown_not_alive [of w e] show ?thesis by auto
next
  case (MoveTo e p)
  with assms have "\<not> live w e" by simp
  then show ?thesis by (rule not_alive_error) (simp add: MoveTo move_to_def)
next
  case (ClearLocation e)
  with assms have "\<not> live w e" by simp
  then show ?thesis by (rule not_alive_error) (simp add: ClearLocation clear_location_def)
next
  case (InventoryAdd c i)
  with assms inventory_add_dead [of w c i] show ?thesis by auto
next
  case (InventoryRemove c i)
  with assms have "\<not> live w c" by simp
  then show ?thesis by (rule not_alive_error) (simp add: InventoryRemove inventory_take_def)
qed (use assms in simp)

lemma view_eqI:
  assumes "\<And>e. live w e \<longleftrightarrow> e \<in> k_live k" and "\<And>e. location_of w e = k_at k e"
    and "\<And>e. inventory_of w e = k_items k e" and "\<And>e. keywords_of w e = k_names k e"
  shows "world_view w = k"
  using assms by (cases k) (auto simp: world_view_def)

lemma world_view_sel [simp]:
  "k_live (world_view w) = {e. live w e}" "k_at (world_view w) = location_of w"
  "k_items (world_view w) = inventory_of w" "k_names (world_view w) = keywords_of w"
  by (simp_all add: world_view_def)

lemma create_view:
  assumes inv: "world_inv w" and al: "alloc (w_arena w) = Some (a, Inr e)"
  shows "world_view (w\<lparr>w_arena := a\<rparr>) = (world_view w)\<lparr>k_live := insert e {e. live w e}\<rparr>"
    and "id_slot e \<notin> id_slot ` {e. live w e}"
proof -
  note ok = world_invD(1) [OF inv]
  have blank: "\<not> slot_live (w_arena w) (id_slot e)" using ok al by (rule alloc_not_slot_live)
  then show "id_slot e \<notin> id_slot ` {e. live w e}" by (auto dest: alive_slot_live)
  show "world_view (w\<lparr>w_arena := a\<rparr>) = (world_view w)\<lparr>k_live := insert e {e. live w e}\<rparr>"
    using alloc_alive(1) [OF ok al] blank
    by (intro view_eqI) (auto simp: world_views world_invD [OF inv])
qed

lemma alive_same_slot:
  "live w e \<Longrightarrow> live w e' \<Longrightarrow> id_slot e' = id_slot e \<longleftrightarrow> e' = e"
  by (metis alive_unique)

lemma teardown_view:
  assumes inv: "world_inv w" and l: "live w e"
  shows "world_view (fst (teardown w e)) =
    (world_view w)\<lparr>k_live := {e. live w e} - {e}, k_at := (location_of w)(e := None),
      k_items := (inventory_of w)(e := []), k_names := (keywords_of w)(e := [])\<rparr>"
  using l alive_same_slot [OF l] alive_free [OF world_invD(1) [OF inv], of e]
  by (intro view_eqI)
    (auto simp: world_views teardown_alive location_remove_read inventory_clear_read naming_clear_read)

lemma location_view:
  assumes l: "live w e"
    and read: "\<And>e'. location t e' = (if id_slot e' = id_slot e then v else location (w_locations w) e')"
  shows "world_view (w\<lparr>w_locations := t\<rparr>) = (world_view w)\<lparr>k_at := (location_of w)(e := v)\<rparr>"
  using l alive_same_slot [OF l] by (intro view_eqI) (auto simp: world_views read)

lemma inventory_view:
  assumes l: "live w c"
    and read: "\<And>e'. contents t e' = (if id_slot e' = id_slot c then v else contents (w_inventory w) e')"
  shows "world_view (w\<lparr>w_inventory := t\<rparr>) = (world_view w)\<lparr>k_items := (inventory_of w)(c := v)\<rparr>"
  using l alive_same_slot [OF l] by (intro view_eqI) (auto simp: world_views read)

lemma inventory_add_view:
  assumes c: "live w c" and i: "live w i"
  obtains t where "inventory_add w c i = Some (w\<lparr>w_inventory := t\<rparr>, Inr ())"
    and "world_view (w\<lparr>w_inventory := t\<rparr>) =
      (if id_slot i \<in> id_slot ` set (inventory_of w c) then world_view w
       else (world_view w)\<lparr>k_items := (inventory_of w)(c := inventory_of w c @ [i])\<rparr>)"
proof -
  obtain t where t: "inventory_insert (w_inventory w) c i = Some t"
    by (simp add: inventory_insert_eq)
  have held: "(\<forall>h \<in> set (contents (w_inventory w) c). id_slot h \<noteq> id_slot i) \<longleftrightarrow>
      id_slot i \<notin> id_slot ` set (inventory_of w c)"
    using c by (auto simp: world_views image_iff)
  have iv: "inventory_of w c = contents (w_inventory w) c" using c by (simp add: world_views)
  show thesis
  proof (rule that [OF inventory_add_alive [OF c i t]])
    show "world_view (w\<lparr>w_inventory := t\<rparr>) =
      (if id_slot i \<in> id_slot ` set (inventory_of w c) then world_view w
       else (world_view w)\<lparr>k_items := (inventory_of w)(c := inventory_of w c @ [i])\<rparr>)"
    proof (cases "id_slot i \<in> id_slot ` set (inventory_of w c)")
      case True
      have "contents t e' = (if id_slot e' = id_slot c then contents (w_inventory w) c
          else contents (w_inventory w) e')" for e'
        using True held read_by_slot(2) [of e' c "w_inventory w"]
        by (auto simp: inventory_insert_read [OF t])
      from inventory_view [OF c this] True show ?thesis
        by (simp add: world_view_def flip: iv)
    next
      case False
      have "contents t e' = (if id_slot e' = id_slot c then contents (w_inventory w) c @ [i]
          else contents (w_inventory w) e')" for e'
        using False held by (auto simp: inventory_insert_read [OF t])
      from inventory_view [OF c this] False show ?thesis by (simp add: iv)
    qed
  qed
qed

text \<open>Refinement: every effect on the concrete world is a step of the contract.\<close>

lemma effect_refines_contract:
  assumes inv: "world_inv w" and ap: "apply_effect w eff = Some (w', ev)"
  shows "contract_step (world_view w) eff ev (world_view w')"
proof (cases "effect_handles eff \<subseteq> {e. live w e}")
  case False
  with apply_effect_dead [OF False] ap show ?thesis
    by (auto intro!: contract_step.rejected)
next
  case True
  show ?thesis
  proof (cases eff)
    case Create
    from inv show ?thesis
    proof (cases rule: create_cases)
      case full
      with Create ap show ?thesis by (auto intro: contract_step.full)
    next
      case (fresh a e)
      with Create ap create_view [OF inv fresh(1)] contract_step.created [of e "world_view w"]
      show ?thesis by auto
    qed
  next
    case (Teardown e)
    with True have l: "live w e" by simp
    with Teardown ap teardown_view [OF inv l] contract_step.torn_down [of e "world_view w"]
    show ?thesis by (simp add: teardown_alive)
  next
    case (MoveTo e p)
    with True have l: "live w e" by simp
    obtain t where t: "location_place (w_locations w) e p = Some t"
      by (simp add: location_place_eq)
    have "world_view (w\<lparr>w_locations := t\<rparr>) = (world_view w)\<lparr>k_at := (location_of w)(e := Some p)\<rparr>"
      using l location_place_read [OF t] by (rule location_view)
    with MoveTo ap move_to_alive [OF l t] contract_step.moved [of e "world_view w" p] l
    show ?thesis by auto
  next
    case (ClearLocation e)
    with True have l: "live w e" by simp
    with ClearLocation ap location_view [OF l location_remove_read]
      contract_step.cleared [of e "world_view w"]
    show ?thesis by (auto simp: clear_location_def resolve_alive)
  next
    case (InventoryAdd c i)
    with True have l: "live w c" "live w i" by simp_all
    from inventory_add_view [OF l] show ?thesis
    proof cases
      case (1 t)
      with InventoryAdd ap l contract_step.added [of c "world_view w" i]
        contract_step.kept [of c "world_view w" i]
      show ?thesis by (auto split: if_splits)
    qed
  next
    case (InventoryRemove c i)
    with True have l: "live w c" by simp
    have "world_view (w\<lparr>w_inventory := inventory_remove (w_inventory w) c i\<rparr>) = (world_view w)
        \<lparr>k_items := (inventory_of w)(c := filter (\<lambda>h. id_slot h \<noteq> id_slot i) (inventory_of w c))\<rparr>"
      using inventory_view [OF l inventory_remove_read] l by (simp add: world_views)
    with InventoryRemove ap l contract_step.taken [of c "world_view w" i]
    show ?thesis by (auto simp: inventory_take_def resolve_alive)
  qed
qed

section \<open>Handles over time\<close>

text \<open>
  The world mints and retires handles through the arena, so it is itself a handle pool, and
  what holds of a run of a pool holds of it.
\<close>

lemma create_arena: "create w = Some (w', r) \<longleftrightarrow>
    (\<exists>a. alloc (w_arena w) = Some (a, r) \<and> w' = w\<lparr>w_arena := a\<rparr>)"
  by (auto simp: create_def)

lemma teardown_arena: "w_arena (fst (teardown w e)) = fst (free (w_arena w) e)"
  by (auto simp: teardown_def split: prod.splits sum.splits)

lemma teardown_is_ok: "is_ok (snd (teardown w e)) \<longleftrightarrow> live w e"
  using teardown_not_alive [of w e] by (cases "live w e") (auto simp: teardown_alive)

interpretation world_pool: handle_pool create teardown live "\<lambda>w. issued (w_arena w)" world_inv
proof unfold_locales
  fix w w' :: world and h h' :: entity_id and r e
  assume inv: "world_inv w"
  note ok = world_invD(1) [OF inv]
  show "create w \<noteq> None" using inv by (rule create_cases) simp_all
  show "world_inv w'" if "create w = Some (w', r)" using inv that by (rule world_inv_create)
  show "w' = w" if "create w = Some (w', Inl e)"
    using inv by (rule create_cases) (use that in simp_all)
  show "live w' h' \<longleftrightarrow> h' = h \<or> live w h'" if "create w = Some (w', Inr h)"
    using that alloc_alive(1) [OF ok] by (auto simp: create_arena)
  show "h \<notin> issued (w_arena w)" if "create w = Some (w', Inr h)"
    using that alloc_issued(2) [OF ok] by (auto simp: create_arena)
  show "issued (w_arena w') = insert h (issued (w_arena w))" if "create w = Some (w', Inr h)"
    using that alloc_issued(1) [OF ok] by (auto simp: create_arena)
  show "world_inv (fst (teardown w h))" using inv by (rule world_inv_teardown)
  show "live (fst (teardown w h)) h' \<longleftrightarrow> live w h' \<and> h' \<noteq> h"
    by (simp add: teardown_arena alive_free [OF ok])
  show "issued (w_arena (fst (teardown w h))) = issued (w_arena w)"
    by (simp add: teardown_arena issued_free [OF ok])
  show "is_ok (snd (teardown w h)) \<longleftrightarrow> live w h" by (rule teardown_is_ok)
  show "h \<in> issued (w_arena w)" if "live w h" using that by (rule alive_issued)
qed

text \<open>Every other effect leaves the arena alone.\<close>

lemma rejection_Some: "rejection eff (w, r) = (w', ev) \<Longrightarrow> w' = w"
  by (cases r) auto

lemma apply_effect_arena:
  assumes "apply_effect w eff = Some (w', ev)" and "\<And>e. eff \<noteq> Teardown e" and "eff \<noteq> Create"
  shows "w_arena w' = w_arena w"
  using assms
  by (cases eff)
    (auto simp: move_to_def clear_location_def inventory_add_def inventory_take_def
      split: sum.splits)

lemma apply_effect_dead_stays:
  assumes inv: "world_inv w" and ap: "apply_effect w eff = Some (w', ev)"
    and dead: "e \<in> issued (w_arena w)" "\<not> live w e"
  shows "e \<in> issued (w_arena w') \<and> \<not> live w' e"
proof (cases "\<exists>h. eff = Teardown h")
  case True
  then obtain h where eff: "eff = Teardown h" by auto
  with ap have "w' = fst (teardown w h)" by (metis apply_effect.simps(2) fst_conv fst_rejection option.inject)
  with dead show ?thesis
    using world_pool.retire_live [OF inv] world_pool.retire_issued [OF inv] by simp
next
  case no_td: False
  show ?thesis
  proof (cases "eff = Create")
    case True
    with ap obtain r where cr: "create w = Some (w', r)" by auto
    show ?thesis
    proof (cases r)
      case (Inl err)
      with cr dead world_pool.mint_fail [OF inv, of w' err] show ?thesis by simp
    next
      case (Inr h)
      with cr dead show ?thesis
        using world_pool.mint_live [OF inv, of w' h e] world_pool.mint_issued [OF inv, of w' h]
          world_pool.mint_fresh [OF inv, of w' h] by auto
    qed
  next
    case False
    with no_td ap apply_effect_arena have "w_arena w' = w_arena w" by blast
    with dead show ?thesis by simp
  qed
qed

lemma apply_effect_tenant:
  assumes inv: "world_inv w" and ap: "apply_effect w eff = Some (w', ev)"
  shows "world_tenant w' = world_tenant w"
proof (cases "\<exists>h. eff = Teardown h")
  case True
  then obtain h where eff: "eff = Teardown h" by auto
  with ap have "w' = fst (teardown w h)" by (metis apply_effect.simps(2) fst_conv fst_rejection option.inject)
  then show ?thesis by (simp add: world_tenant_def teardown_arena)
next
  case no_td: False
  show ?thesis
  proof (cases "eff = Create")
    case True
    with ap show ?thesis
      using alloc_tenant [OF world_invD(1) [OF inv]] by (auto simp: world_tenant_def create_arena)
  next
    case False
    with no_td ap apply_effect_arena show ?thesis unfolding world_tenant_def by metis
  qed
qed

section \<open>Concrete worlds\<close>

text \<open>The handles of tenant 0, and the equations that run a world on concrete effects.\<close>

abbreviation sample_handle :: "u32 \<Rightarrow> u32 \<Rightarrow> entity_id" where
  "sample_handle s g \<equiv> EntityId_new (TenantTag 0) (SlotIndex s) (Generation g)"

lemmas world_eval = world_new_def arena_new_def create_def alloc_def vec_pop_def vec_get_def
  u32_try_from_def SlotIndex_new_def Generation_FIRST_def reuse_def set_slot_def teardown_def
  free_def move_to_def resolve_def ensure_owned_def gen_next_def Generation_MAX_def layout_defs
  gen_ok_iff tag_ok_iff location_new_def inventory_new_def naming_new_def location_place_eq
  alive_def

lemma tag_ok_0: "tag_ok (TenantTag 0)"
  by (simp add: tag_ok_iff)

lemma world_inv_empty: "world_inv (world_new (TenantTag 0))"
  using tag_ok_0 by (rule world_inv_new)

lemma sample_create:
  obtains w where "create (world_new (TenantTag 0)) = Some (w, Inr (sample_handle 0 0))"
    and "world_inv w" and "live w (sample_handle 0 0)"
proof -
  have "\<exists>w. create (world_new (TenantTag 0)) = Some (w, Inr (sample_handle 0 0))"
    by (simp add: world_eval)
  then obtain w where c: "create (world_new (TenantTag 0)) = Some (w, Inr (sample_handle 0 0))" ..
  have "live w (sample_handle 0 0)"
    using world_pool.mint_live [OF world_inv_empty c, of "sample_handle 0 0"] by blast
  with c world_inv_create [OF world_inv_empty c] show thesis by (rule that)
qed

text \<open>A world of two entities, the second one an item of the first.\<close>

abbreviation sample_world :: world where
  "sample_world \<equiv> \<lparr>w_arena = \<lparr>tenant = TenantTag 0,
       slots = [Live (Generation 0), Live (Generation 0)], free_list = []\<rparr>,
     w_locations = location_new, w_inventory = Inventory [[sample_handle 1 0]], w_naming = Naming []\<rparr>"

lemma world_inv_sample: "world_inv sample_world"
proof -
  have at: "vec_get [Live (Generation 0), Live (Generation 0)] n \<noteq> Some (Free g)" for n g
    by (cases n) (auto simp: vec_get_Some)
  have "arena_ok (w_arena sample_world)"
    using at by (simp add: arena_ok_def tag_ok_0 gen_ok_iff)
  moreover have "distinct (map id_slot (contents (Inventory [[sample_handle 1 0]]) c))" for c
    by (simp add: contents_dense dense_def)
  moreover have "contents (Inventory [[sample_handle 1 0]]) e = []"
    if "\<not> slot_live (w_arena sample_world) (id_slot e)" for e
    using that
    by (cases "slot_nat e") (auto simp: contents_dense dense_def slot_live_def vec_get_def)
  ultimately show ?thesis
    by (simp add: world_inv_def location_ok_new occupants_of_def occupants_def
        location_dense location_new_def keywords_dense location_ok_new [unfolded location_new_def])
qed

section \<open>Properties\<close>







text \<open>
  Teardown leaves the handle in the containers that hold it, and \<open>Inventory::insert\<close>
  compares slots only. So when the slot of a torn-down item is reused, adding the new item to
  a container that still lists the old one reports success and adds nothing: the container
  shows the dead handle and not the live one.
\<close>

theorem stale_item_hides_reused_slot:
  assumes inv: "world_inv w" and held: "holds_item w c i" and i: "live w i" and ci: "c \<noteq> i"
    and td: "teardown w i = (w1, Inr ())"
    and cr: "create w1 = Some (w2, Inr j)" and slot: "id_slot j = id_slot i"
  shows "\<exists>w3. inventory_add w2 c j = Some (w3, Inr ()) \<and> inventory_of w3 c = inventory_of w c \<and>
    i \<in> set (inventory_of w3 c) \<and> \<not> live w3 i \<and> live w3 j \<and> \<not> holds_item w3 c j"
proof -
  have c: "live w c" using held by (auto simp: world_views(5) inventory_of_live split: if_splits)
  have w1: "w1 = fst (teardown w i)" using td by simp
  have inv1: "world_inv w1" using world_inv_teardown [OF inv] w1 by simp
  have inv_c: "inventory_of w1 c = inventory_of w c"
    using teardown_view [OF inv i] ci by (simp add: w1 world_view_def)
  have l1: "live w1 c" "\<not> live w1 i"
    using world_pool.retire_live [OF inv, of i] c ci by (auto simp: w1)
  have fresh: "\<not> live w1 j" "j \<notin> issued (w_arena w1)" and l2: "live w2 c" "live w2 j"
    using world_pool.mint_fresh [OF inv1 cr] world_pool.mint_live [OF inv1 cr] l1 alive_issued by auto
  have j: "j \<noteq> i"
    using fresh world_pool.retire_issued [OF inv, of i] alive_issued [OF i] by (auto simp: w1)
  have inv_c2: "inventory_of w2 c = inventory_of w c"
  proof -
    obtain a where "alloc (w_arena w1) = Some (a, Inr j)" "w2 = w1\<lparr>w_arena := a\<rparr>"
      using cr by (auto simp: create_arena)
    with create_view(1) [OF inv1] inv_c show ?thesis by (simp add: world_view_def)
  qed
  have "i \<in> set (inventory_of w c)" using held by (simp add: world_views(5))
  then have slot_in: "id_slot j \<in> id_slot ` set (inventory_of w2 c)"
    using slot inv_c2 by (auto simp: image_iff)
  from inventory_add_view [OF l2] obtain t where
    add: "inventory_add w2 c j = Some (w2\<lparr>w_inventory := t\<rparr>, Inr ())" and
    view: "world_view (w2\<lparr>w_inventory := t\<rparr>) = world_view w2"
    using slot_in by metis
  have same: "inventory_of (w2\<lparr>w_inventory := t\<rparr>) c = inventory_of w c"
    using view inv_c2 by (simp add: world_view_def)
  have "\<not> live w2 i" using world_pool.mint_live [OF inv1 cr, of i] l1 j by auto
  moreover have "j \<notin> set (inventory_of w c)"
  proof
    assume "j \<in> set (inventory_of w c)"
    with \<open>i \<in> set (inventory_of w c)\<close> slot j world_invD(4) [OF inv, of c] c show False
      by (auto simp: inventory_of_live distinct_map dest: inj_onD)
  qed
  ultimately show ?thesis
    using add same l2 \<open>i \<in> set (inventory_of w c)\<close> by (auto simp: world_views(5))
qed

lemma stale_item_hides_reused_slot_witness:
  "\<exists>w1 w2 w3. teardown sample_world (sample_handle 1 0) = (w1, Inr ()) \<and>
     create w1 = Some (w2, Inr (sample_handle 1 1)) \<and>
     inventory_add w2 (sample_handle 0 0) (sample_handle 1 1) = Some (w3, Inr ()) \<and>
     \<not> live w3 (sample_handle 1 0) \<and> sample_handle 1 0 \<in> set (inventory_of w3 (sample_handle 0 0)) \<and>
     \<not> holds_item w3 (sample_handle 0 0) (sample_handle 1 1)"
proof -
  let ?c = "sample_handle 0 0" and ?i = "sample_handle 1 0" and ?j = "sample_handle 1 1"
  have "\<exists>w1 w2. teardown sample_world ?i = (w1, Inr ()) \<and> create w1 = Some (w2, Inr ?j)"
    by (simp add: world_eval location_remove_def inventory_clear_def naming_clear_def)
  then obtain w1 w2 where run: "teardown sample_world ?i = (w1, Inr ())" "create w1 = Some (w2, Inr ?j)"
    by blast
  have slots: "id_slot ?i = SlotIndex 1" "id_slot ?j = SlotIndex 1" "id_slot ?c = SlotIndex 0"
    by (simp_all add: gen_ok_iff)
  have li: "live sample_world ?i" and held: "holds_item sample_world ?c ?i"
    by (simp_all add: holds_item_def alive_def gen_ok_iff tag_ok_iff vec_get_def contents_dense dense_def)
  have "?c \<noteq> ?i" using slots by (metis slot_index.inject zero_neq_one)
  from stale_item_hides_reused_slot [OF world_inv_sample held li this run] slots
  obtain w3 where "inventory_add w2 ?c ?j = Some (w3, Inr ())" "\<not> live w3 ?i"
    "?i \<in> set (inventory_of w3 ?c)" "\<not> holds_item w3 ?c ?j" by auto
  with run show ?thesis by blast
qed

end
