(* ===== verification/Scheduler.thy ===== *)
theory Scheduler
  imports World
begin

text \<open>
  The scheduler of crates/mud-core/src/scheduler.rs: a FIFO of mutation commands and a tick
  counter. A tick empties the queue and applies each command, in arrival order, against the
  world as the earlier commands have left it.
\<close>

section \<open>Operations\<close>

record scheduler =
  queue :: "mutation_command list"
  tick_number :: u64

definition scheduler_new :: scheduler where
  "scheduler_new = \<lparr>queue = [], tick_number = 0\<rparr>"

definition submit :: "scheduler \<Rightarrow> mutation_command \<Rightarrow> scheduler" where
  "submit s c = s\<lparr>queue := queue s @ [c]\<rparr>"

definition drain :: "scheduler \<Rightarrow> scheduler \<times> mutation_command list" where
  "drain s = (s\<lparr>queue := [], tick_number := saturating_add_u64 (tick_number s) 1\<rparr>, queue s)"

text \<open>The body of the loop of \<open>tick\<close>, and the loop; \<open>None\<close> is a panic of the world.\<close>

definition apply_command ::
  "world \<Rightarrow> mutation_command \<Rightarrow> (world \<times> tick_event list) option" where
  "apply_command w c =
     (case cmd_precondition c of
        Some p \<Rightarrow>
          if \<not> satisfies w p then Some (w, [PreconditionFailed p (cmd_effect c)])
          else map_option (\<lambda>(w', ev). (w', (case ev of None \<Rightarrow> [] | Some x \<Rightarrow> [x])))
                 (apply_effect w (cmd_effect c))
      | None \<Rightarrow> map_option (\<lambda>(w', ev). (w', (case ev of None \<Rightarrow> [] | Some x \<Rightarrow> [x])))
                 (apply_effect w (cmd_effect c)))"

fun apply_commands ::
  "world \<Rightarrow> mutation_command list \<Rightarrow> (world \<times> tick_event list) option" where
  "apply_commands w [] = Some (w, [])"
| "apply_commands w (c # cs) =
     (case apply_command w c of
        None \<Rightarrow> None
      | Some (w', evs) \<Rightarrow> map_option (\<lambda>(w'', evs'). (w'', evs @ evs')) (apply_commands w' cs))"

definition tick :: "scheduler \<Rightarrow> world \<Rightarrow> (scheduler \<times> world \<times> tick_event list) option" where
  "tick s w =
     (case drain s of
        (s', cmds) \<Rightarrow> map_option (\<lambda>(w', evs). (s', w', evs)) (apply_commands w cmds))"

section \<open>Runs of the contract\<close>

text \<open>
  The contract of World extended to commands: a guard is evaluated on the view when its
  command is reached; if it fails the view is unchanged and the failure is reported.
\<close>

fun guard_holds :: "contract \<Rightarrow> precondition \<Rightarrow> bool" where
  "guard_holds k (LocatedIn e p) = (k_at k e = Some p)"
| "guard_holds k (Contains c i) = (i \<in> set (k_items k c))"

inductive contract_run ::
  "contract \<Rightarrow> mutation_command list \<Rightarrow> tick_event list \<Rightarrow> contract \<Rightarrow> bool" where
  run_nil: "contract_run k [] [] k"
| run_skip: "cmd_precondition c = Some p \<Longrightarrow> \<not> guard_holds k p \<Longrightarrow> contract_run k cs evs k' \<Longrightarrow>
     contract_run k (c # cs) (PreconditionFailed p (cmd_effect c) # evs) k'"
| run_silent: "\<forall>p. cmd_precondition c = Some p \<longrightarrow> guard_holds k p \<Longrightarrow>
     contract_step k (cmd_effect c) None k1 \<Longrightarrow> contract_run k1 cs evs k' \<Longrightarrow>
     contract_run k (c # cs) evs k'"
| run_event: "\<forall>p. cmd_precondition c = Some p \<longrightarrow> guard_holds k p \<Longrightarrow>
     contract_step k (cmd_effect c) (Some ev) k1 \<Longrightarrow> contract_run k1 cs evs k' \<Longrightarrow>
     contract_run k (c # cs) (ev # evs) k'"

lemma satisfies_guard: "satisfies w p \<longleftrightarrow> guard_holds (world_view w) p"
  by (cases p) (simp_all add: world_views)

lemma apply_command_cases:
  assumes inv: "world_inv w"
  obtains
    (skipped) p where "cmd_precondition c = Some p" "\<not> satisfies w p"
      "apply_command w c = Some (w, [PreconditionFailed p (cmd_effect c)])"
  | (applied) w' ev where "\<forall>p. cmd_precondition c = Some p \<longrightarrow> satisfies w p"
      "apply_effect w (cmd_effect c) = Some (w', ev)" "world_inv w'"
      "apply_command w c = Some (w', (case ev of None \<Rightarrow> [] | Some x \<Rightarrow> [x]))"
proof (cases "\<exists>p. cmd_precondition c = Some p \<and> \<not> satisfies w p")
  case True
  then show thesis using skipped by (auto simp: apply_command_def)
next
  case False
  obtain w' ev where "apply_effect w (cmd_effect c) = Some (w', ev)" "world_inv w'"
    using apply_effect_ok [OF inv] by blast
  with False show thesis
    by (intro applied) (auto simp: apply_command_def split: option.splits)
qed

lemma apply_commands_ok:
  "world_inv w \<Longrightarrow> \<exists>w' evs. apply_commands w cs = Some (w', evs) \<and> world_inv w' \<and>
     contract_run (world_view w) cs evs (world_view w')"
proof (induction cs arbitrary: w)
  case Nil
  then show ?case by (simp add: run_nil)
next
  case (Cons c cs)
  from Cons.prems show ?case
  proof (cases rule: apply_command_cases [where c = c])
    case (skipped p)
    with Cons.IH [OF Cons.prems] show ?thesis
      by (auto simp: satisfies_guard intro: run_skip)
  next
    case (applied w' ev)
    obtain w'' evs where rest: "apply_commands w' cs = Some (w'', evs)" "world_inv w''"
        "contract_run (world_view w') cs evs (world_view w'')"
      using Cons.IH [OF applied(3)] by blast
    have step: "contract_step (world_view w) (cmd_effect c) ev (world_view w')"
      using Cons.prems applied(2) by (rule effect_refines_contract)
    have guard: "\<forall>p. cmd_precondition c = Some p \<longrightarrow> guard_holds (world_view w) p"
      using applied(1) by (simp add: satisfies_guard)
    show ?thesis
    proof (cases ev)
      case None
      with step guard rest(3) have "contract_run (world_view w) (c # cs) evs (world_view w'')"
        by (auto intro: run_silent)
      with None applied(4) rest show ?thesis by simp
    next
      case (Some x)
      with step guard rest(3) have "contract_run (world_view w) (c # cs) (x # evs) (world_view w'')"
        by (auto intro: run_event)
      with Some applied(4) rest show ?thesis by simp
    qed
  qed
qed

lemma apply_commands_append:
  "apply_commands w (cs @ ds) =
     (case apply_commands w cs of
        None \<Rightarrow> None
      | Some (w', evs) \<Rightarrow> map_option (\<lambda>(w'', evs'). (w'', evs @ evs')) (apply_commands w' ds))"
proof (induction cs arbitrary: w)
  case Nil
  then show ?case by (cases "apply_commands w ds") auto
next
  case (Cons c cs)
  show ?case
  proof (cases "apply_command w c")
    case None
    then show ?thesis by simp
  next
    case (Some r)
    then obtain w' evs where r: "apply_command w c = Some (w', evs)" by (cases r) auto
    show ?thesis
      using Cons.IH [of w'] r
      by (cases "apply_commands w' cs") (auto simp: option.map_comp o_def split_def split: option.splits)
  qed
qed

section \<open>Effects on live handles\<close>

fun view_apply :: "contract \<Rightarrow> World.effect \<Rightarrow> contract" where
  "view_apply k Create = k"
| "view_apply k (Teardown e) =
     k\<lparr>k_live := k_live k - {e}, k_at := (k_at k)(e := None), k_items := (k_items k)(e := []),
       k_names := (k_names k)(e := [])\<rparr>"
| "view_apply k (MoveTo e p) = k\<lparr>k_at := (k_at k)(e := Some p)\<rparr>"
| "view_apply k (ClearLocation e) = k\<lparr>k_at := (k_at k)(e := None)\<rparr>"
| "view_apply k (InventoryAdd c i) =
     (if id_slot i \<in> id_slot ` set (k_items k c) then k
      else k\<lparr>k_items := (k_items k)(c := k_items k c @ [i])\<rparr>)"
| "view_apply k (InventoryRemove c i) =
     k\<lparr>k_items := (k_items k)(c := filter (\<lambda>h. id_slot h \<noteq> id_slot i) (k_items k c))\<rparr>"

lemma step_view_apply:
  assumes "contract_step k eff ev k'" and "eff \<noteq> Create" and "effect_handles eff \<subseteq> k_live k"
  shows "ev = None \<and> k' = view_apply k eff"
  using assms by cases auto

lemma apply_live:
  assumes "world_inv w" and "eff \<noteq> Create" and "effect_handles eff \<subseteq> {e. live w e}"
  shows "\<exists>w'. apply_command w (command_new eff) = Some (w', []) \<and> world_inv w' \<and>
    world_view w' = view_apply (world_view w) eff"
proof -
  obtain w' ev where ap: "apply_effect w eff = Some (w', ev)" "world_inv w'"
    using apply_effect_ok [OF assms(1)] by blast
  have "ev = None \<and> world_view w' = view_apply (world_view w) eff"
    using step_view_apply [OF effect_refines_contract [OF assms(1) ap(1)] assms(2)] assms(3) by simp
  with ap show ?thesis by (simp add: apply_command_def command_new_def)
qed

fun keeps_all :: "World.effect \<Rightarrow> bool" where
  "keeps_all Create = False"
| "keeps_all (Teardown e) = False"
| "keeps_all _ = True"

lemma view_apply_live: "keeps_all eff \<Longrightarrow> k_live (view_apply k eff) = k_live k"
  by (cases eff) auto

lemma run_live:
  assumes "world_inv w" and "list_all keeps_all effs" and "\<forall>eff \<in> set effs. effect_handles eff \<subseteq> {e. live w e}"
  shows "\<exists>w'. apply_commands w (map command_new effs) = Some (w', []) \<and> world_inv w' \<and>
    world_view w' = foldl view_apply (world_view w) effs"
  using assms
proof (induction effs arbitrary: w)
  case (Cons eff effs)
  have "eff \<noteq> Create" using Cons.prems(2) by auto
  then obtain w1 where w1: "apply_command w (command_new eff) = Some (w1, [])" "world_inv w1"
      "world_view w1 = view_apply (world_view w) eff"
    using apply_live [of w eff] Cons.prems by auto
  then have "{e. live w1 e} = {e. live w e}"
    using view_apply_live [of eff "world_view w"] Cons.prems(2) by (metis list.pred_inject(2) world_view_sel(1))
  then have "\<forall>eff \<in> set effs. effect_handles eff \<subseteq> {e. live w1 e}" using Cons.prems(3) by simp
  then obtain w' where "apply_commands w1 (map command_new effs) = Some (w', [])" "world_inv w'"
      "world_view w' = foldl view_apply (world_view w1) effs"
    using Cons.IH [of w1] w1(2) Cons.prems(2) by auto
  with w1 show ?case by simp
qed simp

section \<open>Properties\<close>

text \<open>
  C1. A tick never panics. From any consistent world it drains the whole queue, advances the
  tick counter by one (saturating at the largest 64-bit value), leaves a consistent world and
  has exactly the effect and the events that the contract prescribes for the queued commands
  in arrival order: guards are evaluated when their command is reached, failed guards and
  rejected effects change nothing.
\<close>

theorem tick_refines_contract:
  assumes "world_inv w"
  shows "\<exists>s' w' evs. tick s w = Some (s', w', evs) \<and> world_inv w' \<and> queue s' = [] \<and>
    unat (tick_number s') = min (Suc (unat (tick_number s))) (2 ^ 64 - 1) \<and>
    contract_run (world_view w) (queue s) evs (world_view w')"
proof -
  obtain w' evs where "apply_commands w (queue s) = Some (w', evs)" "world_inv w'"
      "contract_run (world_view w) (queue s) evs (world_view w')"
    using apply_commands_ok [OF assms] by blast
  then show ?thesis by (simp add: tick_def drain_def unat_saturating_add_u64)
qed

lemma tick_refines_contract_witness:
  "\<exists>s' w' evs. tick (submit scheduler_new (command_new Create)) (world_new (TenantTag 0)) = Some (s', w', evs) \<and>
     world_inv w' \<and> queue s' = [] \<and> unat (tick_number s') = 1 \<and>
     contract_run (world_view (world_new (TenantTag 0))) [command_new Create] evs (world_view w')"
  using tick_refines_contract [OF world_inv_empty, of "submit scheduler_new (command_new Create)"]
  by (simp add: submit_def scheduler_new_def)

text \<open>
  Batching is invisible: a queue drained in one tick, or cut anywhere and drained in two,
  gives the same world and the same events in the same order.
\<close>

theorem tick_batching:
  "map_option snd (tick \<lparr>queue = cs @ ds, tick_number = n\<rparr> w) =
     (case tick \<lparr>queue = cs, tick_number = n\<rparr> w of
        None \<Rightarrow> None
      | Some (s1, w1, evs1) \<Rightarrow>
          map_option (\<lambda>(s2, w2, evs2). (w2, evs1 @ evs2)) (tick (foldl submit s1 ds) w1))"
proof -
  have sub: "queue (foldl submit s ds) = queue s @ ds" for s
    by (induction ds arbitrary: s) (simp_all add: submit_def)
  show ?thesis
    by (cases "apply_commands w cs")
      (auto simp: tick_def drain_def apply_commands_append sub option.map_comp o_def split_def)
qed

text \<open>Whatever the commands, a handle that has died stays dead.\<close>

lemma apply_commands_dead:
  "world_inv w \<Longrightarrow> apply_commands w cs = Some (w', evs) \<Longrightarrow> e \<in> issued (w_arena w) \<Longrightarrow>
     \<not> live w e \<Longrightarrow> \<not> live w' e \<and> world_inv w'"
proof (induction cs arbitrary: w evs)
  case Nil
  then show ?case by simp
next
  case (Cons c cs)
  from Cons.prems(1) show ?case
  proof (cases rule: apply_command_cases [where c = c])
    case (skipped p)
    with Cons show ?thesis by auto
  next
    case (applied w1 ev)
    with Cons.prems obtain evs' where "apply_commands w1 cs = Some (w', evs')" by auto
    then show ?thesis
      using Cons.IH [OF applied(3)] Cons.prems apply_effect_dead_stays [OF Cons.prems(1) applied(2)]
      by blast
  qed
qed

text \<open>
  C4. No use after free: once a handle has been retired, no tick, whatever commands it
  carries, makes it live again, gives it a place, items or keywords, or lists it as an
  occupant of a place. In particular its slot is never handed out under the same handle.
\<close>

theorem tick_never_revives:
  assumes "world_inv w" and "e \<in> issued (w_arena w)" and "\<not> live w e"
    and "tick s w = Some (s', w', evs)"
  shows "\<not> live w' e \<and> location_of w' e = None \<and> inventory_of w' e = [] \<and>
    keywords_of w' e = [] \<and> (\<forall>p. e \<notin> set (occupants_of w' p))"
proof -
  from assms(4) have "apply_commands w (queue s) = Some (w', evs)"
    by (auto simp: tick_def drain_def)
  with assms have dead: "\<not> live w' e" and inv: "world_inv w'"
    using apply_commands_dead by blast+
  then show ?thesis using world_invD(3) [OF inv] by (auto simp: world_views)
qed

text \<open>
  Last writer wins: whatever the queue did before, if its last command moves an entity
  unconditionally and the entity is live afterwards, then the entity is exactly where that
  command put it, as the most recent arrival of that place, and nowhere else.
\<close>

theorem last_writer_wins:
  assumes inv: "world_inv w" and "live w' e"
    and tk: "tick \<lparr>queue = cs @ [command_new (MoveTo e q)], tick_number = n\<rparr> w = Some (s', w', evs)"
  shows "location_of w' e = Some q \<and> last (occupants_of w' q) = e \<and>
    (\<forall>p. e \<in> set (occupants_of w' p) \<longrightarrow> p = q)"
proof -
  obtain w1 evs1 where one: "apply_commands w cs = Some (w1, evs1)" and inv1: "world_inv w1"
    using apply_commands_ok [OF inv] by blast
  obtain w2 ev where ap2: "apply_effect w1 (MoveTo e q) = Some (w2, ev)"
    using apply_effect_ok [OF inv1] by blast
  with one tk have "w2 = w'"
    by (auto simp: tick_def drain_def apply_commands_append apply_command_def command_new_def
        simp del: apply_effect.simps split: option.splits)
  with ap2 have ap: "apply_effect w1 (MoveTo e q) = Some (w', ev)" by simp
  have l: "live w1 e"
    using apply_effect_arena [OF ap] \<open>live w' e\<close> by simp
  obtain t where t: "location_place (w_locations w1) e q = Some t"
    by (simp add: location_place_eq)
  with ap l have w': "w' = w1\<lparr>w_locations := t\<rparr>" by (simp add: move_to_alive)
  have inv': "world_inv w'" using world_inv_move_to [OF inv1 move_to_alive [OF l t]] w' by simp
  have loc: "location_of w' e = Some q"
    using l by (simp add: world_views w' location_place_read [OF t])
  moreover have "last (occupants_of w' q) = e"
    by (simp add: occupants_of_def w' occupants_location_place [OF world_invD(2) [OF inv1] t])
  ultimately show ?thesis using occupants_of_iff [OF inv'] by auto
qed

lemma tick_never_revives_witness:
  "\<exists>w s' w' evs. create (world_new (TenantTag 0)) = Some (w, Inr (sample_handle 0 0)) \<and>
     tick (submit scheduler_new (command_new Create)) (fst (teardown w (sample_handle 0 0))) = Some (s', w', evs) \<and>
     \<not> live w' (sample_handle 0 0)"
proof -
  let ?h = "sample_handle 0 0"
  obtain w where c: "create (world_new (TenantTag 0)) = Some (w, Inr ?h)"
    and inv: "world_inv w" and l: "live w ?h" by (rule sample_create)
  let ?w = "fst (teardown w ?h)"
  have inv': "world_inv ?w" using inv by (rule world_inv_teardown)
  have dead: "?h \<in> issued (w_arena ?w)" "\<not> live ?w ?h"
    using world_pool.retire_issued [OF inv, of ?h] alive_issued [OF l]
      world_pool.retire_live [OF inv, of ?h ?h] by auto
  obtain w' evs where "apply_commands ?w [command_new Create] = Some (w', evs)"
    using apply_commands_ok [OF inv'] by blast
  then obtain s' where t: "tick (submit scheduler_new (command_new Create)) ?w = Some (s', w', evs)"
    by (simp add: tick_def drain_def submit_def scheduler_new_def)
  with c tick_never_revives [OF inv' dead t] show ?thesis by blast
qed

lemma last_writer_wins_witness:
  "\<exists>w s' w' evs. create (world_new (TenantTag 0)) = Some (w, Inr (sample_handle 0 0)) \<and>
     tick \<lparr>queue = [command_new (MoveTo (sample_handle 0 0) (PlaceId 1))] @
       [command_new (MoveTo (sample_handle 0 0) (PlaceId 2))], tick_number = 0\<rparr> w = Some (s', w', evs) \<and>
     location_of w' (sample_handle 0 0) = Some (PlaceId 2)"
proof -
  let ?h = "sample_handle 0 0"
  let ?cs = "[command_new (MoveTo ?h (PlaceId 1))] @ [command_new (MoveTo ?h (PlaceId 2))]"
  obtain w where c: "create (world_new (TenantTag 0)) = Some (w, Inr ?h)"
    and inv: "world_inv w" and l: "live w ?h" by (rule sample_create)
  obtain w' evs where r: "apply_commands w ?cs = Some (w', evs)"
    using apply_commands_ok [OF inv] by blast
  have "live w' ?h"
    using r l by (auto simp: apply_command_def command_new_def move_to_def resolve_alive
        location_place_eq)
  moreover obtain s' where t: "tick \<lparr>queue = ?cs, tick_number = 0\<rparr> w = Some (s', w', evs)"
    using r by (simp add: tick_def drain_def)
  ultimately have "location_of w' ?h = Some (PlaceId 2)"
    using last_writer_wins [OF inv _ t] by blast
  with c t show ?thesis by blast
qed

end
