(* ===== verification/Styled_Text.thy ===== *)
theory Styled_Text
  imports Prelude
begin

text \<open>
  Styled text of crates/mud-core/src/text: attribute sets (attributes.rs), 24-bit colors with
  their \<open>#rrggbb\<close> form (color.rs), styles and roles (style.rs), spans (span.rs), palettes
  (palette.rs) and per-field markup policies (field.rs). A role name is its text: the
  \<open>Cow\<close> of the source compares by contents.
\<close>

section \<open>Attributes\<close>

datatype attributes = Attributes (attr_bits: u8)

definition attr_NONE :: attributes where "attr_NONE = Attributes 0"
definition attr_BOLD :: attributes where "attr_BOLD = Attributes (push_bit 0 1)"
definition attr_ITALIC :: attributes where "attr_ITALIC = Attributes (push_bit 1 1)"
definition attr_UNDERLINE :: attributes where "attr_UNDERLINE = Attributes (push_bit 2 1)"
definition attr_BLINK :: attributes where "attr_BLINK = Attributes (push_bit 3 1)"
definition attr_REVERSE :: attributes where "attr_REVERSE = Attributes (push_bit 4 1)"

definition attr_union :: "attributes \<Rightarrow> attributes \<Rightarrow> attributes" where
  "attr_union a b = Attributes (attr_bits a OR attr_bits b)"

definition attr_contains :: "attributes \<Rightarrow> attributes \<Rightarrow> bool" where
  "attr_contains a b \<longleftrightarrow> attr_bits a AND attr_bits b = attr_bits b"

definition attr_is_empty :: "attributes \<Rightarrow> bool" where
  "attr_is_empty a \<longleftrightarrow> attr_bits a = 0"

text \<open>Containment is inclusion of the sets of flags.\<close>

definition attr_flags :: "attributes \<Rightarrow> nat set" where
  "attr_flags a = {n. bit (attr_bits a) n}"

lemma attr_flags_union [simp]: "attr_flags (attr_union a b) = attr_flags a \<union> attr_flags b"
  by (auto simp: attr_flags_def attr_union_def bit_simps)

lemma attr_flags_NONE [simp]: "attr_flags attr_NONE = {}"
  by (simp add: attr_flags_def attr_NONE_def)

lemma bit_u8: "bit (w :: u8) n \<Longrightarrow> n < 8"
  using bit_imp_le_length [of w n] by simp

lemma attr_contains_flags: "attr_contains a b \<longleftrightarrow> attr_flags b \<subseteq> attr_flags a"
  by (auto simp: attr_contains_def attr_flags_def bit_eq_iff bit_simps dest: bit_u8)

lemma attr_is_empty_flags: "attr_is_empty a \<longleftrightarrow> attr_flags a = {}"
  by (auto simp: attr_is_empty_def attr_flags_def bit_eq_iff dest: bit_u8)

lemma attr_eqI: "attr_flags a = attr_flags b \<Longrightarrow> a = b"
  by (cases a; cases b) (auto simp: attr_flags_def intro: bit_word_eqI)

section \<open>Colors\<close>

record color =
  color_r :: u8
  color_g :: u8
  color_b :: u8

abbreviation rgb :: "u8 \<Rightarrow> u8 \<Rightarrow> u8 \<Rightarrow> color" where
  "rgb r g b \<equiv> \<lparr>color_r = r, color_g = g, color_b = b\<rparr>"

datatype color_parse_error = MissingHash | BadLength nat | InvalidDigit rchar

definition is_ascii_hexdigit :: "rchar \<Rightarrow> bool" where
  "is_ascii_hexdigit c \<longleftrightarrow> is_ascii_digit c \<or> (97 \<le> c \<and> c \<le> 102) \<or> (65 \<le> c \<and> c \<le> 70)"

definition hex_value :: "rchar \<Rightarrow> nat" where
  "hex_value c = (if c \<le> 57 then c - 48 else if c \<le> 70 then c - 55 else c - 87)"

text \<open>\<open>digits.get(start..start + 2)\<close> and \<open>u8::from_str_radix(s, 16)\<close> on two hex digits.\<close>

definition hex_pair :: "ustring \<Rightarrow> nat \<Rightarrow> u8 option" where
  "hex_pair digits start =
     (case (vec_get digits start, vec_get digits (start + 1)) of
        (Some a, Some b) \<Rightarrow> Some (of_nat (16 * hex_value a + hex_value b))
      | _ \<Rightarrow> None)"

definition from_hex :: "ustring \<Rightarrow> color_parse_error + color" where
  "from_hex text =
     bindE (ok_or (strip_prefix (lit ''#'') text) MissingHash) (\<lambda>digits.
       case find_char (\<lambda>c. \<not> is_ascii_hexdigit c) digits of
         Some bad \<Rightarrow> Inl (InvalidDigit bad)
       | None \<Rightarrow>
           (if length digits = 6 then
              (case (hex_pair digits 0, hex_pair digits 2, hex_pair digits 4) of
                 (Some r, Some g, Some b) \<Rightarrow> Inr (rgb r g b)
               | _ \<Rightarrow> Inl (BadLength (length digits)))
            else Inl (BadLength (length digits))))"

definition hex_char :: "nat \<Rightarrow> rchar" where
  "hex_char n = (if n < 10 then 48 + n else 87 + n)"

text \<open>The format \<open>{:02x}\<close> of a byte.\<close>

definition show_hex2 :: "u8 \<Rightarrow> ustring" where
  "show_hex2 b = [hex_char (unat b div 16), hex_char (unat b mod 16)]"

definition show_color :: "color \<Rightarrow> ustring" where
  "show_color c = lit ''#'' @ show_hex2 (color_r c) @ show_hex2 (color_g c) @ show_hex2 (color_b c)"

lemma hex_char_ok: "n < 16 \<Longrightarrow> is_ascii_hexdigit (hex_char n) \<and> hex_value (hex_char n) = n"
  by (auto simp: is_ascii_hexdigit_def is_ascii_digit_def hex_char_def hex_value_def)

lemma unat_u8_less: "unat (b :: u8) < 256"
proof -
  have "unat b < 2 ^ LENGTH(8)" by (rule unsigned_less)
  then show ?thesis by simp
qed

lemma lit_hash: "lit ''#'' = [35]"
  by (simp add: lit_def)

lemma hex_nibbles [simp]: "(of_nat (16 * (unat b div 16) + unat b mod 16) :: u8) = b"
  by (simp add: mult.commute [of 16])

lemma nibble_hi: "unat (b :: u8) div 16 < 16"
  using unat_u8_less [of b] by (simp add: less_mult_imp_div_less)

section \<open>Styles, roles and spans\<close>

record style =
  style_fg :: "color option"
  style_bg :: "color option"
  style_attrs :: attributes

definition style_new :: style where
  "style_new = \<lparr>style_fg = None, style_bg = None, style_attrs = attr_NONE\<rparr>"

definition with_fg :: "style \<Rightarrow> color \<Rightarrow> style" where
  "with_fg s c = s\<lparr>style_fg := Some c\<rparr>"

definition with_bg :: "style \<Rightarrow> color \<Rightarrow> style" where
  "with_bg s c = s\<lparr>style_bg := Some c\<rparr>"

definition with_attrs :: "style \<Rightarrow> attributes \<Rightarrow> style" where
  "with_attrs s a = s\<lparr>style_attrs := attr_union (style_attrs s) a\<rparr>"

definition is_unstyled :: "style \<Rightarrow> bool" where
  "is_unstyled s \<longleftrightarrow> style_fg s = None \<and> style_bg s = None \<and> attr_is_empty (style_attrs s)"

lemma style_sel [simp]:
  "style_fg style_new = None" "style_bg style_new = None" "style_attrs style_new = attr_NONE"
  "style_fg (with_fg s c) = Some c" "style_bg (with_fg s c) = style_bg s"
  "style_attrs (with_fg s c) = style_attrs s"
  "style_fg (with_bg s c) = style_fg s" "style_bg (with_bg s c) = Some c"
  "style_attrs (with_bg s c) = style_attrs s"
  "style_fg (with_attrs s a) = style_fg s" "style_bg (with_attrs s a) = style_bg s"
  "style_attrs (with_attrs s a) = attr_union (style_attrs s) a"
  by (simp_all add: style_new_def with_fg_def with_bg_def with_attrs_def)

datatype role_name = RoleName (role_str: ustring)

definition role_ERROR :: role_name where "role_ERROR = RoleName (lit ''error'')"
definition role_SYSTEM :: role_name where "role_SYSTEM = RoleName (lit ''system'')"
definition role_ALERT :: role_name where "role_ALERT = RoleName (lit ''alert'')"
definition role_PROMPT :: role_name where "role_PROMPT = RoleName (lit ''prompt'')"
definition role_SAY :: role_name where "role_SAY = RoleName (lit ''say'')"
definition role_EMOTE :: role_name where "role_EMOTE = RoleName (lit ''emote'')"
definition role_TELL :: role_name where "role_TELL = RoleName (lit ''tell'')"

lemmas role_defs = role_ERROR_def role_SYSTEM_def role_ALERT_def role_PROMPT_def role_SAY_def
  role_EMOTE_def role_TELL_def

datatype span_style = Plain | Direct style | Role role_name

record span =
  span_text :: ustring
  span_style :: span_style

definition span_plain :: "ustring \<Rightarrow> span" where
  "span_plain t = \<lparr>span_text = t, span_style = Plain\<rparr>"

definition span_styled :: "ustring \<Rightarrow> style \<Rightarrow> span" where
  "span_styled t s = \<lparr>span_text = t, span_style = Direct s\<rparr>"

definition span_role :: "ustring \<Rightarrow> role_name \<Rightarrow> span" where
  "span_role t r = \<lparr>span_text = t, span_style = Role r\<rparr>"

datatype styled_text = StyledText (spans: "span list")

definition styled_new :: styled_text where
  "styled_new = StyledText []"

definition push_span :: "styled_text \<Rightarrow> span \<Rightarrow> styled_text" where
  "push_span t s = StyledText (spans t @ [s])"

definition styled_plain :: "styled_text \<Rightarrow> ustring \<Rightarrow> styled_text" where
  "styled_plain t s = push_span t (span_plain s)"

definition styled_styled :: "styled_text \<Rightarrow> ustring \<Rightarrow> style \<Rightarrow> styled_text" where
  "styled_styled t s st = push_span t (span_styled s st)"

definition styled_role :: "styled_text \<Rightarrow> ustring \<Rightarrow> role_name \<Rightarrow> styled_text" where
  "styled_role t s r = push_span t (span_role s r)"

definition to_plain_string :: "styled_text \<Rightarrow> ustring" where
  "to_plain_string t = concat (map span_text (spans t))"

definition styled_from :: "ustring \<Rightarrow> styled_text" where
  "styled_from s = styled_plain styled_new s"

lemma spans_push [simp]: "spans (push_span t s) = spans t @ [s]"
  by (simp add: push_span_def)

lemma plain_string_push [simp]: "to_plain_string (push_span t s) = to_plain_string t @ span_text s"
  by (simp add: to_plain_string_def)

lemma plain_string_new [simp]: "to_plain_string styled_new = []"
  by (simp add: to_plain_string_def styled_new_def)

lemma span_text_sel [simp]:
  "span_text (span_plain t) = t" "span_text (span_styled t s) = t" "span_text (span_role t r) = t"
  by (simp_all add: span_plain_def span_styled_def span_role_def)

lemma plain_string_from [simp]: "to_plain_string (styled_from s) = s"
  by (simp add: styled_from_def styled_plain_def)

section \<open>Palettes\<close>

text \<open>The two hash maps of the source.\<close>

record palette =
  palette_roles :: "role_name \<rightharpoonup> style"
  palette_colors :: "ustring \<rightharpoonup> color"

definition baseline_colors :: "(ustring \<times> color) list" where
  "baseline_colors =
    [(lit ''black'', rgb 0x00 0x00 0x00), (lit ''red'', rgb 0xcc 0x00 0x00),
     (lit ''green'', rgb 0x4e 0x9a 0x06), (lit ''yellow'', rgb 0xc4 0xa0 0x00),
     (lit ''blue'', rgb 0x34 0x65 0xa4), (lit ''magenta'', rgb 0x75 0x50 0x7b),
     (lit ''cyan'', rgb 0x06 0x98 0x9a), (lit ''white'', rgb 0xd3 0xd7 0xcf),
     (lit ''bright_black'', rgb 0x55 0x57 0x53), (lit ''bright_red'', rgb 0xef 0x29 0x29),
     (lit ''bright_green'', rgb 0x8a 0xe2 0x34), (lit ''bright_yellow'', rgb 0xfc 0xe9 0x4f),
     (lit ''bright_blue'', rgb 0x72 0x9f 0xcf), (lit ''bright_magenta'', rgb 0xad 0x7f 0xa8),
     (lit ''bright_cyan'', rgb 0x34 0xe2 0xe2), (lit ''bright_white'', rgb 0xee 0xee 0xec)]"

definition baseline_roles :: "(role_name \<times> style) list" where
  "baseline_roles =
    [(role_ERROR, with_fg style_new (rgb 0xff 0x55 0x55)),
     (role_SYSTEM, with_fg style_new (rgb 0x7a 0xa2 0xf7)),
     (role_ALERT, with_attrs (with_bg (with_fg style_new (rgb 0xff 0xff 0xff)) (rgb 0xaa 0x00 0x00)) attr_BOLD),
     (role_PROMPT, with_fg style_new (rgb 0x9e 0xce 0x6a)),
     (role_SAY, with_fg style_new (rgb 0xcd 0xd6 0xf4)),
     (role_EMOTE, with_fg style_new (rgb 0xba 0xc2 0xde)),
     (role_TELL, with_fg style_new (rgb 0xf5 0xc2 0xe7))]"

definition palette_baseline :: palette where
  "palette_baseline = \<lparr>palette_roles = map_of baseline_roles, palette_colors = map_of baseline_colors\<rparr>"

definition resolve_role :: "palette \<Rightarrow> role_name \<Rightarrow> style option" where
  "resolve_role p r = palette_roles p r"

definition palette_color :: "palette \<Rightarrow> ustring \<Rightarrow> color option" where
  "palette_color p n = palette_colors p n"

definition insert_role :: "palette \<Rightarrow> role_name \<Rightarrow> style \<Rightarrow> palette" where
  "insert_role p r s = p\<lparr>palette_roles := (palette_roles p)(r \<mapsto> s)\<rparr>"

definition insert_color :: "palette \<Rightarrow> ustring \<Rightarrow> color \<Rightarrow> palette" where
  "insert_color p n c = p\<lparr>palette_colors := (palette_colors p)(n \<mapsto> c)\<rparr>"

section \<open>Field policies\<close>

record field_style =
  field_default :: style
  allow_colors :: bool
  allowed_attrs :: attributes

definition field_TITLE :: field_style where
  "field_TITLE = \<lparr>field_default = with_attrs style_new attr_BOLD, allow_colors = False,
     allowed_attrs = attr_NONE\<rparr>"

definition field_DESCRIPTION :: field_style where
  "field_DESCRIPTION = \<lparr>field_default = style_new, allow_colors = True,
     allowed_attrs = attr_union (attr_union attr_BOLD attr_ITALIC) attr_UNDERLINE\<rparr>"

section \<open>Properties\<close>

lemma find_char_SomeE:
  assumes "find_char p s = Some c"
  obtains a b where "s = a @ c # b" "p c" "\<forall>x \<in> set a. \<not> p x"
proof -
  from assms obtain i where i: "i < length s" "p (s ! i)" "c = s ! i" "\<forall>j<i. \<not> p (s ! j)"
    by (auto simp: find_char_def find_Some_iff)
  have "\<forall>x \<in> set (take i s). \<not> p x"
    using i by (auto simp: in_set_conv_nth)
  with i show thesis by (intro that [of "take i s" "drop (Suc i) s"]) (simp_all add: id_take_nth_drop)
qed

lemma from_hex_hash:
  "from_hex (lit ''#'' @ ds) =
     (case find_char (\<lambda>c. \<not> is_ascii_hexdigit c) ds of
        Some bad \<Rightarrow> Inl (InvalidDigit bad)
      | None \<Rightarrow>
          (if length ds = 6 then
             Inr (rgb (of_nat (16 * hex_value (ds ! 0) + hex_value (ds ! 1)))
               (of_nat (16 * hex_value (ds ! 2) + hex_value (ds ! 3)))
               (of_nat (16 * hex_value (ds ! 4) + hex_value (ds ! 5))))
           else Inl (BadLength (length ds))))"
proof -
  have "strip_prefix (lit ''#'') (lit ''#'' @ ds) = Some ds" by simp
  then show ?thesis
    by (simp add: from_hex_def hex_pair_def vec_get_def del: strip_prefix_Some
        split: option.split)
qed

lemma from_hex_no_hash: "\<not> starts_with (lit ''#'') text \<Longrightarrow> from_hex text = Inl MissingHash"
  by (cases "strip_prefix (lit ''#'') text") (auto simp: from_hex_def starts_with_iff)

lemma from_hex_show: "from_hex (show_color c) = Inr c"
proof -
  have low: "unat b mod 16 < 16" for b :: u8 by simp
  let ?ds = "show_hex2 (color_r c) @ show_hex2 (color_g c) @ show_hex2 (color_b c)"
  have "find_char (\<lambda>c. \<not> is_ascii_hexdigit c) ?ds = None"
    using hex_char_ok [OF nibble_hi] hex_char_ok [OF low] by (auto simp: show_hex2_def find_char_None)
  then have "from_hex (show_color c) = Inr (rgb
      (of_nat (16 * hex_value (?ds ! 0) + hex_value (?ds ! 1)))
      (of_nat (16 * hex_value (?ds ! 2) + hex_value (?ds ! 3)))
      (of_nat (16 * hex_value (?ds ! 4) + hex_value (?ds ! 5))))"
    unfolding show_color_def from_hex_hash by (simp add: show_hex2_def del: of_nat_add of_nat_mult)
  then show ?thesis
    using hex_char_ok [OF nibble_hi] hex_char_ok [OF low]
    by (simp add: show_hex2_def del: of_nat_add of_nat_mult)
qed

text \<open>
  Colors round-trip through their authoring form, and \<open>from_hex\<close> accepts exactly \<open>#\<close>
  followed by six hexadecimal digits: anything without the hash, with another character or
  of another length is the corresponding error.
\<close>

theorem color_hex_roundtrip:
  "from_hex (show_color c) = Inr c \<and>
   (is_ok (from_hex text) \<longleftrightarrow> (\<exists>ds. text = lit ''#'' @ ds \<and> length ds = 6 \<and> list_all is_ascii_hexdigit ds)) \<and>
   (from_hex text = Inl MissingHash \<longleftrightarrow> \<not> starts_with (lit ''#'') text)"
proof (intro conjI)
  show "from_hex (show_color c) = Inr c" by (rule from_hex_show)
  show "is_ok (from_hex text) \<longleftrightarrow>
      (\<exists>ds. text = lit ''#'' @ ds \<and> length ds = 6 \<and> list_all is_ascii_hexdigit ds)"
    and "from_hex text = Inl MissingHash \<longleftrightarrow> \<not> starts_with (lit ''#'') text"
  proof -
    show "is_ok (from_hex text) \<longleftrightarrow>
        (\<exists>ds. text = lit ''#'' @ ds \<and> length ds = 6 \<and> list_all is_ascii_hexdigit ds)"
    proof (cases "starts_with (lit ''#'') text")
      case True
      then obtain ds where tx: "text = lit ''#'' @ ds" by (auto simp: starts_with_iff)
      have "list_all is_ascii_hexdigit ds \<longleftrightarrow> find_char (\<lambda>c. \<not> is_ascii_hexdigit c) ds = None"
        by (simp add: find_char_None list_all_iff)
      then show ?thesis
        by (cases "find_char (\<lambda>c. \<not> is_ascii_hexdigit c) ds") (simp_all add: tx from_hex_hash)
    next
      case False
      then show ?thesis by (auto simp: from_hex_no_hash starts_with_iff)
    qed
    show "from_hex text = Inl MissingHash \<longleftrightarrow> \<not> starts_with (lit ''#'') text"
      using from_hex_no_hash
      by (auto simp: starts_with_iff from_hex_hash split: option.splits if_splits)
  qed
qed

end
