(* ===== verification/Markup.thy ===== *)
theory Markup
  imports Styled_Text
begin

text \<open>
  The builder-markup compiler of crates/mud-core/src/text/markup.rs: a single-pass scanner
  with a style stack that never aborts. Malformed, unknown or disallowed tags keep their inner
  text and leave a diagnostic.
\<close>

section \<open>State and operations\<close>

datatype markup_diagnostic =
    UnknownColor ustring
  | DisallowedTag ustring
  | Malformed ustring

record compiled_markup =
  cm_text :: styled_text
  cm_diagnostics :: "markup_diagnostic list"

record compiler =
  c_field :: field_style
  c_palette :: palette
  c_out :: styled_text
  c_diagnostics :: "markup_diagnostic list"
  c_stack :: "style list"
  c_buf :: ustring

definition attribute_tag :: "ustring \<Rightarrow> attributes option" where
  "attribute_tag tag =
     (if tag = lit ''b'' then Some attr_BOLD
      else if tag = lit ''i'' then Some attr_ITALIC
      else if tag = lit ''u'' then Some attr_UNDERLINE
      else None)"

definition layer_over :: "style \<Rightarrow> style \<Rightarrow> style" where
  "layer_over acc layer =
     (let acc1 = (case style_fg layer of Some fg \<Rightarrow> with_fg acc fg | None \<Rightarrow> acc);
          acc2 = (case style_bg layer of Some bg \<Rightarrow> with_bg acc1 bg | None \<Rightarrow> acc1)
      in with_attrs acc2 (style_attrs layer))"

definition effective_style :: "compiler \<Rightarrow> style" where
  "effective_style c = foldl layer_over (field_default (c_field c)) (c_stack c)"

definition flush :: "compiler \<Rightarrow> compiler" where
  "flush c =
     (if c_buf c = [] then c
      else c\<lparr>c_buf := [],
        c_out := push_span (c_out c)
          (if is_unstyled (effective_style c) then span_plain (c_buf c)
           else span_styled (c_buf c) (effective_style c))\<rparr>)"

definition tag_color :: "compiler \<Rightarrow> ustring \<Rightarrow> ustring \<Rightarrow> markup_diagnostic + color" where
  "tag_color c tag name =
     (if \<not> allow_colors (c_field c) then Inl (DisallowedTag tag)
      else ok_or (palette_color (c_palette c) name) (UnknownColor name))"

definition resolve_tag :: "compiler \<Rightarrow> ustring \<Rightarrow> markup_diagnostic + style" where
  "resolve_tag c tag =
     (case attribute_tag tag of
        Some attr \<Rightarrow>
          (if attr_contains (allowed_attrs (c_field c)) attr then Inr (with_attrs style_new attr)
           else Inl (DisallowedTag tag))
      | None \<Rightarrow>
          (case strip_prefix (lit ''fg='') tag of
             Some name \<Rightarrow> bindE (tag_color c tag name) (\<lambda>col. Inr (with_fg style_new col))
           | None \<Rightarrow>
               (case strip_prefix (lit ''bg='') tag of
                  Some name \<Rightarrow> bindE (tag_color c tag name) (\<lambda>col. Inr (with_bg style_new col))
                | None \<Rightarrow> Inl (DisallowedTag tag))))"

definition diagnose :: "compiler \<Rightarrow> markup_diagnostic \<Rightarrow> compiler" where
  "diagnose c d = c\<lparr>c_diagnostics := c_diagnostics c @ [d]\<rparr>"

definition push_layer :: "compiler \<Rightarrow> style \<Rightarrow> compiler" where
  "push_layer c s = c\<lparr>c_stack := c_stack c @ [s]\<rparr>"

definition apply_tag :: "compiler \<Rightarrow> ustring \<Rightarrow> compiler" where
  "apply_tag c0 tag =
     (let c = flush c0 in
      if tag = lit ''/'' then
        (case vec_pop (c_stack c) of
           None \<Rightarrow> diagnose c (Malformed (lit ''unmatched {/}''))
         | Some (_, rest) \<Rightarrow> c\<lparr>c_stack := rest\<rparr>)
      else
        (case resolve_tag c tag of
           Inr style \<Rightarrow> push_layer c style
         | Inl d \<Rightarrow> push_layer (diagnose c d) style_new))"

text \<open>The inner \<open>while let\<close>: the tag text, whether \<open>}\<close> ended it, and the rest of the input.\<close>

fun scan_tag :: "ustring \<Rightarrow> ustring \<times> bool \<times> ustring" where
  "scan_tag [] = ([], False, [])"
| "scan_tag (n # r) =
     (if n = ch CHR ''}'' then ([], True, r)
      else (case scan_tag r of (tag, ok, rest) \<Rightarrow> (n # tag, ok, rest)))"

lemma scan_tag_rest: "length (snd (snd (scan_tag s))) \<le> length s"
  by (induction s) (auto split: prod.splits)

definition push_buf :: "compiler \<Rightarrow> ustring \<Rightarrow> compiler" where
  "push_buf c s = c\<lparr>c_buf := c_buf c @ s\<rparr>"

definition peek_is :: "rchar \<Rightarrow> ustring \<Rightarrow> bool" where
  "peek_is c s \<longleftrightarrow> s \<noteq> [] \<and> hd s = c"

definition unterminated :: "compiler \<Rightarrow> ustring \<Rightarrow> compiler" where
  "unterminated c tag =
     push_buf (diagnose c (Malformed (lit ''unterminated tag {'' @ tag))) (ch CHR ''{'' # tag)"

function run_chars :: "compiler \<Rightarrow> ustring \<Rightarrow> compiler" where
  "run_chars c [] = c"
| "run_chars c (x # r) =
     (if x = ch CHR ''{'' \<and> peek_is (ch CHR ''{'') r then run_chars (push_buf c [ch CHR ''{'']) (tl r)
      else if x = ch CHR ''}'' \<and> peek_is (ch CHR ''}'') r then run_chars (push_buf c [ch CHR ''}'']) (tl r)
      else if x = ch CHR ''{'' then
        run_chars
          (if fst (snd (scan_tag r)) then apply_tag c (fst (scan_tag r))
           else unterminated c (fst (scan_tag r)))
          (snd (snd (scan_tag r)))
      else run_chars (push_buf c [x]) r)"
  by pat_completeness auto
termination
  by (relation "measure (\<lambda>(c, s). length s)") (auto simp: scan_tag_rest le_imp_less_Suc)

definition run_compiler :: "compiler \<Rightarrow> ustring \<Rightarrow> compiler" where
  "run_compiler c0 input =
     (let c = flush (run_chars c0 input) in
      if c_stack c \<noteq> [] then
        diagnose c (Malformed (show_nat (length (c_stack c)) @ lit '' unclosed tag(s)''))
      else c)"

definition compile_markup :: "ustring \<Rightarrow> field_style \<Rightarrow> palette \<Rightarrow> compiled_markup" where
  "compile_markup input field palette =
     (let c = run_compiler \<lparr>c_field = field, c_palette = palette, c_out = styled_new,
          c_diagnostics = [], c_stack = [], c_buf = []\<rparr> input
      in \<lparr>cm_text = c_out c, cm_diagnostics = c_diagnostics c\<rparr>)"

section \<open>What text survives\<close>

text \<open>
  The characters a markup string shows, whatever the field and the palette: doubled braces
  count once, terminated tags vanish, everything else stays.
\<close>

function markup_text :: "ustring \<Rightarrow> ustring" where
  "markup_text [] = []"
| "markup_text (x # r) =
     (if x = ch CHR ''{'' \<and> peek_is (ch CHR ''{'') r then ch CHR ''{'' # markup_text (tl r)
      else if x = ch CHR ''}'' \<and> peek_is (ch CHR ''}'') r then ch CHR ''}'' # markup_text (tl r)
      else if x = ch CHR ''{'' then
        (if fst (snd (scan_tag r)) then [] else ch CHR ''{'' # fst (scan_tag r)) @
          markup_text (snd (snd (scan_tag r)))
      else x # markup_text r)"
  by pat_completeness auto
termination
  by (relation "measure length") (auto simp: scan_tag_rest le_imp_less_Suc)

text \<open>The text a compiler has produced so far, flushed or not.\<close>

definition pending_text :: "compiler \<Rightarrow> ustring" where
  "pending_text c = to_plain_string (c_out c) @ c_buf c"

lemma pending_flush [simp]: "pending_text (flush c) = pending_text c"
  by (simp add: pending_text_def flush_def)

lemma pending_simps [simp]:
  "pending_text (diagnose c d) = pending_text c"
  "pending_text (push_layer c l) = pending_text c"
  "pending_text (c\<lparr>c_stack := st\<rparr>) = pending_text c"
  "pending_text (push_buf c s) = pending_text c @ s"
  "pending_text (unterminated c tag) = pending_text c @ ch CHR ''{'' # tag"
  by (simp_all add: pending_text_def diagnose_def push_layer_def push_buf_def unterminated_def)

lemma pending_apply_tag [simp]: "pending_text (apply_tag c tag) = pending_text c"
  by (auto simp: apply_tag_def Let_def split: option.splits sum.splits)

lemma pending_run_chars: "pending_text (run_chars c s) = pending_text c @ markup_text s"
  by (induction c s rule: run_chars.induct) (simp_all del: of_char_of)

lemma flush_buf [simp]: "c_buf (flush c) = []"
  by (simp add: flush_def)

lemma compile_markup_text:
  "to_plain_string (cm_text (compile_markup input field palette)) = markup_text input"
proof -
  let ?c = "\<lparr>c_field = field, c_palette = palette, c_out = styled_new, c_diagnostics = [],
    c_stack = [], c_buf = []\<rparr>"
  have "pending_text (flush (run_chars ?c input)) = markup_text input"
    by (simp add: pending_run_chars pending_text_def [of ?c])
  then have "to_plain_string (c_out (flush (run_chars ?c input))) = markup_text input"
    by (simp add: pending_text_def)
  then show ?thesis
    by (simp add: compile_markup_def run_compiler_def Let_def diagnose_def)
qed

section \<open>What styling survives\<close>

text \<open>
  A style that the policy of a field allows: each color is the default of the field or, where
  the field admits colors, a color of the palette; the attributes contain the default ones and
  add only allowed ones.
\<close>

definition color_allowed :: "field_style \<Rightarrow> palette \<Rightarrow> color option \<Rightarrow> color option \<Rightarrow> bool" where
  "color_allowed f p base col \<longleftrightarrow>
     col = base \<or> (allow_colors f \<and> (\<exists>name c. col = Some c \<and> palette_color p name = Some c))"

definition style_allowed :: "field_style \<Rightarrow> palette \<Rightarrow> style \<Rightarrow> bool" where
  "style_allowed f p s \<longleftrightarrow>
     color_allowed f p (style_fg (field_default f)) (style_fg s) \<and>
     color_allowed f p (style_bg (field_default f)) (style_bg s) \<and>
     attr_flags (style_attrs (field_default f)) \<subseteq> attr_flags (style_attrs s) \<and>
     attr_flags (style_attrs s) \<subseteq> attr_flags (style_attrs (field_default f)) \<union> attr_flags (allowed_attrs f)"

definition layer_allowed :: "field_style \<Rightarrow> palette \<Rightarrow> style \<Rightarrow> bool" where
  "layer_allowed f p s \<longleftrightarrow>
     color_allowed f p None (style_fg s) \<and> color_allowed f p None (style_bg s) \<and>
     attr_flags (style_attrs s) \<subseteq> attr_flags (allowed_attrs f)"

fun span_allowed :: "field_style \<Rightarrow> palette \<Rightarrow> span_style \<Rightarrow> bool" where
  "span_allowed f p Plain = is_unstyled (field_default f)"
| "span_allowed f p (Direct s) = (style_allowed f p s \<and> \<not> is_unstyled s)"
| "span_allowed f p (Role r) = False"

definition compiler_ok :: "field_style \<Rightarrow> palette \<Rightarrow> compiler \<Rightarrow> bool" where
  "compiler_ok f p c \<longleftrightarrow> c_field c = f \<and> c_palette c = p \<and>
     list_all (layer_allowed f p) (c_stack c) \<and>
     list_all (\<lambda>sp. span_text sp \<noteq> [] \<and> span_allowed f p (span_style sp)) (spans (c_out c))"

lemma layer_over_sel [simp]:
  "style_fg (layer_over acc l) = (if style_fg l = None then style_fg acc else style_fg l)"
  "style_bg (layer_over acc l) = (if style_bg l = None then style_bg acc else style_bg l)"
  "style_attrs (layer_over acc l) = attr_union (style_attrs acc) (style_attrs l)"
  by (auto simp: layer_over_def Let_def split: option.splits)

lemma layer_over_allowed:
  "style_allowed f p acc \<Longrightarrow> layer_allowed f p l \<Longrightarrow> style_allowed f p (layer_over acc l)"
  by (auto simp: style_allowed_def layer_allowed_def color_allowed_def)

lemma effective_allowed: "compiler_ok f p c \<Longrightarrow> style_allowed f p (effective_style c)"
proof -
  assume ok: "compiler_ok f p c"
  have "style_allowed f p acc \<Longrightarrow> list_all (layer_allowed f p) ls \<Longrightarrow>
      style_allowed f p (foldl layer_over acc ls)" for acc ls
    by (induction ls arbitrary: acc) (simp_all add: layer_over_allowed)
  moreover have "style_allowed f p (field_default f)"
    by (auto simp: style_allowed_def color_allowed_def)
  ultimately show ?thesis using ok by (auto simp: effective_style_def compiler_ok_def)
qed

lemma unstyled_allowed:
  assumes "style_allowed f p s" and "is_unstyled s"
  shows "is_unstyled (field_default f)"
  using assms by (auto simp: style_allowed_def color_allowed_def is_unstyled_def attr_is_empty_flags)

lemma compiler_ok_flush:
  assumes ok: "compiler_ok f p c"
  shows "compiler_ok f p (flush c)"
proof -
  have "span_allowed f p (span_style (if is_unstyled (effective_style c) then span_plain (c_buf c)
      else span_styled (c_buf c) (effective_style c)))"
    using effective_allowed [OF ok] unstyled_allowed
    by (auto simp: span_plain_def span_styled_def)
  then show ?thesis using ok by (auto simp: compiler_ok_def flush_def)
qed

lemma compiler_ok_simps [simp]:
  "compiler_ok f p (diagnose c d) = compiler_ok f p c"
  "compiler_ok f p (push_layer c l) \<longleftrightarrow> compiler_ok f p c \<and> layer_allowed f p l"
  "compiler_ok f p (push_buf c s) = compiler_ok f p c"
  "compiler_ok f p (unterminated c s) = compiler_ok f p c"
  by (auto simp: compiler_ok_def diagnose_def push_layer_def push_buf_def unterminated_def)

lemma layer_allowed_new [simp]: "layer_allowed f p style_new"
  by (simp add: layer_allowed_def color_allowed_def)

lemma tag_color_ok: "tag_color c tag name = Inr col \<Longrightarrow>
    allow_colors (c_field c) \<and> palette_color (c_palette c) name = Some col"
  by (simp add: tag_color_def split: if_splits)

lemma resolve_tag_allowed:
  "resolve_tag c tag = Inr s \<Longrightarrow> layer_allowed (c_field c) (c_palette c) s"
  by (auto simp: resolve_tag_def layer_allowed_def color_allowed_def attr_contains_flags
      simp del: strip_prefix_Some split: option.splits if_splits dest!: tag_color_ok)

lemma compiler_ok_apply_tag:
  assumes "compiler_ok f p c"
  shows "compiler_ok f p (apply_tag c tag)"
proof -
  have ok: "compiler_ok f p (flush c)" using assms by (rule compiler_ok_flush)
  then have fp: "c_field (flush c) = f" "c_palette (flush c) = p" by (simp_all add: compiler_ok_def)
  show ?thesis
  proof (cases "tag = lit ''/''")
    case True
    with ok show ?thesis
      by (auto simp: apply_tag_def Let_def compiler_ok_def diagnose_def split: option.splits)
  next
    case False
    with ok resolve_tag_allowed [of "flush c" tag] fp show ?thesis
      by (auto simp: apply_tag_def Let_def split: sum.splits)
  qed
qed

lemma compiler_ok_run: "compiler_ok f p c \<Longrightarrow> compiler_ok f p (run_chars c s)"
  by (induction c s rule: run_chars.induct) (auto simp: compiler_ok_apply_tag simp del: of_char_of)

section \<open>Properties\<close>

text \<open>
  The compiler loses no text. The plain text of the result is a function of the markup
  string alone, the same for every field and palette: \<open>markup_text\<close>, in which doubled braces
  count once, terminated tags vanish and everything else, an unterminated tag included, stays.
  Text without braces comes out unchanged.
\<close>

theorem markup_preserves_text:
  "to_plain_string (cm_text (compile_markup input field palette)) = markup_text input \<and>
   (ch CHR ''{'' \<notin> set input \<and> ch CHR ''}'' \<notin> set input \<longrightarrow> markup_text input = input)"
proof -
  have "ch CHR ''{'' \<notin> set input \<Longrightarrow> ch CHR ''}'' \<notin> set input \<Longrightarrow> markup_text input = input"
    by (induction input rule: markup_text.induct) (auto simp del: of_char_of)
  then show ?thesis using compile_markup_text by blast
qed

lemma markup_preserves_text_witness:
  "to_plain_string (cm_text (compile_markup (lit ''hi'') field_TITLE palette_baseline)) = lit ''hi''"
  using markup_preserves_text [of "lit ''hi''" field_TITLE palette_baseline] by (simp add: lit_def)

text \<open>
  C29. The policy of a field is enforced. Every span the compiler produces is non-empty and is
  either plain or directly styled, never a role; its colors are the defaults of the field or,
  only if the field admits colors, colors of the palette; its attributes contain the default
  ones and add only those the field allows.
\<close>

theorem markup_respects_policy:
  assumes "sp \<in> set (spans (cm_text (compile_markup input field palette)))"
  shows "span_text sp \<noteq> [] \<and> span_allowed field palette (span_style sp)"
proof -
  let ?c = "\<lparr>c_field = field, c_palette = palette, c_out = styled_new, c_diagnostics = [],
    c_stack = [], c_buf = []\<rparr>"
  have "compiler_ok field palette ?c" by (simp add: compiler_ok_def styled_new_def)
  then have "compiler_ok field palette (flush (run_chars ?c input))"
    by (intro compiler_ok_flush compiler_ok_run)
  then have "compiler_ok field palette (run_compiler ?c input)"
    by (simp add: run_compiler_def Let_def)
  with assms show ?thesis by (auto simp: compile_markup_def compiler_ok_def list_all_iff Let_def)
qed

lemma title_markup_sample:
  "cm_text (compile_markup (lit ''{u}x'') field_TITLE palette_baseline) =
     StyledText [span_styled (lit ''x'') (with_attrs style_new attr_BOLD)]"
  by code_simp

lemma markup_respects_policy_witness:
  "span_allowed field_TITLE palette_baseline (Direct (with_attrs style_new attr_BOLD))"
  using markup_respects_policy [of "span_styled (lit ''x'') (with_attrs style_new attr_BOLD)"
      "lit ''{u}x''" field_TITLE palette_baseline]
  by (simp add: title_markup_sample span_styled_def)

text \<open>Escaping: every brace doubled.\<close>

definition escape_markup :: "ustring \<Rightarrow> ustring" where
  "escape_markup s = concat (map (\<lambda>c. if c = ch CHR ''{'' \<or> c = ch CHR ''}'' then [c, c] else [c]) s)"

lemma run_chars_escape: "run_chars c (escape_markup s) = push_buf c s"
proof (induction s arbitrary: c)
  case Nil
  then show ?case by (simp add: escape_markup_def push_buf_def)
next
  case (Cons x s)
  have "run_chars c (escape_markup (x # s)) = run_chars (push_buf c [x]) (escape_markup s)"
    by (simp add: escape_markup_def peek_is_def)
  also have "\<dots> = push_buf c (x # s)"
    by (simp add: Cons.IH push_buf_def)
  finally show ?case .
qed

text \<open>
  Doubling the braces of a text escapes it: compiling the escaped text yields the text
  itself as one span in the default style of the field, without a diagnostic.
\<close>

theorem escaped_markup_is_literal:
  assumes "s \<noteq> []"
  shows "compile_markup (escape_markup s) field palette =
    \<lparr>cm_text = StyledText
       [if is_unstyled (field_default field) then span_plain s else span_styled s (field_default field)],
     cm_diagnostics = []\<rparr>"
  using assms
  by (simp add: compile_markup_def run_compiler_def run_chars_escape Let_def push_buf_def flush_def
      effective_style_def styled_new_def push_span_def)

lemma escaped_markup_is_literal_witness:
  "cm_diagnostics (compile_markup (escape_markup (lit ''{b}'')) field_TITLE palette_baseline) = []"
  using escaped_markup_is_literal [of "lit ''{b}''" field_TITLE palette_baseline]
  by (simp add: lit_def)

end
