(* ===== verification/Place.thy ===== *)
theory Place
  imports Side_Tables Styled_Text
begin

text \<open>
  Places and regions: the slug alphabet (crates/mud-core/src/slug.rs), durable keys
  (place/key.rs, region.rs), directions and rooms (place/room.rs). The variants and methods
  keep the order of the source.
\<close>

section \<open>Slugs and durable keys\<close>

definition slug_char :: "rchar \<Rightarrow> bool" where
  "slug_char c \<longleftrightarrow> is_ascii_lower c \<or> is_ascii_digit c \<or> c = ch CHR ''_'' \<or> c = ch CHR ''-''"

definition first_invalid_slug_char :: "ustring \<Rightarrow> rchar option" where
  "first_invalid_slug_char value = find_char (\<lambda>c. \<not> slug_char c) value"

datatype place_key = PlaceKey (place_key_str: ustring)
datatype place_key_error = PlaceKeyEmpty | PlaceKeyInvalid rchar

definition PlaceKey_parse :: "ustring \<Rightarrow> place_key_error + place_key" where
  "PlaceKey_parse v =
     (if v = [] then Inl PlaceKeyEmpty
      else (case first_invalid_slug_char v of
          Some bad \<Rightarrow> Inl (PlaceKeyInvalid bad)
        | None \<Rightarrow> Inr (PlaceKey v)))"

datatype region_id = RegionId (region_get: u64)
datatype region_key = RegionKey (region_key_str: ustring)
datatype region_key_error = RegionKeyEmpty | RegionKeyInvalid rchar

definition RegionKey_parse :: "ustring \<Rightarrow> region_key_error + region_key" where
  "RegionKey_parse v =
     (if v = [] then Inl RegionKeyEmpty
      else (case first_invalid_slug_char v of
          Some bad \<Rightarrow> Inl (RegionKeyInvalid bad)
        | None \<Rightarrow> Inr (RegionKey v)))"

lemma first_invalid_None: "first_invalid_slug_char v = None \<longleftrightarrow> list_all slug_char v"
  by (simp add: first_invalid_slug_char_def find_char_None list_all_iff)

lemma first_invalid_Some: "first_invalid_slug_char v = Some c \<Longrightarrow> c \<in> set v \<and> \<not> slug_char c"
  using find_char_SomeD [of "\<lambda>c. \<not> slug_char c" v c] by (simp add: first_invalid_slug_char_def)

lemma PlaceKey_parse_ok: "PlaceKey_parse v = Inr k \<longleftrightarrow> k = PlaceKey v \<and> v \<noteq> [] \<and> list_all slug_char v"
  by (auto simp: PlaceKey_parse_def first_invalid_None [symmetric] split: option.splits)

lemma RegionKey_parse_ok: "RegionKey_parse v = Inr k \<longleftrightarrow> k = RegionKey v \<and> v \<noteq> [] \<and> list_all slug_char v"
  by (auto simp: RegionKey_parse_def first_invalid_None [symmetric] split: option.splits)

section \<open>Directions\<close>

datatype direction = North | East | South | West | Up | Down

fun opposite :: "direction \<Rightarrow> direction" where
  "opposite North = South"
| "opposite South = North"
| "opposite East = West"
| "opposite West = East"
| "opposite Up = Down"
| "opposite Down = Up"

definition Direction_ALL :: "direction list" where
  "Direction_ALL = [North, East, South, West, Up, Down]"

fun dir_name :: "direction \<Rightarrow> ustring" where
  "dir_name North = lit ''north''"
| "dir_name East = lit ''east''"
| "dir_name South = lit ''south''"
| "dir_name West = lit ''west''"
| "dir_name Up = lit ''up''"
| "dir_name Down = lit ''down''"

datatype parse_direction_error = ParseDirectionError (pde_value: ustring)

definition Direction_from_str :: "ustring \<Rightarrow> parse_direction_error + direction" where
  "Direction_from_str s = ok_or (List.find (\<lambda>dir. dir_name dir = s) Direction_ALL) (ParseDirectionError s)"

section \<open>Rooms and places\<close>

datatype description = Description (description_styled: styled_text)
datatype room_title = Title (title_styled: styled_text)

definition Description_new :: "ustring \<Rightarrow> description" where
  "Description_new t = Description (styled_from t)"

definition description_plain :: "description \<Rightarrow> ustring" where
  "description_plain d = to_plain_string (description_styled d)"

definition Title_new :: "ustring \<Rightarrow> room_title" where
  "Title_new t = Title (styled_from t)"

definition title_plain :: "room_title \<Rightarrow> ustring" where
  "title_plain t = to_plain_string (title_styled t)"

record room_data =
  room_id :: place_id
  room_region :: region_id
  room_title :: "room_title option"
  room_description :: description
  exit_north :: "place_id option"
  exit_east :: "place_id option"
  exit_south :: "place_id option"
  exit_west :: "place_id option"
  exit_up :: "place_id option"
  exit_down :: "place_id option"
  room_visible :: "place_id list"

definition room_new :: "place_id \<Rightarrow> region_id \<Rightarrow> description \<Rightarrow> room_data" where
  "room_new i r d = \<lparr>room_id = i, room_region = r, room_title = None, room_description = d,
     exit_north = None, exit_east = None, exit_south = None, exit_west = None,
     exit_up = None, exit_down = None, room_visible = []\<rparr>"

fun with_exit :: "room_data \<Rightarrow> direction \<Rightarrow> place_id \<Rightarrow> room_data" where
  "with_exit r North to = r\<lparr>exit_north := Some to\<rparr>"
| "with_exit r East to = r\<lparr>exit_east := Some to\<rparr>"
| "with_exit r South to = r\<lparr>exit_south := Some to\<rparr>"
| "with_exit r West to = r\<lparr>exit_west := Some to\<rparr>"
| "with_exit r Up to = r\<lparr>exit_up := Some to\<rparr>"
| "with_exit r Down to = r\<lparr>exit_down := Some to\<rparr>"

definition with_visible_places :: "room_data \<Rightarrow> place_id list \<Rightarrow> room_data" where
  "with_visible_places r ps = r\<lparr>room_visible := ps\<rparr>"

definition with_title :: "room_data \<Rightarrow> room_title \<Rightarrow> room_data" where
  "with_title r t = r\<lparr>room_title := Some t\<rparr>"

definition room_describe :: "room_data \<Rightarrow> entity_id \<Rightarrow> description" where
  "room_describe r viewer = room_description r"

fun room_neighbor :: "room_data \<Rightarrow> direction \<Rightarrow> place_id option" where
  "room_neighbor r North = exit_north r"
| "room_neighbor r East = exit_east r"
| "room_neighbor r South = exit_south r"
| "room_neighbor r West = exit_west r"
| "room_neighbor r Up = exit_up r"
| "room_neighbor r Down = exit_down r"

datatype place = Room room_data

fun place_id_of :: "place \<Rightarrow> place_id" where "place_id_of (Room r) = room_id r"
fun place_region :: "place \<Rightarrow> region_id" where "place_region (Room r) = room_region r"
fun place_title :: "place \<Rightarrow> room_title option" where "place_title (Room r) = room_title r"
fun place_describe :: "place \<Rightarrow> entity_id \<Rightarrow> description" where
  "place_describe (Room r) v = room_describe r v"
fun neighbor :: "place \<Rightarrow> direction \<Rightarrow> place_id option" where
  "neighbor (Room r) d = room_neighbor r d"
fun visible_places :: "place \<Rightarrow> place_id list" where "visible_places (Room r) = room_visible r"

definition place_occupants :: "place \<Rightarrow> location_of \<Rightarrow> entity_id list" where
  "place_occupants p t = occupants t (place_id_of p)"

lemma with_exit_read [simp]:
  "room_neighbor (with_exit r d p) d' = (if d' = d then Some p else room_neighbor r d')"
  by (cases d; cases d') simp_all

lemma room_new_read [simp]: "room_neighbor (room_new i r d) dir = None"
  by (cases dir) (simp_all add: room_new_def)

lemma with_exit_keeps [simp]:
  "room_id (with_exit r d p) = room_id r" "room_region (with_exit r d p) = room_region r"
  "room_title (with_exit r d p) = room_title r" "room_visible (with_exit r d p) = room_visible r"
  "room_description (with_exit r d p) = room_description r"
  by (cases d; simp)+

lemma neighbor_foldl_with_exit:
  "room_neighbor (foldl (\<lambda>r (d, p). with_exit r d p) r exits) dir =
     (case map_of (rev exits) dir of Some p \<Rightarrow> Some p | None \<Rightarrow> room_neighbor r dir)"
  by (induction exits arbitrary: r) (auto simp: map_add_def split: option.splits)

section \<open>Properties\<close>

text \<open>
  Direction words and directions are in bijection: parsing the canonical word of a
  direction gives it back, a word parses only to the direction it names, every other word is
  the error that carries it, and reversing a heading twice is the heading, which never is its
  own reverse.
\<close>

theorem direction_words:
  "Direction_from_str (dir_name d) = Inr d \<and>
   (Direction_from_str w = Inr d \<longleftrightarrow> w = dir_name d) \<and>
   (Direction_from_str w = Inl e \<longleftrightarrow> w \<notin> range dir_name \<and> e = ParseDirectionError w) \<and>
   opposite (opposite d) = d \<and> opposite d \<noteq> d \<and> d \<in> set Direction_ALL"
proof -
  have all: "d \<in> set Direction_ALL" for d by (cases d) (simp_all add: Direction_ALL_def)
  have inj: "dir_name a = dir_name b \<Longrightarrow> a = b" for a b by (cases a; cases b) simp_all
  have parse: "Direction_from_str w = Inr d \<longleftrightarrow> w = dir_name d" for w d
  proof
    assume "Direction_from_str w = Inr d"
    then show "w = dir_name d" by (auto simp: Direction_from_str_def find_Some_iff)
  next
    assume w: "w = dir_name d"
    then obtain d' where f: "List.find (\<lambda>dir. dir_name dir = w) Direction_ALL = Some d'"
      using all by (cases "List.find (\<lambda>dir. dir_name dir = w) Direction_ALL") (auto simp: find_None_iff)
    then have "dir_name d' = w" by (auto simp: find_Some_iff)
    with w inj f show "Direction_from_str w = Inr d" by (auto simp: Direction_from_str_def)
  qed
  have "Direction_from_str w = Inl e \<longleftrightarrow> w \<notin> range dir_name \<and> e = ParseDirectionError w"
    using all by (auto simp: Direction_from_str_def find_None_iff)
  moreover have "opposite (opposite d) = d \<and> opposite d \<noteq> d" by (cases d) simp_all
  ultimately show ?thesis using parse all by blast
qed

text \<open>
  A room has at most one exit per direction and the last one set wins: after wiring any
  list of exits into a room, leaving in a direction leads where the last entry for it says,
  or where the room led before; identity, region, title and visibility are untouched.
\<close>

theorem exits_last_wins:
  "neighbor (Room (foldl (\<lambda>r (d, p). with_exit r d p) r exits)) dir =
     (case map_of (rev exits) dir of Some p \<Rightarrow> Some p | None \<Rightarrow> neighbor (Room r) dir) \<and>
   place_id_of (Room (foldl (\<lambda>r (d, p). with_exit r d p) r exits)) = place_id_of (Room r) \<and>
   visible_places (Room (foldl (\<lambda>r (d, p). with_exit r d p) r exits)) = visible_places (Room r)"
proof -
  have keep: "room_id (foldl (\<lambda>r (d, p). with_exit r d p) r exits) = room_id r \<and>
      room_visible (foldl (\<lambda>r (d, p). with_exit r d p) r exits) = room_visible r"
    by (induction exits arbitrary: r) auto
  then show ?thesis by (simp add: neighbor_foldl_with_exit split: option.split)
qed

end
