(* ===== verification/Trie.thy ===== *)
theory Trie
  imports Prelude "HOL-Library.List_Lexorder"
begin

text \<open>
  Ordered maps and the prefix trie of crates/mud-cmd/src/trie.rs. A \<open>BTreeMap\<close> is its list
  of entries in ascending key order; a trie node keeps its children in such a map and the
  index of the command whose name ends there.
\<close>

section \<open>Ordered maps\<close>

fun bt_insert :: "'k::linorder \<Rightarrow> 'v \<Rightarrow> ('k \<times> 'v) list \<Rightarrow> ('k \<times> 'v) list" where
  "bt_insert k v [] = [(k, v)]"
| "bt_insert k v ((k', v') # m) =
     (if k < k' then (k, v) # (k', v') # m
      else if k = k' then (k, v) # m
      else (k', v') # bt_insert k v m)"

lemma map_of_bt_insert [simp]: "map_of (bt_insert k v m) = (map_of m)(k \<mapsto> v)"
  by (induction k v m rule: bt_insert.induct) auto

lemma set_bt_insert: "fst ` set (bt_insert k v m) = insert k (fst ` set m)"
  by (induction k v m rule: bt_insert.induct) auto

lemma sorted_bt_insert: "sorted_wrt (<) (map fst m) \<Longrightarrow> sorted_wrt (<) (map fst (bt_insert k v m))"
proof (induction k v m rule: bt_insert.induct)
  case (2 k v k' v' m)
  then show ?case
    using set_bt_insert [of k v m] by (auto simp flip: image_image simp: image_iff) 
qed simp

section \<open>The trie\<close>

datatype trie_match = Exact nat | Prefix "nat list" | NoMatch

datatype node = Node (node_children: "(rchar \<times> node) list") (node_terminal: "nat option")

definition node_default :: node where
  "node_default = Node [] None"

fun trie_insert :: "node \<Rightarrow> ustring \<Rightarrow> nat \<Rightarrow> node" where
  "trie_insert (Node cs t) [] i = Node cs (Some i)"
| "trie_insert (Node cs t) (c # k) i =
     Node (bt_insert c
       (trie_insert (case map_of cs c of Some child \<Rightarrow> child | None \<Rightarrow> node_default) k i) cs) t"

fun trie_walk :: "node \<Rightarrow> ustring \<Rightarrow> node option" where
  "trie_walk n [] = Some n"
| "trie_walk n (c # k) =
     (case map_of (node_children n) c of Some child \<Rightarrow> trie_walk child k | None \<Rightarrow> None)"

fun collect_terminals :: "node \<Rightarrow> nat list" where
  "collect_terminals (Node cs t) =
     (case t of Some i \<Rightarrow> [i] | None \<Rightarrow> []) @ concat (map (\<lambda>p. collect_terminals (snd p)) cs)"

text \<open>\<open>sort_unstable\<close> on indices and \<open>dedup\<close> of adjacent repetitions.\<close>

definition trie_lookup :: "node \<Rightarrow> ustring \<Rightarrow> trie_match" where
  "trie_lookup root token =
     (case trie_walk root token of
        None \<Rightarrow> NoMatch
      | Some n \<Rightarrow>
          (case node_terminal n of
             Some i \<Rightarrow> Exact i
           | None \<Rightarrow> Prefix (remdups_adj (sort (collect_terminals n)))))"

section \<open>The trie as a map\<close>

definition trie_map :: "node \<Rightarrow> ustring \<Rightarrow> nat option" where
  "trie_map n k = Option.bind (trie_walk n k) node_terminal"

lemma trie_map_simps [simp]:
  "trie_map n [] = node_terminal n"
  "trie_map n (c # k) =
     (case map_of (node_children n) c of Some child \<Rightarrow> trie_map child k | None \<Rightarrow> None)"
  by (simp_all add: trie_map_def split: option.splits)

lemma trie_map_default [simp]: "trie_map node_default k = None"
  by (cases k) (simp_all add: node_default_def)

lemma trie_map_insert: "trie_map (trie_insert n k i) = (trie_map n)(k \<mapsto> i)"
proof (rule ext)
  fix k'
  show "trie_map (trie_insert n k i) k' = ((trie_map n)(k \<mapsto> i)) k'"
  proof (induction n k i arbitrary: k' rule: trie_insert.induct)
    case (1 cs t i)
    then show ?case by (cases k') simp_all
  next
    case (2 cs t c k i)
    then show ?case by (cases k') (auto split: option.splits)
  qed
qed

text \<open>Children are stored in ascending order, at every depth.\<close>

fun trie_wf :: "node \<Rightarrow> bool" where
  "trie_wf (Node cs t) \<longleftrightarrow> sorted_wrt (<) (map fst cs) \<and> (\<forall>p \<in> set cs. trie_wf (snd p))"

lemma trie_wf_default [simp]: "trie_wf node_default"
  by (simp add: node_default_def)

lemma bt_insert_set: "p \<in> set (bt_insert k v m) \<Longrightarrow> p = (k, v) \<or> p \<in> set m"
  by (induction k v m rule: bt_insert.induct) (auto split: if_splits)

lemma map_of_all: "\<forall>p \<in> set cs. P (snd p) \<Longrightarrow> map_of cs c = Some v \<Longrightarrow> P v"
  by (auto dest!: map_of_SomeD)

lemma trie_wf_insert: "trie_wf n \<Longrightarrow> trie_wf (trie_insert n k i)"
proof (induction n k i rule: trie_insert.induct)
  case (2 cs t c k i)
  let ?child = "case map_of cs c of Some child \<Rightarrow> child | None \<Rightarrow> node_default"
  have "trie_wf ?child"
    using "2.prems" map_of_all [of cs trie_wf c] by (auto split: option.splits)
  with "2.IH" have "trie_wf (trie_insert ?child k i)" .
  with "2.prems" show ?case
    by (auto simp: sorted_bt_insert dest!: bt_insert_set)
qed simp

lemma sorted_distinct_keys: "sorted_wrt (<) (map fst cs) \<Longrightarrow> distinct (map fst (cs :: ('k::linorder \<times> 'v) list))"
  by (simp add: strict_sorted_iff)

text \<open>The indices collected below a node are those of the keys below it.\<close>

lemma set_collect_terminals: "trie_wf n \<Longrightarrow> set (collect_terminals n) = ran (trie_map n)"
proof (induction n rule: collect_terminals.induct)
  case (1 cs t)
  then have dist: "distinct (map fst cs)" by (simp add: sorted_distinct_keys)
  have sub: "set (collect_terminals (snd p)) = ran (trie_map (snd p))" if "p \<in> set cs" for p
    using 1 that by simp
  have "i \<in> ran (trie_map (Node cs t)) \<longleftrightarrow> t = Some i \<or> (\<exists>p \<in> set cs. i \<in> ran (trie_map (snd p)))" for i
  proof
    assume "i \<in> ran (trie_map (Node cs t))"
    then obtain k where k: "trie_map (Node cs t) k = Some i" by (auto simp: ran_def)
    show "t = Some i \<or> (\<exists>p \<in> set cs. i \<in> ran (trie_map (snd p)))"
    proof (cases k)
      case Nil
      with k show ?thesis by simp
    next
      case (Cons c k')
      with k obtain child where "map_of cs c = Some child" "trie_map child k' = Some i"
        by (auto split: option.splits)
      then show ?thesis by (force simp: ran_def dest: map_of_SomeD)
    qed
  next
    assume "t = Some i \<or> (\<exists>p \<in> set cs. i \<in> ran (trie_map (snd p)))"
    then show "i \<in> ran (trie_map (Node cs t))"
    proof
      assume "t = Some i"
      then have "trie_map (Node cs t) [] = Some i" by simp
      then show ?thesis by (rule ranI)
    next
      assume "\<exists>p \<in> set cs. i \<in> ran (trie_map (snd p))"
      then obtain c child k where "(c, child) \<in> set cs" and k: "trie_map child k = Some i"
        by (auto simp: ran_def)
      then have "map_of cs c = Some child" using dist by simp
      with k have "trie_map (Node cs t) (c # k) = Some i" by simp
      then show ?thesis by (rule ranI)
    qed
  qed
  then show ?case using sub by (auto split: option.splits)
qed

text \<open>\<open>sort\<close> then \<open>dedup\<close> is the ascending list of the set.\<close>

lemma remdups_adj_strict: "sorted xs \<Longrightarrow> sorted_wrt (<) (remdups_adj (xs :: 'a::linorder list))"
proof (induction xs rule: remdups_adj.induct)
  case (3 x y xs)
  then show ?case by (cases "x = y") auto
qed simp_all

lemma sort_dedup: "remdups_adj (sort xs) = sorted_list_of_set (set (xs :: nat list))"
proof -
  have s: "sorted_wrt (<) (remdups_adj (sort xs))"
    by (rule remdups_adj_strict) simp
  then have "sorted (remdups_adj (sort xs))" "distinct (remdups_adj (sort xs))"
    by (simp_all add: strict_sorted_iff)
  then show ?thesis
    using sorted_list_of_set.idem_if_sorted_distinct [of "remdups_adj (sort xs)"] by simp
qed

text \<open>A lookup, in terms of the map the trie stands for.\<close>

lemma trie_map_walk: "trie_walk n t = Some m \<Longrightarrow> trie_map m k = trie_map n (t @ k)"
  by (induction n t rule: trie_walk.induct) (auto split: option.splits)

lemma trie_walk_wf: "trie_wf n \<Longrightarrow> trie_walk n t = Some m \<Longrightarrow> trie_wf m"
proof (induction n t rule: trie_walk.induct)
  case (2 n c k)
  then obtain child where "map_of (node_children n) c = Some child" "trie_walk child k = Some m"
    by (auto split: option.splits)
  with 2 map_of_all [of "node_children n" trie_wf c] show ?case by (cases n) auto
qed simp

lemma trie_walk_None: "trie_walk n t = None \<Longrightarrow> trie_map n (t @ k) = None"
  by (induction n t rule: trie_walk.induct) (auto split: option.splits)

lemma trie_lookup_spec:
  assumes "trie_wf root"
  shows "trie_lookup root t = Exact i \<longleftrightarrow> trie_map root t = Some i"
    and "trie_lookup root t = Prefix is \<Longrightarrow>
      trie_map root t = None \<and> is = sorted_list_of_set {i. \<exists>r. trie_map root (t @ r) = Some i}"
    and "trie_lookup root t = NoMatch \<Longrightarrow> trie_map root (t @ r) = None"
proof -
  have sub: "set (collect_terminals m) = {i. \<exists>r. trie_map root (t @ r) = Some i}"
    if "trie_walk root t = Some m" for m
    using set_collect_terminals [OF trie_walk_wf [OF assms that]] trie_map_walk [OF that]
    by (auto simp: ran_def)
  show "trie_lookup root t = Exact i \<longleftrightarrow> trie_map root t = Some i"
    by (auto simp: trie_lookup_def trie_map_def split: option.splits)
  show "trie_map root t = None \<and> is = sorted_list_of_set {i. \<exists>r. trie_map root (t @ r) = Some i}"
    if "trie_lookup root t = Prefix is"
    using that sub by (auto simp: trie_lookup_def trie_map_def sort_dedup split: option.splits)
  show "trie_map root (t @ r) = None" if "trie_lookup root t = NoMatch"
    using that by (auto simp: trie_lookup_def trie_walk_None split: option.splits)
qed

text \<open>A trie built from a list of entries.\<close>

definition trie_of :: "(ustring \<times> nat) list \<Rightarrow> node" where
  "trie_of es = foldl (\<lambda>n (k, i). trie_insert n k i) node_default es"

lemma trie_of_wf: "trie_wf (trie_of es)"
proof -
  have "trie_wf n \<Longrightarrow> trie_wf (foldl (\<lambda>n (k, i). trie_insert n k i) n es)" for n
    by (induction es arbitrary: n) (auto simp: trie_wf_insert)
  then show ?thesis by (simp add: trie_of_def)
qed

lemma trie_of_map: "trie_map (trie_of es) k = map_of (rev es) k"
proof -
  have "trie_map (foldl (\<lambda>n (k, i). trie_insert n k i) n es) k =
      (case map_of (rev es) k of Some i \<Rightarrow> Some i | None \<Rightarrow> trie_map n k)" for n
    by (induction es arbitrary: n) (auto simp: trie_map_insert map_add_def split: option.splits)
  then show ?thesis by (simp add: trie_of_def split: option.split)
qed

section \<open>Properties\<close>

text \<open>
  Looking a token up in a trie built from any sequence of insertions is the reference
  search over the inserted names (the last insertion of a name counts): exact if the token is
  a name; otherwise the ascending, repetition-free list of the indices of all names that
  extend it; and when nothing is reported, no name extends it.
\<close>

theorem trie_lookup_is_search:
  "(trie_lookup (trie_of es) t = Exact i \<longleftrightarrow> map_of (rev es) t = Some i) \<and>
   (trie_lookup (trie_of es) t = Prefix is \<longrightarrow> map_of (rev es) t = None \<and>
      is = sorted_list_of_set {i. \<exists>r. map_of (rev es) (t @ r) = Some i}) \<and>
   (trie_lookup (trie_of es) t = NoMatch \<longrightarrow> (\<forall>r. map_of (rev es) (t @ r) = None))"
  using trie_lookup_spec [OF trie_of_wf [of es], of t] by (simp add: trie_of_map)

lemma trie_lookup_is_search_witness:
  "trie_lookup (trie_of [(lit ''north'', 0), (lit ''n'', 0), (lit ''nod'', 1)]) (lit ''no'') = Prefix [0, 1] \<and>
   trie_lookup (trie_of [(lit ''north'', 0), (lit ''n'', 0), (lit ''nod'', 1)]) (lit ''n'') = Exact 0"
proof -
  have "trie_lookup (trie_of [(lit ''north'', 0), (lit ''n'', 0), (lit ''nod'', 1)]) (lit ''no'') = Prefix [0, 1]"
    by code_simp
  moreover have "map_of (rev [(lit ''north'', 0), (lit ''n'', 0), (lit ''nod'', 1)]) (lit ''n'') = Some 0"
    by (simp add: lit_def)
  ultimately show ?thesis
    using trie_lookup_is_search [of "[(lit ''north'', 0), (lit ''n'', 0), (lit ''nod'', 1)]" "lit ''n''"] by blast
qed

end
