(* ===== verification/Command.thy ===== *)
theory Command
  imports Trie
begin

text \<open>
  The command model of crates/mud-cmd: tokens (token.rs), commands (command.rs), command sets
  and their merge (cmdset.rs) and the line parser over the merged table (parser.rs), with the
  source layers that the engine maps to priorities (crates/mud-engine/src/layers.rs). Names are
  ordered by their text; the merge visits them in that order, as the \<open>BTreeSet\<close> does.
  \<open>to_lowercase\<close> is Unicode case mapping and is the parameter \<open>lower\<close> of the parser.
\<close>

section \<open>Tokens\<close>

definition token_char :: "rchar \<Rightarrow> bool" where
  "token_char c \<longleftrightarrow> is_ascii_lower c \<or> is_ascii_digit c \<or> c = ch CHR ''_'' \<or> c = ch CHR ''-''"

definition first_invalid_token_char :: "ustring \<Rightarrow> rchar option" where
  "first_invalid_token_char value = find_char (\<lambda>c. \<not> token_char c) value"

datatype token_error = TokenEmpty | TokenInvalid rchar

datatype command_name = CommandName (name_str: ustring)

definition CommandName_parse :: "ustring \<Rightarrow> token_error + command_name" where
  "CommandName_parse v =
     (if v = [] then Inl TokenEmpty
      else (case first_invalid_token_char v of
          Some bad \<Rightarrow> Inl (TokenInvalid bad)
        | None \<Rightarrow> Inr (CommandName v)))"

datatype switch = Switch (switch_str: ustring)

definition Switch_parse :: "ustring \<Rightarrow> token_error + switch" where
  "Switch_parse v =
     (if v = [] then Inl TokenEmpty
      else (case first_invalid_token_char v of
          Some bad \<Rightarrow> Inl (TokenInvalid bad)
        | None \<Rightarrow> Inr (Switch v)))"

datatype cmdset_key = CmdSetKey (cmdset_key_str: ustring)

definition CmdSetKey_parse :: "ustring \<Rightarrow> token_error + cmdset_key" where
  "CmdSetKey_parse v =
     (if v = [] then Inl TokenEmpty
      else (case first_invalid_token_char v of
          Some bad \<Rightarrow> Inl (TokenInvalid bad)
        | None \<Rightarrow> Inr (CmdSetKey v)))"

text \<open>\<open>derive(PartialOrd, Ord)\<close> on the name newtype compares the text.\<close>

instantiation command_name :: linorder
begin

definition less_eq_command_name :: "command_name \<Rightarrow> command_name \<Rightarrow> bool" where
  "less_eq_command_name a b \<longleftrightarrow> name_str a \<le> name_str b"

definition less_command_name :: "command_name \<Rightarrow> command_name \<Rightarrow> bool" where
  "less_command_name a b \<longleftrightarrow> name_str a < name_str b"

instance
  by standard
    (auto simp: less_eq_command_name_def less_command_name_def intro: command_name.expand)

end

section \<open>Commands and sets\<close>

record command =
  cmd_name :: command_name
  cmd_aliases :: "command_name list"
  cmd_switches :: "switch list"

definition command_def_new :: "command_name \<Rightarrow> command" where
  "command_def_new n = \<lparr>cmd_name = n, cmd_aliases = [], cmd_switches = []\<rparr>"

definition with_alias :: "command \<Rightarrow> command_name \<Rightarrow> command" where
  "with_alias c a = c\<lparr>cmd_aliases := cmd_aliases c @ [a]\<rparr>"

definition with_switch :: "command \<Rightarrow> switch \<Rightarrow> command" where
  "with_switch c s = c\<lparr>cmd_switches := cmd_switches c @ [s]\<rparr>"

definition command_names :: "command \<Rightarrow> command_name list" where
  "command_names c = cmd_name c # cmd_aliases c"

text \<open>\<open>Priority(i32)\<close> is only ever compared.\<close>

type_synonym priority = int

datatype token_kind = Alias | Canonical

datatype merge_type = MergeUnion | MergeReplace | MergeRemove

record cmdset =
  set_key :: cmdset_key
  set_priority :: priority
  set_mergetype :: merge_type
  set_commands :: "command list"

section \<open>The merge\<close>

text \<open>\<open>keep_higher\<close>: an equal priority keeps the earlier winner.\<close>

definition keep_higher ::
  "(priority \<times> command) option \<Rightarrow> priority \<Rightarrow> command \<Rightarrow> (priority \<times> command) option" where
  "keep_higher best p candidate =
     (if (case best of Some (current, _) \<Rightarrow> p > current | None \<Rightarrow> True)
      then Some (p, candidate) else best)"

text \<open>The two nested loops visit the commands of all sets in order.\<close>

definition entries :: "cmdset list \<Rightarrow> (cmdset \<times> command) list" where
  "entries sets = concat (map (\<lambda>s. map (Pair s) (set_commands s)) sets)"

fun resolve_loop ::
  "command_name \<Rightarrow> (cmdset \<times> command) list \<Rightarrow> (priority \<times> command) option \<Rightarrow>
     (priority \<times> command) option \<Rightarrow> (priority \<times> command) option" where
  "resolve_loop name [] best_union best_replace =
     (case best_replace of Some r \<Rightarrow> Some r | None \<Rightarrow> best_union)"
| "resolve_loop name ((s, c) # rest) best_union best_replace =
     (if cmd_name c \<noteq> name then resolve_loop name rest best_union best_replace
      else (case set_mergetype s of
          MergeRemove \<Rightarrow> None
        | MergeReplace \<Rightarrow> resolve_loop name rest best_union (keep_higher best_replace (set_priority s) c)
        | MergeUnion \<Rightarrow> resolve_loop name rest (keep_higher best_union (set_priority s) c) best_replace))"

definition resolve_name :: "cmdset list \<Rightarrow> command_name \<Rightarrow> (priority \<times> command) option" where
  "resolve_name sets name = resolve_loop name (entries sets) None None"

text \<open>
  A claim on a token: the derived order of the tuple \<open>(Priority, TokenKind, Reverse(index))\<close>.
\<close>

type_synonym rank = "priority \<times> token_kind \<times> nat"

fun kind_less :: "token_kind \<Rightarrow> token_kind \<Rightarrow> bool" where
  "kind_less Alias Canonical = True"
| "kind_less _ _ = False"

fun rank_less :: "rank \<Rightarrow> rank \<Rightarrow> bool" where
  "rank_less (p, k, i) (p', k', i') \<longleftrightarrow>
     p < p' \<or> (p = p' \<and> (kind_less k k' \<or> (k = k' \<and> i' < i)))"

definition claims :: "priority \<times> command \<Rightarrow> nat \<Rightarrow> (ustring \<times> rank) list" where
  "claims pc index =
     (name_str (cmd_name (snd pc)), (fst pc, Canonical, index)) #
     map (\<lambda>a. (name_str a, (fst pc, Alias, index))) (cmd_aliases (snd pc))"

text \<open>\<open>entry(token).and_modify(...).or_insert(rank)\<close>.\<close>

definition claim_token :: "(ustring \<times> rank) list \<Rightarrow> ustring \<times> rank \<Rightarrow> (ustring \<times> rank) list" where
  "claim_token owner cl =
     (case map_of owner (fst cl) of
        None \<Rightarrow> bt_insert (fst cl) (snd cl) owner
      | Some current \<Rightarrow>
          (if rank_less current (snd cl) then bt_insert (fst cl) (snd cl) owner else owner))"

definition token_owners :: "(priority \<times> command) list \<Rightarrow> (ustring \<times> rank) list" where
  "token_owners resolved =
     foldl claim_token [] (concat (map (\<lambda>(index, pc). claims pc index) (enumerate 0 resolved)))"

definition settle_token_ownership :: "(priority \<times> command) list \<Rightarrow> node" where
  "settle_token_ownership resolved =
     trie_of (map (\<lambda>(token, (_, _, index)). (token, index)) (token_owners resolved))"

record command_table =
  tab_commands :: "command list"
  tab_trie :: node

definition all_names :: "cmdset list \<Rightarrow> command_name list" where
  "all_names sets = sorted_list_of_set (set (map (\<lambda>(s, c). cmd_name c) (entries sets)))"

definition resolved_commands :: "cmdset list \<Rightarrow> (priority \<times> command) list" where
  "resolved_commands sets = List.map_filter (resolve_name sets) (all_names sets)"

definition merge :: "cmdset list \<Rightarrow> command_table" where
  "merge sets =
     \<lparr>tab_commands = map snd (resolved_commands sets),
      tab_trie = settle_token_ownership (resolved_commands sets)\<rparr>"

section \<open>The line parser\<close>

datatype parse_outcome =
    Empty
  | NotFound
  | Ambiguous "command_name list"
  | BadSwitch token_error
  | Matched (m_command: command) (m_switches: "switch list") (m_args: ustring)

definition table_get :: "command_table \<Rightarrow> command_name \<Rightarrow> command option" where
  "table_get tab name =
     (case trie_lookup (tab_trie tab) (name_str name) of
        Exact index \<Rightarrow> vec_get (tab_commands tab) index
      | Prefix _ \<Rightarrow> None
      | NoMatch \<Rightarrow> None)"

definition matched :: "command_table \<Rightarrow> nat \<Rightarrow> switch list \<Rightarrow> ustring \<Rightarrow> parse_outcome" where
  "matched tab index switches args =
     (case vec_get (tab_commands tab) index of
        Some command \<Rightarrow> Matched command switches args
      | None \<Rightarrow> NotFound)"

definition canonical_names :: "command_table \<Rightarrow> nat list \<Rightarrow> command_name list" where
  "canonical_names tab indices =
     map cmd_name (List.map_filter (vec_get (tab_commands tab)) indices)"

text \<open>\<open>line.trim().splitn(2, char::is_whitespace)\<close>: head and, after one separator, the rest.\<close>

definition split_head :: "ustring \<Rightarrow> ustring \<times> ustring" where
  "split_head s =
     (takeWhile (\<lambda>c. \<not> is_whitespace c) s, drop 1 (dropWhile (\<lambda>c. \<not> is_whitespace c) s))"

text \<open>The switches in order, or the first error.\<close>

fun parse_switches :: "ustring list \<Rightarrow> token_error + switch list" where
  "parse_switches [] = Inr []"
| "parse_switches (s # ss) =
     (case Switch_parse s of
        Inl e \<Rightarrow> Inl e
      | Inr sw \<Rightarrow> bindE (parse_switches ss) (\<lambda>sws. Inr (sw # sws)))"

definition resolve_token ::
  "command_table \<Rightarrow> ustring \<Rightarrow> switch list \<Rightarrow> ustring \<Rightarrow> parse_outcome" where
  "resolve_token tab token switches args =
     (case trie_lookup (tab_trie tab) token of
        Exact index \<Rightarrow> matched tab index switches args
      | Prefix indices \<Rightarrow>
          (case indices of
             [single] \<Rightarrow> matched tab single switches args
           | [] \<Rightarrow> NotFound
           | _ \<Rightarrow> Ambiguous (canonical_names tab indices))
      | NoMatch \<Rightarrow> NotFound)"

definition parse_line :: "(ustring \<Rightarrow> ustring) \<Rightarrow> command_table \<Rightarrow> ustring \<Rightarrow> parse_outcome" where
  "parse_line lower tab line =
     (let head = fst (split_head (trim line)); args = trim (snd (split_head (trim line))) in
      if head = [] then Empty
      else
        (case split_on (ch CHR ''/'') (lower head) of
           [] \<Rightarrow> NotFound
         | token # segments \<Rightarrow>
             (if token = [] then NotFound
              else (case parse_switches segments of
                  Inl e \<Rightarrow> BadSwitch e
                | Inr switches \<Rightarrow> resolve_token tab token switches args))))"

section \<open>Source layers\<close>

definition ACCOUNT :: int where "ACCOUNT = 50"
definition PUPPET :: int where "PUPPET = 40"
definition CONTAINER :: int where "CONTAINER = 30"
definition LOCATION :: int where "LOCATION = 20"
definition CHANNEL :: int where "CHANNEL = 10"
definition BUILTIN :: int where "BUILTIN = 0"

lemmas layer_defs = ACCOUNT_def PUPPET_def CONTAINER_def LOCATION_def CHANNEL_def BUILTIN_def

record layer_commands =
  lay_account :: "command list"
  lay_puppet :: "command list"
  lay_containers :: "command list list"
  lay_location :: "command list"
  lay_channels :: "command list"
  lay_builtins :: "command list"

definition push_layer :: "cmdset list \<Rightarrow> ustring \<Rightarrow> int \<Rightarrow> command list \<Rightarrow> cmdset list" where
  "push_layer sets key level cmds =
     (if cmds = [] then sets
      else (case CmdSetKey_parse key of
          Inl _ \<Rightarrow> sets
        | Inr k \<Rightarrow> sets @ [\<lparr>set_key = k, set_priority = level, set_mergetype = MergeUnion, set_commands = cmds\<rparr>]))"

definition layer_sets :: "layer_commands \<Rightarrow> cmdset list" where
  "layer_sets l =
     (let s1 = push_layer [] (lit ''account'') ACCOUNT (lay_account l);
          s2 = push_layer s1 (lit ''puppet'') PUPPET (lay_puppet l);
          s3 = foldl (\<lambda>s c. push_layer s (lit ''container'') CONTAINER c) s2 (lay_containers l);
          s4 = push_layer s3 (lit ''location'') LOCATION (lay_location l);
          s5 = push_layer s4 (lit ''channels'') CHANNEL (lay_channels l)
      in push_layer s5 (lit ''builtins'') BUILTIN (lay_builtins l))"

definition merge_layers :: "layer_commands \<Rightarrow> command_table" where
  "merge_layers l = merge (layer_sets l)"

section \<open>Which command wins a name\<close>

definition best_of :: "(priority \<times> command) option \<Rightarrow> (priority \<times> command) list \<Rightarrow> (priority \<times> command) option" where
  "best_of b xs = foldl (\<lambda>b (p, c). keep_higher b p c) b xs"

lemma best_of_simps [simp]:
  "best_of b [] = b"
  "best_of b ((p, c) # xs) = best_of (keep_higher b p c) xs"
  by (simp_all add: best_of_def)

text \<open>The contributions to a name under one merge rule, in input order.\<close>

definition contributions :: "merge_type \<Rightarrow> command_name \<Rightarrow> (cmdset \<times> command) list \<Rightarrow> (priority \<times> command) list" where
  "contributions m n es =
     map (\<lambda>(s, c). (set_priority s, c)) (filter (\<lambda>(s, c). cmd_name c = n \<and> set_mergetype s = m) es)"

lemma contributions_simps [simp]:
  "contributions m n [] = []"
  "contributions m n ((s, c) # es) =
     (if cmd_name c = n \<and> set_mergetype s = m then [(set_priority s, c)] else []) @ contributions m n es"
  by (simp_all add: contributions_def)

lemma contributions_iff:
  "(p, c) \<in> set (contributions m n es) \<longleftrightarrow>
     (\<exists>s. (s, c) \<in> set es \<and> cmd_name c = n \<and> set_mergetype s = m \<and> set_priority s = p)"
  by (auto simp: contributions_def)

lemma resolve_loop_eq:
  "resolve_loop n es bu br =
     (if contributions MergeRemove n es \<noteq> [] then None
      else (case best_of br (contributions MergeReplace n es) of
          Some r \<Rightarrow> Some r
        | None \<Rightarrow> best_of bu (contributions MergeUnion n es)))"
  by (induction n es bu br rule: resolve_loop.induct) (auto split: merge_type.splits cong: option.case_cong)

lemma keep_higher_not_None [simp]: "keep_higher b p c \<noteq> None"
  by (auto simp: keep_higher_def split: option.splits)

lemma best_of_None [simp]: "best_of b xs = None \<longleftrightarrow> b = None \<and> xs = []"
proof (induction xs arbitrary: b)
  case (Cons x xs)
  then show ?case by (cases x) simp
qed simp

lemma keep_higher_cases:
  "keep_higher b p c = Some r \<Longrightarrow>
     (r = (p, c) \<and> (\<forall>q d. b = Some (q, d) \<longrightarrow> q < p)) \<or> (b = Some r \<and> p \<le> fst r)"
  by (cases r) (auto simp: keep_higher_def split: option.splits if_splits)

lemma best_of_Some:
  assumes "best_of b xs = Some (p, c)"
  shows "((p, c) \<in> set xs \<or> b = Some (p, c)) \<and> (\<forall>(q, d) \<in> set xs. q \<le> p) \<and>
    (\<forall>q d. b = Some (q, d) \<longrightarrow> q \<le> p)"
  using assms
proof (induction xs arbitrary: b)
  case (Cons x xs)
  obtain q d where x: "x = (q, d)" by (cases x)
  from Cons.prems have "best_of (keep_higher b q d) xs = Some (p, c)" by (simp add: x)
  from Cons.IH [OF this] obtain r where r: "keep_higher b q d = Some r"
      and ih: "(p, c) \<in> set xs \<or> r = (p, c)" "\<forall>(q, d) \<in> set xs. q \<le> p" "fst r \<le> p"
    by (cases "keep_higher b q d") auto
  from keep_higher_cases [OF r] ih show ?case by (auto simp: x)
qed auto

lemma resolve_name_Some:
  assumes "resolve_name sets n = Some (p, c)"
  shows "contributions MergeRemove n (entries sets) = [] \<and>
    (if contributions MergeReplace n (entries sets) \<noteq> []
     then (p, c) \<in> set (contributions MergeReplace n (entries sets)) \<and>
       (\<forall>(q, d) \<in> set (contributions MergeReplace n (entries sets)). q \<le> p)
     else (p, c) \<in> set (contributions MergeUnion n (entries sets)) \<and>
       (\<forall>(q, d) \<in> set (contributions MergeUnion n (entries sets)). q \<le> p))"
proof (cases "best_of None (contributions MergeReplace n (entries sets))")
  case None
  with assms best_of_Some [of None "contributions MergeUnion n (entries sets)" p c] show ?thesis
    by (auto simp: resolve_name_def resolve_loop_eq split: if_splits)
next
  case (Some r)
  with assms have "r = (p, c)" by (simp add: resolve_name_def resolve_loop_eq split: if_splits)
  with Some assms best_of_Some [of None "contributions MergeReplace n (entries sets)" p c] show ?thesis
    by (auto simp: resolve_name_def resolve_loop_eq split: if_splits)
qed

lemma resolve_name_name: "resolve_name sets n = Some (p, c) \<Longrightarrow> cmd_name c = n \<and> (\<exists>s. (s, c) \<in> set (entries sets))"
  using resolve_name_Some [of sets n p c] by (auto simp: contributions_iff split: if_splits)

section \<open>Which command owns a token\<close>

lemma kind_less_linear: "kind_less k k' \<or> k = k' \<or> kind_less k' k"
  by (cases k; cases k') simp_all

lemma kind_less_trans: "kind_less k k' \<Longrightarrow> kind_less k' k'' \<Longrightarrow> kind_less k k''"
  by (cases k; cases k'; cases k'') simp_all

lemma kind_less_irrefl [simp]: "\<not> kind_less k k"
  by (cases k) simp_all

lemma rank_less_linear: "rank_less a b \<or> a = b \<or> rank_less b a"
  using kind_less_linear by (cases a; cases b) (auto simp: not_less)

lemma rank_less_trans: "rank_less a b \<Longrightarrow> rank_less b c \<Longrightarrow> rank_less a c"
  by (cases a; cases b; cases c) (auto dest: kind_less_trans)

lemma rank_less_irrefl [simp]: "\<not> rank_less a a"
  by (cases a) simp

lemma map_of_claim_token:
  "map_of (claim_token owner (t, rk)) t' =
     (if t' = t then
        (case map_of owner t of
           None \<Rightarrow> Some rk
         | Some current \<Rightarrow> Some (if rank_less current rk then rk else current))
      else map_of owner t')"
  by (auto simp: claim_token_def split: option.splits)

text \<open>After all claims, the owner of a token holds its strongest claim.\<close>

lemma claim_tokens_owner:
  "(\<exists>rk. (t, rk) \<in> set cls) \<or> map_of owner t \<noteq> None \<Longrightarrow>
   \<exists>best. map_of (foldl claim_token owner cls) t = Some best \<and>
     ((t, best) \<in> set cls \<or> map_of owner t = Some best) \<and>
     (\<forall>rk. (t, rk) \<in> set cls \<or> map_of owner t = Some rk \<longrightarrow> rank_less rk best \<or> rk = best)"
proof (induction cls arbitrary: owner)
  case Nil
  then show ?case by auto
next
  case (Cons cl cls)
  obtain u rk where cl: "cl = (u, rk)" by (cases cl)
  let ?o = "claim_token owner (u, rk)"
  have "(\<exists>rk. (t, rk) \<in> set cls) \<or> map_of ?o t \<noteq> None"
    using Cons.prems by (auto simp: cl map_of_claim_token simp del: split_paired_Ex split: option.splits)
  from Cons.IH [OF this] obtain best where
    b: "map_of (foldl claim_token ?o cls) t = Some best"
      "(t, best) \<in> set cls \<or> map_of ?o t = Some best"
      "\<forall>rk. (t, rk) \<in> set cls \<or> map_of ?o t = Some rk \<longrightarrow> rank_less rk best \<or> rk = best"
    by blast
  have in_cl: "(t, best) \<in> set (cl # cls) \<or> map_of owner t = Some best"
    using b(2) by (auto simp: cl map_of_claim_token split: option.splits if_splits)
  have max: "rank_less q best \<or> q = best" if "(t, q) \<in> set (cl # cls) \<or> map_of owner t = Some q" for q
  proof (cases "(t, q) \<in> set cls")
    case True
    then show ?thesis using b(3) by blast
  next
    case False
    show ?thesis
    proof (cases "u = t")
      case True
      have q: "q = rk \<or> map_of owner t = Some q"
        using that False True by (auto simp: cl simp del: split_paired_Ex)
      obtain cur where cur: "map_of ?o t = Some cur" and "rank_less q cur \<or> q = cur"
      proof (cases "map_of owner t")
        case None
        with q True show thesis by (intro that [of rk]) (simp_all add: map_of_claim_token)
      next
        case (Some c)
        with q True rank_less_linear [of c rk] show thesis
          by (intro that [of "if rank_less c rk then rk else c"])
            (auto simp: map_of_claim_token simp del: split_paired_Ex split_paired_All)
      qed
      with b(3) rank_less_trans show ?thesis by blast
    next
      case ne: False
      with that False have "map_of ?o t = Some q" by (auto simp: cl map_of_claim_token)
      with b(3) show ?thesis by blast
    qed
  qed
  show ?case using b(1) in_cl max by (auto simp: cl)
qed

text \<open>The claims of a list of resolved commands, by position.\<close>

definition all_claims :: "(priority \<times> command) list \<Rightarrow> (ustring \<times> rank) list" where
  "all_claims resolved = concat (map (\<lambda>(index, pc). claims pc index) (enumerate 0 resolved))"

definition kind_names :: "token_kind \<Rightarrow> command \<Rightarrow> command_name set" where
  "kind_names k c = (case k of Canonical \<Rightarrow> {cmd_name c} | Alias \<Rightarrow> set (cmd_aliases c))"

lemma kind_names_all: "n \<in> set (command_names c) \<longleftrightarrow> (\<exists>k. n \<in> kind_names k c)"
proof
  assume "n \<in> set (command_names c)"
  then have "n \<in> kind_names Canonical c \<or> n \<in> kind_names Alias c"
    by (auto simp: command_names_def kind_names_def)
  then show "\<exists>k. n \<in> kind_names k c" by blast
next
  assume "\<exists>k. n \<in> kind_names k c"
  then obtain k where "n \<in> kind_names k c" ..
  then show "n \<in> set (command_names c)"
    by (cases k) (auto simp: command_names_def kind_names_def)
qed

lemma claims_iff:
  "(t, p, k, i) \<in> set (claims pc j) \<longleftrightarrow>
     i = j \<and> p = fst pc \<and> (\<exists>n \<in> kind_names k (snd pc). name_str n = t)"
  by (cases k) (auto simp: claims_def kind_names_def)

lemma all_claims_iff:
  "(t, p, k, i) \<in> set (all_claims r) \<longleftrightarrow>
     i < length r \<and> p = fst (r ! i) \<and> (\<exists>n \<in> kind_names k (snd (r ! i)). name_str n = t)"
proof -
  have "(t, p, k, i) \<in> set (all_claims r) \<longleftrightarrow>
      (\<exists>j pc. (j, pc) \<in> set (enumerate 0 r) \<and> (t, p, k, i) \<in> set (claims pc j))"
    by (auto simp: all_claims_def)
  also have "\<dots> \<longleftrightarrow> (\<exists>j<length r. (t, p, k, i) \<in> set (claims (r ! j) j))"
    by (auto simp: in_set_enumerate_eq)
  finally show ?thesis by (auto simp: claims_iff)
qed

lemma sorted_claim_token:
  "sorted_wrt (<) (map fst owner) \<Longrightarrow> sorted_wrt (<) (map fst (claim_token owner cl))"
  by (simp add: claim_token_def sorted_bt_insert split: option.split)

lemma sorted_token_owners: "sorted_wrt (<) (map fst (token_owners r))"
proof -
  have "sorted_wrt (<) (map fst o') \<Longrightarrow> sorted_wrt (<) (map fst (foldl claim_token o' cls))" for o' cls
    by (induction cls arbitrary: o') (simp_all add: sorted_claim_token)
  then show ?thesis by (simp add: token_owners_def)
qed

lemma settle_map:
  "trie_map (settle_token_ownership r) t = map_option (\<lambda>(_, _, i). i) (map_of (token_owners r) t)"
proof -
  let ?f = "\<lambda>(token, (_, _, index)). (token, index)"
  have "map fst (map ?f es) = map fst es" for es :: "(ustring \<times> rank) list"
    by (induction es) auto
  then have "distinct (map fst (map ?f (token_owners r)))"
    using sorted_distinct_keys [OF sorted_token_owners [of r]] by metis
  then have "map_of (rev (map ?f (token_owners r))) = map_of (map ?f (token_owners r))"
    by (intro map_of_inject_set [THEN iffD2]) (auto simp flip: rev_map)
  moreover have "map_of (map ?f es) t = map_option (\<lambda>(_, _, i). i) (map_of es t)" for es :: "(ustring \<times> rank) list"
    by (induction es) auto
  ultimately show ?thesis
    by (simp add: settle_token_ownership_def trie_of_map)
qed

text \<open>A token is owned exactly if some command claims it, and by the strongest claim.\<close>

lemma settle_Some:
  "trie_map (settle_token_ownership r) t = Some i \<Longrightarrow>
     i < length r \<and> (\<exists>k. (\<exists>n \<in> kind_names k (snd (r ! i)). name_str n = t) \<and>
       (\<forall>k' j. j < length r \<longrightarrow> (\<exists>n \<in> kind_names k' (snd (r ! j)). name_str n = t) \<longrightarrow>
          rank_less (fst (r ! j), k', j) (fst (r ! i), k, i) \<or> (k' = k \<and> j = i)))"
proof -
  assume "trie_map (settle_token_ownership r) t = Some i"
  then obtain p k where o': "map_of (token_owners r) t = Some (p, k, i)" by (auto simp: settle_map)
  have claimed: "\<exists>rk. (t, rk) \<in> set (all_claims r)"
  proof (rule ccontr)
    assume "\<nexists>rk. (t, rk) \<in> set (all_claims r)"
    then have "map_of (foldl claim_token o' cls) t = map_of o' t"
      if "set cls \<subseteq> set (all_claims r)" for o' cls
      using that
    proof (induction cls arbitrary: o')
      case (Cons cl cls)
      then show ?case by (cases cl) (auto simp: map_of_claim_token)
    qed simp
    with o' show False by (simp add: token_owners_def flip: all_claims_def)
  qed
  have best: "(t, p, k, i) \<in> set (all_claims r)"
      "\<forall>rk. (t, rk) \<in> set (all_claims r) \<longrightarrow> rank_less rk (p, k, i) \<or> rk = (p, k, i)"
    using claim_tokens_owner [of t "all_claims r" "[]"] claimed o'
    by (auto simp: token_owners_def simp del: split_paired_Ex split_paired_All simp flip: all_claims_def)
  from best(1) have i: "i < length r" "p = fst (r ! i)" "\<exists>n \<in> kind_names k (snd (r ! i)). name_str n = t"
    by (simp_all add: all_claims_iff)
  have "rank_less (fst (r ! j), k', j) (p, k, i) \<or> (k' = k \<and> j = i)"
    if "j < length r" "\<exists>n \<in> kind_names k' (snd (r ! j)). name_str n = t" for k' j
    using best(2) that all_claims_iff [of t "fst (r ! j)" k' j r] by blast
  with i show ?thesis by blast
qed

lemma settle_claimed:
  assumes "i < length r" and "n \<in> set (command_names (snd (r ! i)))"
  shows "trie_map (settle_token_ownership r) (name_str n) \<noteq> None"
proof -
  obtain k where "n \<in> kind_names k (snd (r ! i))" using assms(2) by (auto simp: kind_names_all)
  with assms(1) have "(name_str n, fst (r ! i), k, i) \<in> set (all_claims r)"
    by (auto simp: all_claims_iff)
  then have "\<exists>rk. (name_str n, rk) \<in> set (all_claims r)" by blast
  with claim_tokens_owner [of "name_str n" "all_claims r" "[]"]
  have "map_of (token_owners r) (name_str n) \<noteq> None"
    by (auto simp: token_owners_def simp del: split_paired_Ex split_paired_All simp flip: all_claims_def)
  then show ?thesis by (auto simp: settle_map)
qed

section \<open>What a token resolves to\<close>

lemma in_map_filter: "y \<in> set (List.map_filter f xs) \<longleftrightarrow> (\<exists>x \<in> set xs. f x = Some y)"
  by (induction xs) (auto simp: map_filter_simps split: option.splits)

lemma in_all_names: "n \<in> set (all_names sets) \<longleftrightarrow> (\<exists>(s, c) \<in> set (entries sets). cmd_name c = n)"
  by (force simp: all_names_def)

lemma resolved_nth:
  "(p, c) \<in> set (resolved_commands sets) \<longleftrightarrow> resolve_name sets (cmd_name c) = Some (p, c)"
proof
  assume "(p, c) \<in> set (resolved_commands sets)"
  then obtain n where "resolve_name sets n = Some (p, c)"
    by (auto simp: resolved_commands_def in_map_filter)
  then show "resolve_name sets (cmd_name c) = Some (p, c)" using resolve_name_name by blast
next
  assume r: "resolve_name sets (cmd_name c) = Some (p, c)"
  then have "cmd_name c \<in> set (all_names sets)"
    using resolve_name_name [OF r] by (auto simp: in_all_names)
  with r show "(p, c) \<in> set (resolved_commands sets)"
    by (auto simp: resolved_commands_def in_map_filter)
qed

lemma merge_commands: "tab_commands (merge sets) = map snd (resolved_commands sets)"
  by (simp add: merge_def)

lemma merge_trie_wf: "trie_wf (tab_trie (merge sets))"
  by (simp add: merge_def settle_token_ownership_def trie_of_wf)

text \<open>Every name of a command of the table leads somewhere, and always to a command with that name.\<close>

lemma merge_trie_sound:
  assumes "trie_map (tab_trie (merge sets)) t = Some i"
  shows "i < length (tab_commands (merge sets)) \<and>
    (\<exists>n \<in> set (command_names (tab_commands (merge sets) ! i)). name_str n = t)"
proof -
  let ?r = "resolved_commands sets"
  have "trie_map (settle_token_ownership ?r) t = Some i" using assms by (simp add: merge_def)
  then obtain k n where "i < length ?r" "n \<in> kind_names k (snd (?r ! i))" "name_str n = t"
    using settle_Some by blast
  moreover from this have "n \<in> set (command_names (snd (?r ! i)))" using kind_names_all by blast
  ultimately show ?thesis by (auto simp: merge_commands)
qed

lemma merge_trie_complete:
  assumes "c \<in> set (tab_commands (merge sets))" and "n \<in> set (command_names c)"
  shows "trie_map (tab_trie (merge sets)) (name_str n) \<noteq> None"
proof -
  from assms(1) obtain i where "i < length (resolved_commands sets)" "c = snd (resolved_commands sets ! i)"
    by (auto simp: in_set_conv_nth merge_commands)
  with assms(2) settle_claimed [of i "resolved_commands sets" n] show ?thesis by (simp add: merge_def)
qed

text \<open>The names of the table that extend a token.\<close>

definition extends_token :: "ustring \<Rightarrow> command \<Rightarrow> bool" where
  "extends_token t c \<longleftrightarrow> (\<exists>n \<in> set (command_names c). \<exists>r. name_str n = t @ r)"

definition has_name :: "ustring \<Rightarrow> command \<Rightarrow> bool" where
  "has_name t c \<longleftrightarrow> (\<exists>n \<in> set (command_names c). name_str n = t)"

lemma has_name_extends: "has_name t c \<Longrightarrow> extends_token t c"
  unfolding has_name_def extends_token_def by (metis append_Nil2)

lemma matched_in_range:
  "i < length (tab_commands tab) \<Longrightarrow> matched tab i sw args = Matched (tab_commands tab ! i) sw args"
  by (simp add: matched_def vec_get_def)

lemma merge_prefix_indices:
  assumes "trie_lookup (tab_trie (merge sets)) t = Prefix ixs"
  shows "\<forall>i \<in> set ixs. i < length (tab_commands (merge sets)) \<and> extends_token t (tab_commands (merge sets) ! i)"
    and "distinct ixs" and "\<forall>c \<in> set (tab_commands (merge sets)). extends_token t c \<longrightarrow> ixs \<noteq> []"
    and "\<forall>c \<in> set (tab_commands (merge sets)). \<not> has_name t c"
proof -
  let ?tab = "merge sets"
  have none: "trie_map (tab_trie ?tab) t = None"
    and idx: "ixs = sorted_list_of_set {i. \<exists>r. trie_map (tab_trie ?tab) (t @ r) = Some i}"
    using trie_lookup_spec(2) [OF merge_trie_wf assms] by simp_all
  let ?I = "{i. \<exists>r. trie_map (tab_trie ?tab) (t @ r) = Some i}"
  have "?I \<subseteq> {..<length (tab_commands ?tab)}" using merge_trie_sound by auto
  then have fin: "finite ?I" using finite_subset by blast
  then have set_is: "set ixs = ?I" using idx by simp
  show "\<forall>i \<in> set ixs. i < length (tab_commands ?tab) \<and> extends_token t (tab_commands ?tab ! i)"
    unfolding set_is extends_token_def using merge_trie_sound by blast
  show "distinct ixs" using idx by simp
  show "\<forall>c \<in> set (tab_commands ?tab). extends_token t c \<longrightarrow> ixs \<noteq> []"
  proof (intro ballI impI)
    fix c assume "c \<in> set (tab_commands ?tab)" "extends_token t c"
    then obtain n r where "n \<in> set (command_names c)" "name_str n = t @ r"
      by (auto simp: extends_token_def)
    with merge_trie_complete \<open>c \<in> set (tab_commands ?tab)\<close>
    have "trie_map (tab_trie ?tab) (t @ r) \<noteq> None" by metis
    then have "?I \<noteq> {}" by auto
    with set_is show "ixs \<noteq> []" by auto
  qed
  show "\<forall>c \<in> set (tab_commands ?tab). \<not> has_name t c"
  proof (intro ballI notI)
    fix c assume c: "c \<in> set (tab_commands ?tab)" and "has_name t c"
    then obtain n where "n \<in> set (command_names c)" "name_str n = t" by (auto simp: has_name_def)
    with none merge_trie_complete [OF c] show False by blast
  qed
qed

lemma resolve_token_exact:
  assumes "c \<in> set (tab_commands (merge sets))" and "has_name t c"
  shows "\<exists>c' \<in> set (tab_commands (merge sets)). has_name t c' \<and>
    resolve_token (merge sets) t sw args = Matched c' sw args"
proof -
  let ?tab = "merge sets"
  obtain n where n: "n \<in> set (command_names c)" "name_str n = t" using assms(2) by (auto simp: has_name_def)
  then obtain i where i: "trie_map (tab_trie ?tab) t = Some i"
    using merge_trie_complete [OF assms(1)] by blast
  then have "trie_lookup (tab_trie ?tab) t = Exact i" using trie_lookup_spec(1) [OF merge_trie_wf] by blast
  moreover note s = merge_trie_sound [OF i]
  ultimately have "resolve_token ?tab t sw args = Matched (tab_commands ?tab ! i) sw args"
    by (simp add: resolve_token_def matched_in_range)
  with s show ?thesis by (auto simp: has_name_def intro: nth_mem)
qed

lemma resolve_token_cases:
  obtains
    (matched) c where "resolve_token (merge sets) t sw args = Matched c sw args"
      "c \<in> set (tab_commands (merge sets))" "extends_token t c"
  | (none) "resolve_token (merge sets) t sw args = NotFound"
      "\<forall>c \<in> set (tab_commands (merge sets)). \<not> extends_token t c"
  | (many) ixs where "resolve_token (merge sets) t sw args = Ambiguous (canonical_names (merge sets) ixs)"
      "distinct ixs" "2 \<le> length ixs" "\<forall>c \<in> set (tab_commands (merge sets)). \<not> has_name t c"
      "\<forall>i \<in> set ixs. i < length (tab_commands (merge sets)) \<and> extends_token t (tab_commands (merge sets) ! i)"
proof (cases "trie_lookup (tab_trie (merge sets)) t")
  case (Exact i)
  then have i: "trie_map (tab_trie (merge sets)) t = Some i"
    using trie_lookup_spec(1) [OF merge_trie_wf] by blast
  from merge_trie_sound [OF i] have "i < length (tab_commands (merge sets))"
    and "extends_token t (tab_commands (merge sets) ! i)"
    by (auto simp: extends_token_def)
  with Exact show thesis
    by (intro matched [of "tab_commands (merge sets) ! i"])
      (simp_all add: resolve_token_def matched_in_range)
next
  case (Prefix ixs)
  note sp = merge_prefix_indices [OF Prefix]
  consider "ixs = []" | i where "ixs = [i]" | "2 \<le> length ixs"
    by (cases "ixs"; cases "tl ixs") auto
  then show thesis
  proof cases
    case 1
    with Prefix sp(3) show thesis by (intro none) (auto simp: resolve_token_def)
  next
    case 2
    with sp(1) have "i < length (tab_commands (merge sets))"
      and "extends_token t (tab_commands (merge sets) ! i)" by simp_all
    with Prefix 2 show thesis
      by (intro matched [of "tab_commands (merge sets) ! i"])
        (simp_all add: resolve_token_def matched_in_range)
  next
    case 3
    then obtain i j ks where "ixs = i # j # ks" by (cases "ixs"; cases "tl ixs") auto
    with Prefix sp 3 show thesis
      by (intro many [of "ixs"]) (auto simp: resolve_token_def)
  qed
next
  case NoMatch
  have "\<not> extends_token t c" if "c \<in> set (tab_commands (merge sets))" for c
  proof
    assume "extends_token t c"
    then obtain n r where "n \<in> set (command_names c)" "name_str n = t @ r"
      by (auto simp: extends_token_def)
    with merge_trie_complete [OF that, of n] trie_lookup_spec(3) [OF merge_trie_wf NoMatch, of r]
    show False by simp
  qed
  with NoMatch show thesis by (intro none) (auto simp: resolve_token_def)
qed

section \<open>Layers\<close>

text \<open>
  The priorities of the pushed sets never increase, and all of them are unions, so the first
  contributor in push order wins every name.
\<close>

definition descending_unions :: "cmdset list \<Rightarrow> bool" where
  "descending_unions sets \<longleftrightarrow>
     list_all (\<lambda>s. set_mergetype s = MergeUnion) sets \<and> sorted_wrt (\<lambda>a b. set_priority b \<le> set_priority a) sets"

lemma best_of_first: "\<forall>x \<in> set xs. fst x \<le> p \<Longrightarrow> best_of (Some (p, c)) xs = Some (p, c)"
  by (induction xs) (auto simp: keep_higher_def)

lemma sorted_contributions:
  assumes "descending_unions sets"
  shows "sorted_wrt (\<lambda>a b. fst b \<le> fst a) (contributions MergeUnion n (entries sets))"
proof -
  have "sorted_wrt (\<lambda>a b. set_priority (fst b) \<le> set_priority (fst a)) (entries sets)"
    using assms
    by (induction sets) (auto simp: entries_def descending_unions_def sorted_wrt_append sorted_wrt_map)
  then show ?thesis
    unfolding contributions_def sorted_wrt_map
    by (intro sorted_wrt_filter) (simp add: split_def)
qed

lemma descending_resolve:
  assumes "descending_unions sets"
  shows "map_option snd (resolve_name sets n) =
    List.find (\<lambda>c. cmd_name c = n) (concat (map set_commands sets))"
proof -
  let ?es = "entries sets"
  have u: "\<forall>(s, c) \<in> set ?es. set_mergetype s = MergeUnion"
    using assms by (auto simp: entries_def descending_unions_def list_all_iff)
  then have none: "contributions MergeRemove n ?es = []" "contributions MergeReplace n ?es = []"
    by (auto simp: contributions_def filter_empty_conv)
  have "map snd (contributions MergeUnion n es) = filter (\<lambda>c. cmd_name c = n) (map snd es)"
    if "\<forall>(s, c) \<in> set es. set_mergetype s = MergeUnion" for es
    using that by (induction es) auto
  from this [OF u] have all: "map snd (contributions MergeUnion n ?es) =
      filter (\<lambda>c. cmd_name c = n) (concat (map set_commands sets))"
    by (simp add: entries_def map_concat o_def)
  have fnd: "List.find P xs = (case filter P xs of [] \<Rightarrow> None | y # ys \<Rightarrow> Some y)" for P and xs :: "command list"
    by (induction xs) auto
  show ?thesis
  proof (cases "contributions MergeUnion n ?es")
    case Nil
    with none all show ?thesis by (simp add: resolve_name_def resolve_loop_eq fnd)
  next
    case (Cons x xs)
    obtain p c where x: "x = (p, c)" by (cases x)
    have "best_of None (contributions MergeUnion n ?es) = Some (p, c)"
      using sorted_contributions [OF assms, of n] best_of_first [of xs p c]
      by (auto simp: Cons x keep_higher_def)
    moreover from all have "List.find (\<lambda>c. cmd_name c = n) (concat (map set_commands sets)) = Some c"
      by (simp add: Cons x fnd flip: all)
    ultimately show ?thesis using none by (simp add: resolve_name_def resolve_loop_eq)
  qed
qed

text \<open>The commands of all layers, in order of precedence.\<close>

definition layer_order :: "layer_commands \<Rightarrow> command list" where
  "layer_order l = lay_account l @ lay_puppet l @ concat (lay_containers l) @ lay_location l @
     lay_channels l @ lay_builtins l"

text \<open>Pushing a layer below the current floor keeps the sets descending.\<close>

definition floor_ok :: "cmdset list \<Rightarrow> int \<Rightarrow> bool" where
  "floor_ok sets level \<longleftrightarrow> descending_unions sets \<and> list_all (\<lambda>s. level \<le> set_priority s) sets"

lemma push_layer_floor:
  assumes "floor_ok sets level'" and "level \<le> level'"
  shows "floor_ok (push_layer sets key level cmds) level"
  using assms
  by (auto simp: floor_ok_def push_layer_def descending_unions_def sorted_wrt_append list_all_iff
      split: sum.splits)

lemma push_layer_commands:
  "is_ok (CmdSetKey_parse key) \<Longrightarrow>
     concat (map set_commands (push_layer sets key level cmds)) = concat (map set_commands sets) @ cmds"
  by (auto simp: push_layer_def split: sum.splits)

lemma push_containers:
  assumes "floor_ok sets level" and "is_ok (CmdSetKey_parse key)"
  shows "floor_ok (foldl (\<lambda>s c. push_layer s key level c) sets cs) level \<and>
    concat (map set_commands (foldl (\<lambda>s c. push_layer s key level c) sets cs)) =
      concat (map set_commands sets) @ concat cs"
  using assms(1)
proof (induction cs arbitrary: sets)
  case (Cons c cs)
  have "floor_ok (push_layer sets key level c) level"
    using Cons.prems by (rule push_layer_floor) simp
  from Cons.IH [OF this] show ?case by (simp add: push_layer_commands [OF assms(2)])
qed simp

lemma layer_keys_ok:
  "is_ok (CmdSetKey_parse (lit ''account''))" "is_ok (CmdSetKey_parse (lit ''puppet''))"
  "is_ok (CmdSetKey_parse (lit ''container''))" "is_ok (CmdSetKey_parse (lit ''location''))"
  "is_ok (CmdSetKey_parse (lit ''channels''))" "is_ok (CmdSetKey_parse (lit ''builtins''))"
  by code_simp+

lemma layer_sets_ok:
  "descending_unions (layer_sets l) \<and> concat (map set_commands (layer_sets l)) = layer_order l"
proof -
  have f0: "floor_ok [] ACCOUNT" by (simp add: floor_ok_def descending_unions_def)
  note f1 = push_layer_floor [OF f0 order.refl, of "lit ''account''" "lay_account l"]
  have "PUPPET \<le> ACCOUNT" "CONTAINER \<le> PUPPET" "LOCATION \<le> CONTAINER" "CHANNEL \<le> LOCATION" "BUILTIN \<le> CHANNEL"
    by (simp_all add: layer_defs)
  note le = this
  note f2 = push_layer_floor [OF f1 le(1), of "lit ''puppet''" "lay_puppet l"]
  note f2' = push_layer_floor [OF f2 le(2), of "lit ''container''" "[]"]
  have f2'': "floor_ok (push_layer (push_layer [] (lit ''account'') ACCOUNT (lay_account l)) (lit ''puppet'') PUPPET (lay_puppet l)) CONTAINER"
    using f2' by (simp add: push_layer_def [of _ "lit ''container''"])
  note f3 = push_containers [OF f2'' layer_keys_ok(3), of "lay_containers l"]
  note f4 = push_layer_floor [OF conjunct1 [OF f3] le(3), of "lit ''location''" "lay_location l"]
  note f5 = push_layer_floor [OF f4 le(4), of "lit ''channels''" "lay_channels l"]
  note f6 = push_layer_floor [OF f5 le(5), of "lit ''builtins''" "lay_builtins l"]
  have "descending_unions (layer_sets l)"
    using f6 unfolding layer_sets_def Let_def floor_ok_def by blast
  moreover have "concat (map set_commands (layer_sets l)) = layer_order l"
    using conjunct2 [OF f3]
    by (simp add: layer_sets_def Let_def layer_order_def push_layer_commands layer_keys_ok)
  ultimately show ?thesis by blast
qed

lemma map_filter_cong_option:
  "map snd (List.map_filter f xs) = List.map_filter (\<lambda>x. map_option snd (f x)) xs"
  by (induction xs) (auto simp: map_filter_simps split: option.splits)

lemma entries_names: "set (map (\<lambda>(s, c). cmd_name c) (entries sets)) = cmd_name ` set (concat (map set_commands sets))"
  by (force simp: entries_def)

lemma layers_commands:
  "tab_commands (merge_layers l) =
     List.map_filter (\<lambda>n. List.find (\<lambda>c. cmd_name c = n) (layer_order l))
       (sorted_list_of_set (cmd_name ` set (layer_order l)))"
proof -
  have "all_names (layer_sets l) = sorted_list_of_set (cmd_name ` set (layer_order l))"
    unfolding all_names_def entries_names using layer_sets_ok [of l] by simp
  then show ?thesis
    using descending_resolve [of "layer_sets l"] layer_sets_ok [of l]
    by (simp add: merge_layers_def merge_commands resolved_commands_def map_filter_cong_option)
qed

lemma layers_commands_set:
  assumes "distinct (map cmd_name (layer_order l))"
  shows "set (tab_commands (merge_layers l)) = set (layer_order l)"
proof -
  have find: "List.find (\<lambda>c. cmd_name c = n) cs = Some c \<longleftrightarrow> c \<in> set cs \<and> cmd_name c = n"
    if "distinct (map cmd_name cs)" for cs n c
    using that by (induction cs) auto
  show ?thesis
    unfolding layers_commands using find [OF assms] by (auto simp: mem_map_filter)
qed

section \<open>Properties\<close>

text \<open>
  Precedence of the merge. A name resolves to nothing exactly if no set contributes it or
  some \<open>Remove\<close> set names it. Otherwise the winner is a command some set contributed under
  that name, from a \<open>Replace\<close> set if there is one and from a \<open>Union\<close> set if not, and no
  contributor of that kind has a higher priority.
\<close>

theorem merge_precedence:
  "(resolve_name sets n = None \<longleftrightarrow>
      contributions MergeRemove n (entries sets) \<noteq> [] \<or>
      (contributions MergeReplace n (entries sets) = [] \<and> contributions MergeUnion n (entries sets) = [])) \<and>
   (\<forall>p c. resolve_name sets n = Some (p, c) \<longrightarrow>
      (let m = (if contributions MergeReplace n (entries sets) \<noteq> [] then MergeReplace else MergeUnion) in
         (\<exists>s. (s, c) \<in> set (entries sets) \<and> cmd_name c = n \<and> set_mergetype s = m \<and> set_priority s = p) \<and>
         (\<forall>s' c'. (s', c') \<in> set (entries sets) \<longrightarrow> cmd_name c' = n \<longrightarrow> set_mergetype s' = m \<longrightarrow>
            set_priority s' \<le> p)))"
proof (intro conjI allI impI)
  show "resolve_name sets n = None \<longleftrightarrow>
      contributions MergeRemove n (entries sets) \<noteq> [] \<or>
      (contributions MergeReplace n (entries sets) = [] \<and> contributions MergeUnion n (entries sets) = [])"
    by (auto simp: resolve_name_def resolve_loop_eq split: option.splits)
  fix p c assume "resolve_name sets n = Some (p, c)"
  note sp = resolve_name_Some [OF this]
  have up: "(\<forall>(q, d) \<in> set (contributions m n es). q \<le> p) \<longleftrightarrow>
      (\<forall>s' c'. (s', c') \<in> set es \<longrightarrow> cmd_name c' = n \<longrightarrow> set_mergetype s' = m \<longrightarrow> set_priority s' \<le> p)"
    for m es by (auto simp: contributions_def)
  show "let m = (if contributions MergeReplace n (entries sets) \<noteq> [] then MergeReplace else MergeUnion) in
         (\<exists>s. (s, c) \<in> set (entries sets) \<and> cmd_name c = n \<and> set_mergetype s = m \<and> set_priority s = p) \<and>
         (\<forall>s' c'. (s', c') \<in> set (entries sets) \<longrightarrow> cmd_name c' = n \<longrightarrow> set_mergetype s' = m \<longrightarrow>
            set_priority s' \<le> p)"
    using sp unfolding Let_def up contributions_iff by (auto split: if_splits)
qed

text \<open>The sample sets of the witnesses: two unions and a removal.\<close>

abbreviation sample_command :: "string \<Rightarrow> command" where
  "sample_command s \<equiv> command_def_new (CommandName (lit s))"

abbreviation sample_set :: "int \<Rightarrow> merge_type \<Rightarrow> string list \<Rightarrow> cmdset" where
  "sample_set p m names \<equiv> \<lparr>set_key = CmdSetKey (lit ''x''), set_priority = p, set_mergetype = m,
     set_commands = map sample_command names\<rparr>"

lemma merge_precedence_witness:
  "resolve_name [sample_set 10 MergeUnion [''look'', ''say''], sample_set 0 MergeRemove [''look'']]
     (CommandName (lit ''look'')) = None"
proof -
  have "contributions MergeRemove (CommandName (lit ''look''))
      (entries [sample_set 10 MergeUnion [''look'', ''say''], sample_set 0 MergeRemove [''look'']]) \<noteq> []"
    by (simp add: entries_def command_def_new_def)
  then show ?thesis
    using merge_precedence [of "[sample_set 10 MergeUnion [''look'', ''say''], sample_set 0 MergeRemove [''look'']]"
        "CommandName (lit ''look'')"] by blast
qed

text \<open>
  The layers of a caller merge by first match: the merged table holds, for each name that
  some layer binds and in name order, the first command of that name in the order account,
  puppet, containers innermost first, location, channels, built-ins.
\<close>

theorem layers_first_match:
  "tab_commands (merge_layers l) =
     List.map_filter (\<lambda>n. List.find (\<lambda>c. cmd_name c = n) (layer_order l))
       (sorted_list_of_set (cmd_name ` set (layer_order l)))"
  by (rule layers_commands)



text \<open>Parsing the switch segments keeps their text and order.\<close>

lemma Switch_parse_ok: "Switch_parse v = Inr s \<longleftrightarrow> s = Switch v \<and> v \<noteq> [] \<and> list_all token_char v"
  by (auto simp: Switch_parse_def first_invalid_token_char_def find_char_None list_all_iff
      split: option.splits dest: find_char_SomeD)

lemma parse_switches_ok:
  "parse_switches ss = Inr sws \<Longrightarrow>
     map switch_str sws = ss \<and> (\<forall>s \<in> set ss. s \<noteq> [] \<and> list_all token_char s)"
proof (induction ss arbitrary: sws)
  case (Cons s ss)
  then obtain sw sws' where "Switch_parse s = Inr sw" "parse_switches ss = Inr sws'" "sws = sw # sws'"
    by (auto split: sum.splits)
  with Cons.IH show ?case by (auto simp: Switch_parse_ok)
qed simp

text \<open>
  A matched line is explained by its text. The command found is one of the table, the word
  before the first slash of the lowercased head is a non-empty prefix of one of its names, the
  switches are the remaining slash-separated segments, each a non-empty token, and the
  arguments are the trimmed rest of the line; a blank line is \<open>Empty\<close>.
\<close>

theorem parse_line_explained:
  assumes "parse_line lower (merge sets) line = Matched c sws args"
  shows "\<exists>token. split_on (ch CHR ''/'') (lower (fst (split_head (trim line)))) = token # map switch_str sws \<and>
    token \<noteq> [] \<and> c \<in> set (tab_commands (merge sets)) \<and> extends_token token c \<and>
    (\<forall>s \<in> set sws. switch_str s \<noteq> [] \<and> list_all token_char (switch_str s)) \<and>
    args = trim (snd (split_head (trim line)))"
proof -
  let ?head = "fst (split_head (trim line))" and ?args = "trim (snd (split_head (trim line)))"
  obtain token segs where sp: "split_on (ch CHR ''/'') (lower ?head) = token # segs"
    by (cases "split_on (ch CHR ''/'') (lower ?head)") (auto simp del: of_char_of)
  have ne: "?head \<noteq> []" "token \<noteq> []"
    using assms sp by (auto simp: parse_line_def Let_def simp del: of_char_of split: if_splits)
  with assms sp obtain sws' where sws: "parse_switches segs = Inr sws'"
      and r: "resolve_token (merge sets) token sws' ?args = Matched c sws args"
    by (cases "parse_switches segs") (simp_all add: parse_line_def Let_def del: of_char_of)
  then show ?thesis
  proof (cases rule: resolve_token_cases [of sets token sws' ?args])
    case (matched d)
    with r sp ne parse_switches_ok [OF sws] show ?thesis by (auto simp del: of_char_of)
  qed (use r in simp_all)
qed

lemmas text_eval = lit_def trim_def trim_start_def trim_end_def split_head_def is_whitespace_def
  to_ascii_lowercase_def ascii_lower_char_def is_ascii_upper_def

lemma parse_line_explained_witness:
  "\<exists>c sws args. parse_line to_ascii_lowercase (merge [sample_set 0 MergeUnion [''look'']]) (lit ''LOOK/q  me'') = Matched c sws args \<and>
     c \<in> set (tab_commands (merge [sample_set 0 MergeUnion [''look'']])) \<and> map switch_str sws = [lit ''q''] \<and> args = lit ''me''"
proof -
  let ?sets = "[sample_set 0 MergeUnion [''look'']]" and ?line = "lit ''LOOK/q  me''"
  have head: "split_on (ch CHR ''/'') (to_ascii_lowercase (fst (split_head (trim ?line)))) = [lit ''look'', lit ''q'']"
    by (simp add: text_eval)
  have args: "trim (snd (split_head (trim ?line))) = lit ''me''" by (simp add: text_eval)
  have sw: "parse_switches [lit ''q''] = Inr [Switch (lit ''q'')]"
    by (simp add: Switch_parse_def first_invalid_token_char_def find_char_def token_char_def is_ascii_lower_def lit_def)
  have ne: "fst (split_head (trim ?line)) \<noteq> []" by (simp add: text_eval)
  have "lit ''look'' \<noteq> []" by (simp add: lit_def)
  then have "parse_line to_ascii_lowercase (merge ?sets) ?line =
      resolve_token (merge ?sets) (lit ''look'') [Switch (lit ''q'')] (lit ''me'')"
    using head args sw ne by (simp add: parse_line_def Let_def del: of_char_of)
  moreover have "resolve_name ?sets (CommandName (lit ''look'')) = Some (0, sample_command ''look'')"
    by (simp add: resolve_name_def entries_def keep_higher_def command_def_new_def)
  then have "sample_command ''look'' \<in> set (tab_commands (merge ?sets))"
    using resolved_nth [of 0 "sample_command ''look''" ?sets]
    by (force simp: merge_commands command_def_new_def)
  moreover have "has_name (lit ''look'') (sample_command ''look'')"
    by (simp add: has_name_def command_names_def command_def_new_def)
  ultimately obtain c where m: "parse_line to_ascii_lowercase (merge ?sets) ?line = Matched c [Switch (lit ''q'')] (lit ''me'')"
    using resolve_token_exact [of "sample_command ''look''" ?sets "lit ''look''"] by metis
  from parse_line_explained [OF m] m show ?thesis by auto
qed

end
