(* ===== verification/Utf8.thy ===== *)
theory Utf8
  imports Prelude
begin

text \<open>
  The UTF-8 encoding of Rust strings and \<open>String::from_utf8_lossy\<close>, which the telnet layer and
  the length limits use. A string is a list of Unicode scalar values; decoding replaces each
  maximal ill-formed prefix by U+FFFD, as the standard library does.
\<close>

section \<open>Encoding\<close>

definition is_scalar :: "rchar \<Rightarrow> bool" where
  "is_scalar c \<longleftrightarrow> c < 0xD800 \<or> (0xE000 \<le> c \<and> c < 0x110000)"

definition encode_char :: "rchar \<Rightarrow> nat list" where
  "encode_char c =
     (if c < 0x80 then [c]
      else if c < 0x800 then [0xC0 + c div 64, 0x80 + c mod 64]
      else if c < 0x10000 then [0xE0 + c div 4096, 0x80 + c div 64 mod 64, 0x80 + c mod 64]
      else [0xF0 + c div 262144, 0x80 + c div 4096 mod 64, 0x80 + c div 64 mod 64, 0x80 + c mod 64])"

definition utf8_nats :: "ustring \<Rightarrow> nat list" where
  "utf8_nats s = concat (map encode_char s)"

text \<open>\<open>str::as_bytes\<close> and \<open>str::len\<close>.\<close>

definition as_bytes :: "ustring \<Rightarrow> u8 list" where
  "as_bytes s = map of_nat (utf8_nats s)"

definition str_len :: "ustring \<Rightarrow> nat" where
  "str_len s = length (utf8_nats s)"

section \<open>Lossy decoding\<close>

definition cont :: "nat \<Rightarrow> bool" where
  "cont b \<longleftrightarrow> 0x80 \<le> b \<and> b \<le> 0xBF"

definition second3 :: "nat \<Rightarrow> nat \<Rightarrow> bool" where
  "second3 a b \<longleftrightarrow> (if a = 0xE0 then 0xA0 \<le> b \<and> b \<le> 0xBF
     else if a = 0xED then 0x80 \<le> b \<and> b \<le> 0x9F else cont b)"

definition second4 :: "nat \<Rightarrow> nat \<Rightarrow> bool" where
  "second4 a b \<longleftrightarrow> (if a = 0xF0 then 0x90 \<le> b \<and> b \<le> 0xBF
     else if a = 0xF4 then 0x80 \<le> b \<and> b \<le> 0x8F else cont b)"

definition REPLACEMENT :: rchar where "REPLACEMENT = 0xFFFD"

text \<open>Whether the \<open>i\<close>-th byte exists and satisfies a test.\<close>

definition has_byte :: "nat list \<Rightarrow> nat \<Rightarrow> (nat \<Rightarrow> bool) \<Rightarrow> bool" where
  "has_byte bs i p \<longleftrightarrow> i < length bs \<and> p (bs ! i)"

text \<open>One step: the character read and the number of bytes it takes (the head is \<open>a\<close>).\<close>

definition decode_step :: "nat \<Rightarrow> nat list \<Rightarrow> rchar \<times> nat" where
  "decode_step a r =
     (if a < 0x80 then (a, 0)
      else if 0xC2 \<le> a \<and> a \<le> 0xDF then
        (if has_byte r 0 cont then ((a - 0xC0) * 64 + (r ! 0 - 0x80), 1) else (REPLACEMENT, 0))
      else if 0xE0 \<le> a \<and> a \<le> 0xEF then
        (if \<not> has_byte r 0 (second3 a) then (REPLACEMENT, 0)
         else if \<not> has_byte r 1 cont then (REPLACEMENT, 1)
         else ((a - 0xE0) * 4096 + (r ! 0 - 0x80) * 64 + (r ! 1 - 0x80), 2))
      else if 0xF0 \<le> a \<and> a \<le> 0xF4 then
        (if \<not> has_byte r 0 (second4 a) then (REPLACEMENT, 0)
         else if \<not> has_byte r 1 cont then (REPLACEMENT, 1)
         else if \<not> has_byte r 2 cont then (REPLACEMENT, 2)
         else ((a - 0xF0) * 262144 + (r ! 0 - 0x80) * 4096 + (r ! 1 - 0x80) * 64 + (r ! 2 - 0x80), 3))
      else (REPLACEMENT, 0))"

function decode_nats :: "nat list \<Rightarrow> ustring" where
  "decode_nats [] = []"
| "decode_nats (a # r) = fst (decode_step a r) # decode_nats (drop (snd (decode_step a r)) r)"
  by pat_completeness auto
termination
  by (relation "measure length") auto

definition from_utf8_lossy :: "u8 list \<Rightarrow> ustring" where
  "from_utf8_lossy bs = decode_nats (map unat bs)"

section \<open>Facts\<close>

lemma utf8_nats_simps [simp]:
  "utf8_nats [] = []"
  "utf8_nats (c # s) = encode_char c @ utf8_nats s"
  "utf8_nats (s @ t) = utf8_nats s @ utf8_nats t"
  by (simp_all add: utf8_nats_def)

lemma as_bytes_simps [simp]:
  "as_bytes [] = []"
  "as_bytes (s @ t) = as_bytes s @ as_bytes t"
  by (simp_all add: as_bytes_def)

lemma encode_char_bytes: "is_scalar c \<Longrightarrow> b \<in> set (encode_char c) \<Longrightarrow> b < 0xF5"
  by (auto simp: encode_char_def is_scalar_def split: if_splits)

lemma encode_char_nonempty [simp]: "encode_char c \<noteq> []"
  by (simp add: encode_char_def)

text \<open>A byte below 0x80 occurs only as the encoding of that character.\<close>

lemma encode_char_ascii: "b \<in> set (encode_char c) \<Longrightarrow> b < 0x80 \<Longrightarrow> c = b"
  by (auto simp: encode_char_def split: if_splits)

lemma utf8_ascii: "b \<in> set (utf8_nats s) \<Longrightarrow> b < 0x80 \<Longrightarrow> b \<in> set s"
  using encode_char_ascii by (auto simp: utf8_nats_def)

lemma split64: "(c::nat) = (c div 4096) * 4096 + (c div 64 mod 64) * 64 + c mod 64"
proof -
  have "c = (c div 64) * 64 + c mod 64" by (rule div_mult_mod_eq [symmetric])
  moreover have "c div 64 = (c div 64 div 64) * 64 + c div 64 mod 64" by (rule div_mult_mod_eq [symmetric])
  moreover have "c div 64 div 64 = c div 4096" by (simp add: div_mult2_eq [symmetric])
  ultimately show ?thesis by linarith
qed

lemma split4096: "(c::nat) = (c div 262144) * 262144 + (c div 4096 mod 64) * 4096 + (c div 64 mod 64) * 64 + c mod 64"
proof -
  have "c div 4096 = (c div 4096 div 64) * 64 + c div 4096 mod 64" by (rule div_mult_mod_eq [symmetric])
  moreover have "c div 4096 div 64 = c div 262144" by (simp add: div_mult2_eq [symmetric])
  ultimately show ?thesis using split64 [of c] by linarith
qed

lemma decode_encode_char:
  assumes "is_scalar c"
  shows "decode_nats (encode_char c @ r) = c # decode_nats r"
proof -
  consider (one) "c < 0x80" | (two) "0x80 \<le> c" "c < 0x800" | (three) "0x800 \<le> c" "c < 0x10000"
    | (four) "0x10000 \<le> c" "c < 0x110000"
    using assms unfolding is_scalar_def by linarith
  then show ?thesis
  proof cases
    case one
    then show ?thesis by (simp add: encode_char_def decode_step_def)
  next
    case two
    then have "c div 64 < 32" "2 \<le> c div 64" by auto
    moreover have "c mod 64 < 64" by simp
    ultimately show ?thesis
      using two by (simp add: encode_char_def decode_step_def has_byte_def cont_def)
  next
    case three
    obtain h m l where hml: "h = c div 4096" "m = c div 64 mod 64" "l = c mod 64" by blast
    have e: "c = h * 4096 + m * 64 + l" using split64 [of c] hml by simp
    have d: "h < 16" "m < 64" "l < 64" using three hml by auto
    have lo: "h = 0 \<Longrightarrow> 32 \<le> m" using three e d by linarith
    have su: "h = 13 \<Longrightarrow> m \<le> 31" using assms e d unfolding is_scalar_def by linarith
    have "encode_char c = [0xE0 + h, 0x80 + m, 0x80 + l]"
      using three hml by (simp add: encode_char_def)
    moreover have "decode_step (0xE0 + h) ((0x80 + m) # (0x80 + l) # r) = (c, 2)"
      using d lo su by (simp add: decode_step_def has_byte_def cont_def second3_def e)
    ultimately show ?thesis by simp
  next
    case four
    obtain h k m l where hkml: "h = c div 262144" "k = c div 4096 mod 64" "m = c div 64 mod 64" "l = c mod 64"
      by blast
    have e: "c = h * 262144 + k * 4096 + m * 64 + l" using split4096 [of c] hkml by simp
    have d: "h < 5" "k < 64" "m < 64" "l < 64" using four hkml by auto
    have lo: "h = 0 \<Longrightarrow> 16 \<le> k" and hi: "h = 4 \<Longrightarrow> k \<le> 15" using four e d by linarith+
    have "encode_char c = [0xF0 + h, 0x80 + k, 0x80 + m, 0x80 + l]"
      using four hkml by (simp add: encode_char_def)
    moreover have "decode_step (0xF0 + h) ((0x80 + k) # (0x80 + m) # (0x80 + l) # r) = (c, 3)"
      using d lo hi by (simp add: decode_step_def has_byte_def cont_def second4_def e)
    ultimately show ?thesis by simp
  qed
qed

lemma decode_utf8: "list_all is_scalar s \<Longrightarrow> decode_nats (utf8_nats s) = s"
  by (induction s) (simp_all add: decode_encode_char)

lemma utf8_nats_byte: "list_all is_scalar s \<Longrightarrow> b \<in> set (utf8_nats s) \<Longrightarrow> b < 0xF5"
  using encode_char_bytes by (auto simp: utf8_nats_def list_all_iff)

lemma unat_of_nat_u8: "b < 256 \<Longrightarrow> unat (of_nat b :: u8) = b"
  by (simp add: unsigned_of_nat take_bit_nat_eq_self)

lemma unat_as_bytes: "list_all is_scalar s \<Longrightarrow> map unat (as_bytes s) = utf8_nats s"
  unfolding as_bytes_def map_map by (rule map_idI) (use utf8_nats_byte unat_of_nat_u8 in fastforce)

lemma from_utf8_lossy_as_bytes: "list_all is_scalar s \<Longrightarrow> from_utf8_lossy (as_bytes s) = s"
  by (simp add: from_utf8_lossy_def unat_as_bytes decode_utf8)

end
