(* ===== verification/Telnet_Parser.thy ===== *)
theory Telnet_Parser
  imports Utf8
begin

text \<open>
  The incremental telnet framing of crates/mud-net/src/telnet/parser.rs and the line decoder
  of line.rs, byte by byte with the state that survives between calls.
\<close>

section \<open>Framing\<close>

definition IAC :: u8 where "IAC = 255"
definition DONT :: u8 where "DONT = 254"
definition DO :: u8 where "DO = 253"
definition WONT :: u8 where "WONT = 252"
definition WILL :: u8 where "WILL = 251"
definition SB :: u8 where "SB = 250"
definition GA :: u8 where "GA = 249"
definition SE :: u8 where "SE = 240"
definition EOR_CMD :: u8 where "EOR_CMD = 239"

lemmas [telnet_defs] = IAC_def DONT_def DO_def WONT_def WILL_def SB_def GA_def SE_def EOR_CMD_def

definition MAX_SUBNEG_BYTES :: nat where "MAX_SUBNEG_BYTES = 1024"

datatype verb = Will | Wont | Do | Dont

datatype parsed_item =
    DataItem u8
  | CommandItem u8
  | Negotiate verb u8
  | Subnegotiation u8 "u8 list"

datatype parser_state =
    InData
  | InIac
  | InVerb verb
  | InSubOption
  | InSubPayload u8 "u8 list" bool
  | InSubIac u8 "u8 list" bool

definition sub_push :: "u8 \<Rightarrow> u8 list \<Rightarrow> bool \<Rightarrow> u8 \<Rightarrow> parser_state" where
  "sub_push option payload overflowed byte =
     (let overflowed' = (overflowed \<or> MAX_SUBNEG_BYTES \<le> length payload)
      in InSubPayload option (if overflowed' then payload else payload @ [byte]) overflowed')"

definition after_iac :: "u8 \<Rightarrow> parser_state \<times> parsed_item list" where
  "after_iac byte =
     (if byte = IAC then (InData, [DataItem IAC])
      else if byte = WILL then (InVerb Will, [])
      else if byte = WONT then (InVerb Wont, [])
      else if byte = DO then (InVerb Do, [])
      else if byte = DONT then (InVerb Dont, [])
      else if byte = SB then (InSubOption, [])
      else (InData, [CommandItem byte]))"

fun parser_step :: "parser_state \<Rightarrow> u8 \<Rightarrow> parser_state \<times> parsed_item list" where
  "parser_step InData byte = (if byte = IAC then (InIac, []) else (InData, [DataItem byte]))"
| "parser_step InIac byte = after_iac byte"
| "parser_step (InVerb v) byte = (InData, [Negotiate v byte])"
| "parser_step InSubOption byte = (InSubPayload byte [] False, [])"
| "parser_step (InSubPayload opt payload ov) byte =
     (if byte = IAC then (InSubIac opt payload ov, []) else (sub_push opt payload ov byte, []))"
| "parser_step (InSubIac opt payload ov) byte =
     (if byte = SE then (InData, if ov then [] else [Subnegotiation opt payload])
      else if byte = IAC then (sub_push opt payload ov IAC, [])
      else after_iac byte)"

fun parser_push :: "parser_state \<Rightarrow> u8 list \<Rightarrow> parser_state \<times> parsed_item list" where
  "parser_push st [] = (st, [])"
| "parser_push st (b # bs) =
     (case parser_step st b of
        (st', items) \<Rightarrow> (case parser_push st' bs of (st'', rest) \<Rightarrow> (st'', items @ rest)))"

lemma parser_push_append:
  "parser_push st (bs @ cs) =
     (case parser_push st bs of
        (st', items) \<Rightarrow> (case parser_push st' cs of (st'', rest) \<Rightarrow> (st'', items @ rest)))"
  by (induction bs arbitrary: st) (auto split: prod.splits)

text \<open>Memory: a payload never outgrows its cap.\<close>

fun state_bounded :: "parser_state \<Rightarrow> bool" where
  "state_bounded (InSubPayload opt payload ov) = (length payload \<le> MAX_SUBNEG_BYTES)"
| "state_bounded (InSubIac opt payload ov) = (length payload \<le> MAX_SUBNEG_BYTES)"
| "state_bounded _ = True"

fun item_bounded :: "parsed_item \<Rightarrow> bool" where
  "item_bounded (Subnegotiation opt payload) = (length payload \<le> MAX_SUBNEG_BYTES)"
| "item_bounded _ = True"

lemma after_iac_bounded: "after_iac b = (st, items) \<Longrightarrow> state_bounded st \<and> list_all item_bounded items"
  by (auto simp: after_iac_def split: if_splits)

lemma sub_push_bounded:
  "length payload \<le> MAX_SUBNEG_BYTES \<Longrightarrow> state_bounded (sub_push opt payload ov b)"
  by (auto simp: sub_push_def Let_def)

lemma parser_step_bounded:
  "state_bounded st \<Longrightarrow> parser_step st b = (st', items) \<Longrightarrow> state_bounded st' \<and> list_all item_bounded items"
  by (induction st b rule: parser_step.induct)
    (auto simp: sub_push_bounded dest: after_iac_bounded split: if_splits)

lemma parser_push_bounded:
  "state_bounded st \<Longrightarrow> parser_push st bs = (st', items) \<Longrightarrow> state_bounded st' \<and> list_all item_bounded items"
  by (induction bs arbitrary: st items) (auto split: prod.splits dest: parser_step_bounded)

section \<open>What a peer writes\<close>

text \<open>The wire form of an item, with every 255 in data and payloads doubled.\<close>

definition escape_iac :: "u8 list \<Rightarrow> u8 list" where
  "escape_iac bs = concat (map (\<lambda>b. if b = IAC then [IAC, IAC] else [b]) bs)"

fun verb_byte :: "verb \<Rightarrow> u8" where
  "verb_byte Will = WILL"
| "verb_byte Wont = WONT"
| "verb_byte Do = DO"
| "verb_byte Dont = DONT"

fun item_bytes :: "parsed_item \<Rightarrow> u8 list" where
  "item_bytes (DataItem b) = escape_iac [b]"
| "item_bytes (CommandItem b) = [IAC, b]"
| "item_bytes (Negotiate v opt) = [IAC, verb_byte v, opt]"
| "item_bytes (Subnegotiation opt payload) = [IAC, SB, opt] @ escape_iac payload @ [IAC, SE]"

text \<open>Items a peer can send: a plain command byte, a payload within the cap.\<close>

fun sendable :: "parsed_item \<Rightarrow> bool" where
  "sendable (CommandItem b) = (b \<notin> {IAC, WILL, WONT, DO, DONT, SB})"
| "sendable (Subnegotiation opt payload) = (length payload \<le> MAX_SUBNEG_BYTES)"
| "sendable _ = True"

lemma escape_iac_simps [simp]:
  "escape_iac [] = []"
  "escape_iac (b # bs) = (if b = IAC then [IAC, IAC] else [b]) @ escape_iac bs"
  "escape_iac (bs @ cs) = escape_iac bs @ escape_iac cs"
  by (simp_all add: escape_iac_def)

lemma codes_distinct [simp]:
  "SE \<noteq> IAC" "IAC \<noteq> SE" "SB \<noteq> IAC" "SB \<noteq> WILL" "SB \<noteq> WONT" "SB \<noteq> DO" "SB \<noteq> DONT"
  "WILL \<noteq> IAC" "WONT \<noteq> IAC" "DO \<noteq> IAC" "DONT \<noteq> IAC" "WONT \<noteq> WILL" "DO \<noteq> WILL" "DO \<noteq> WONT"
  "DONT \<noteq> WILL" "DONT \<noteq> WONT" "DONT \<noteq> DO"
  by (simp_all add: telnet_defs)

lemma push_payload:
  "length (acc @ payload) \<le> MAX_SUBNEG_BYTES \<Longrightarrow>
     parser_push (InSubPayload opt acc False) (escape_iac payload @ bs) =
     parser_push (InSubPayload opt (acc @ payload) False) bs"
proof (induction payload arbitrary: acc)
  case (Cons b payload)
  have sp: "sub_push opt acc False b = InSubPayload opt (acc @ [b]) False"
    using Cons.prems by (simp add: sub_push_def)
  have "parser_push (InSubPayload opt acc False) (escape_iac (b # payload) @ bs) =
      parser_push (InSubPayload opt (acc @ [b]) False) (escape_iac payload @ bs)"
    by (cases "b = IAC") (use sp in \<open>auto split: prod.splits\<close>)
  also have "\<dots> = parser_push (InSubPayload opt ((acc @ [b]) @ payload) False) bs"
    by (rule Cons.IH) (use Cons.prems in simp)
  finally show ?case by simp
qed simp

lemma push_item:
  assumes "sendable it"
  shows "parser_push InData (item_bytes it @ bs) =
    (case parser_push InData bs of (st, rest) \<Rightarrow> (st, it # rest))"
  using assms
proof (cases it)
  case (DataItem b)
  then show ?thesis by (auto simp: after_iac_def split: prod.splits)
next
  case (CommandItem b)
  with assms show ?thesis by (auto simp: after_iac_def split: prod.splits)
next
  case (Negotiate v opt)
  then show ?thesis by (cases v) (auto simp: after_iac_def split: prod.splits)
next
  case (Subnegotiation opt payload)
  with assms have "parser_push InData (item_bytes it @ bs) =
      parser_push (InSubPayload opt payload False) ([IAC, SE] @ bs)"
    using push_payload [of "[]" payload opt "[IAC, SE] @ bs"] by (simp add: after_iac_def split: prod.splits)
  with Subnegotiation show ?thesis by (simp split: prod.splits)
qed

lemma push_items:
  "list_all sendable items \<Longrightarrow> parser_push InData (concat (map item_bytes items)) = (InData, items)"
  by (induction items) (simp_all add: push_item)

lemma push_escaped_data: "parser_push InData (escape_iac bs) = (InData, map DataItem bs)"
proof -
  have "escape_iac bs = concat (map item_bytes (map DataItem bs))"
    by (induction bs) auto
  then show ?thesis using push_items [of "map DataItem bs"] by (simp add: list_all_iff)
qed

section \<open>Lines\<close>

definition MAX_LINE_BYTES :: nat where "MAX_LINE_BYTES = 4096"

record line_decoder =
  ld_buf :: "u8 list"
  ld_overflowed :: bool
  ld_swallow :: bool

definition line_new :: line_decoder where
  "line_new = \<lparr>ld_buf = [], ld_overflowed = False, ld_swallow = False\<rparr>"

definition line_finish :: "line_decoder \<Rightarrow> line_decoder \<times> ustring option" where
  "line_finish d =
     (d\<lparr>ld_overflowed := False, ld_buf := []\<rparr>,
      if ld_overflowed d then None else Some (from_utf8_lossy (ld_buf d)))"

definition line_push :: "line_decoder \<Rightarrow> u8 \<Rightarrow> line_decoder \<times> ustring option" where
  "line_push d0 byte =
     (let d = d0\<lparr>ld_swallow := False\<rparr> in
      if ld_swallow d0 \<and> (byte = 10 \<or> byte = 0) then (d, None)
      else if byte = 13 then line_finish (d\<lparr>ld_swallow := True\<rparr>)
      else if byte = 10 then line_finish d
      else if MAX_LINE_BYTES \<le> length (ld_buf d) then (d\<lparr>ld_overflowed := True\<rparr>, None)
      else (d\<lparr>ld_buf := ld_buf d @ [byte]\<rparr>, None))"

text \<open>The lines completed by a run of data bytes.\<close>

fun line_run :: "line_decoder \<Rightarrow> u8 list \<Rightarrow> line_decoder \<times> ustring list" where
  "line_run d [] = (d, [])"
| "line_run d (b # bs) =
     (case line_push d b of
        (d', l) \<Rightarrow> (case line_run d' bs of
          (d'', ls) \<Rightarrow> (d'', (case l of None \<Rightarrow> ls | Some x \<Rightarrow> x # ls))))"

lemma line_push_bounded:
  "length (ld_buf d) \<le> MAX_LINE_BYTES \<Longrightarrow> length (ld_buf (fst (line_push d b))) \<le> MAX_LINE_BYTES"
  by (auto simp: line_push_def line_finish_def Let_def)

lemma line_run_append:
  "line_run d (bs @ cs) =
     (case line_run d bs of
        (d', ls) \<Rightarrow> (case line_run d' cs of (d'', ls') \<Rightarrow> (d'', ls @ ls')))"
  by (induction bs arbitrary: d) (auto split: prod.splits option.splits)

text \<open>Plain bytes accumulate until the cap and then only mark the overflow.\<close>

lemma line_run_plain:
  "10 \<notin> set bs \<Longrightarrow> 13 \<notin> set bs \<Longrightarrow> \<not> ld_swallow d \<Longrightarrow> length (ld_buf d) \<le> MAX_LINE_BYTES \<Longrightarrow>
     \<exists>buf. line_run d bs = (d\<lparr>ld_buf := buf, ld_overflowed := ld_overflowed d \<or> MAX_LINE_BYTES < length (ld_buf d) + length bs\<rparr>, []) \<and>
       (length (ld_buf d) + length bs \<le> MAX_LINE_BYTES \<longrightarrow> buf = ld_buf d @ bs)"
proof (induction bs arbitrary: d)
  case Nil
  then show ?case by (cases d) auto
next
  case (Cons b bs)
  let ?d = "if MAX_LINE_BYTES \<le> length (ld_buf d) then d\<lparr>ld_overflowed := True\<rparr> else d\<lparr>ld_buf := ld_buf d @ [b]\<rparr>"
  have step: "line_push d b = (?d, None)"
    using Cons.prems by (cases d) (auto simp: line_push_def Let_def)
  obtain buf where "line_run ?d bs = (?d\<lparr>ld_buf := buf,
        ld_overflowed := ld_overflowed ?d \<or> MAX_LINE_BYTES < length (ld_buf ?d) + length bs\<rparr>, [])"
      "length (ld_buf ?d) + length bs \<le> MAX_LINE_BYTES \<longrightarrow> buf = ld_buf ?d @ bs"
  proof -
    have "10 \<notin> set bs" "13 \<notin> set bs" "\<not> ld_swallow ?d" "length (ld_buf ?d) \<le> MAX_LINE_BYTES"
      using Cons.prems by auto
    from Cons.IH [OF this] that show thesis by blast
  qed
  with step Cons.prems show ?case
    by (intro exI [of _ buf]) (cases d, auto split: if_splits)
qed

lemma line_run_one:
  assumes "10 \<notin> set bs" and "13 \<notin> set bs" and t: "t \<in> {[13, 10], [13, 0], [10]}"
  shows "line_run line_new (bs @ t) =
    (line_new, if length bs \<le> MAX_LINE_BYTES then [from_utf8_lossy bs] else [])"
proof -
  obtain buf where r: "line_run line_new bs =
      (line_new\<lparr>ld_buf := buf, ld_overflowed := MAX_LINE_BYTES < length bs\<rparr>, [])"
      and b: "length bs \<le> MAX_LINE_BYTES \<longrightarrow> buf = bs"
    using line_run_plain [of bs line_new] assms by (auto simp: line_new_def)
  have "line_run (line_new\<lparr>ld_buf := buf, ld_overflowed := MAX_LINE_BYTES < length bs\<rparr>) t =
      (line_new, if length bs \<le> MAX_LINE_BYTES then [from_utf8_lossy buf] else [])"
    using t by (auto simp: line_push_def line_finish_def line_new_def Let_def)
  with b show ?thesis by (simp add: line_run_append r)
qed

section \<open>Properties\<close>

text \<open>
  C39. The framing is a round trip. Any sequence of items a peer may send (data bytes including
  255, plain commands, negotiations, subnegotiations of at most 1024 payload bytes), written
  with the escaping of RFC 854, is parsed back to exactly that sequence, and the parser ends
  in its initial state.
\<close>

theorem iac_roundtrip:
  assumes "list_all sendable items"
  shows "parser_push InData (concat (map item_bytes items)) = (InData, items)"
  using assms by (rule push_items)

lemma iac_roundtrip_witness:
  "parser_push InData (concat (map item_bytes [DataItem IAC, Negotiate Do 1, Subnegotiation 31 [0, 80, 255, 24]])) =
     (InData, [DataItem IAC, Negotiate Do 1, Subnegotiation 31 [0, 80, 255, 24]])"
  by (rule iac_roundtrip) (simp add: MAX_SUBNEG_BYTES_def)

text \<open>
  Input is bounded whatever the peer sends. From a fresh parser and line decoder, any byte
  sequence leaves at most 1024 buffered subnegotiation bytes, delivers no payload longer than
  that, and keeps at most 4096 bytes of an unfinished line.
\<close>

theorem input_buffers_bounded:
  "state_bounded (fst (parser_push InData bs)) \<and> list_all item_bounded (snd (parser_push InData bs)) \<and>
   length (ld_buf (fst (line_run line_new cs))) \<le> MAX_LINE_BYTES"
proof -
  have "length (ld_buf d) \<le> MAX_LINE_BYTES \<Longrightarrow> length (ld_buf (fst (line_run d cs))) \<le> MAX_LINE_BYTES" for d
  proof (induction cs arbitrary: d)
    case (Cons c cs)
    have "length (ld_buf (fst (line_push d c))) \<le> MAX_LINE_BYTES"
      using Cons.prems by (rule line_push_bounded)
    from Cons.IH [OF this] show ?case by (cases "line_push d c") (auto split: prod.splits)
  qed simp
  moreover have "length (ld_buf line_new) \<le> MAX_LINE_BYTES" by (simp add: line_new_def)
  ultimately show ?thesis
    using parser_push_bounded [of InData bs] by (cases "parser_push InData bs") simp
qed

text \<open>
  Line framing. Lines sent one after the other, each closed by CR LF, CR NUL or a bare LF,
  come out in order, decoded, with the decoder back in its initial state; a line of more than
  4096 bytes is dropped whole and disturbs none of its neighbours.
\<close>

theorem line_framing:
  assumes "\<forall>(bs, t) \<in> set ps. 10 \<notin> set bs \<and> 13 \<notin> set bs \<and> t \<in> {[13, 10], [13, 0], [10]}"
  shows "line_run line_new (concat (map (\<lambda>(bs, t). bs @ t) ps)) =
    (line_new, map (\<lambda>(bs, t). from_utf8_lossy bs) (filter (\<lambda>(bs, t). length bs \<le> MAX_LINE_BYTES) ps))"
  using assms
proof (induction ps)
  case (Cons p ps)
  obtain bs t where p: "p = (bs, t)" by (cases p)
  with Cons.prems have one: "line_run line_new (bs @ t) =
      (line_new, if length bs \<le> MAX_LINE_BYTES then [from_utf8_lossy bs] else [])"
    by (intro line_run_one) auto
  have "line_run line_new (concat (map (\<lambda>(bs, t). bs @ t) (p # ps))) =
      line_run line_new ((bs @ t) @ concat (map (\<lambda>(bs, t). bs @ t) ps))" by (simp add: p)
  also have "\<dots> = (line_new, (if length bs \<le> MAX_LINE_BYTES then [from_utf8_lossy bs] else []) @
      map (\<lambda>(bs, t). from_utf8_lossy bs) (filter (\<lambda>(bs, t). length bs \<le> MAX_LINE_BYTES) ps))"
    using Cons by (subst line_run_append) (simp add: one)
  finally show ?case by (simp add: p)
qed simp

lemma line_framing_witness:
  "snd (line_run line_new ([108, 111, 111, 107] @ [13, 10] @ [110] @ [10])) = [lit ''look'', lit ''n'']"
  using line_framing [of "[([108, 111, 111, 107], [13, 10]), ([110], [10])]"]
  by (simp add: MAX_LINE_BYTES_def from_utf8_lossy_def decode_step_def lit_def)

end
