(* ===== verification/Telnet.thy ===== *)
theory Telnet
  imports Telnet_Parser
begin

text \<open>
  Option negotiation (crates/mud-net/src/telnet/negotiation.rs) and the per-connection machine
  (telnet/mod.rs). The transliteration crate \<open>deunicode\<close> is the parameter \<open>deunicode\<close> of the
  output encoder.
\<close>

section \<open>Negotiation\<close>

definition OPT_ECHO :: u8 where "OPT_ECHO = 1"
definition OPT_TTYPE :: u8 where "OPT_TTYPE = 24"
definition OPT_EOR :: u8 where "OPT_EOR = 25"
definition OPT_NAWS :: u8 where "OPT_NAWS = 31"
definition OPT_CHARSET :: u8 where "OPT_CHARSET = 42"
definition TTYPE_IS :: u8 where "TTYPE_IS = 0"
definition TTYPE_SEND :: u8 where "TTYPE_SEND = 1"
definition CHARSET_REQUEST :: u8 where "CHARSET_REQUEST = 1"
definition CHARSET_ACCEPTED :: u8 where "CHARSET_ACCEPTED = 2"
definition CHARSET_REJECTED :: u8 where "CHARSET_REJECTED = 3"

lemmas opt_defs = OPT_ECHO_def OPT_TTYPE_def OPT_EOR_def OPT_NAWS_def OPT_CHARSET_def
  TTYPE_IS_def TTYPE_SEND_def CHARSET_REQUEST_def CHARSET_ACCEPTED_def CHARSET_REJECTED_def

datatype charset_mode = Ascii | Utf8Mode

datatype qstate = No | WantYes | Yes | WantNo

record negotiator =
  him_naws :: qstate
  him_ttype :: qstate
  us_eor :: qstate
  us_charset :: qstate
  us_echo :: qstate
  charset_mode :: charset_mode

text \<open>\<open>Negotiator::new\<close>: the state and the opening offers.\<close>

definition negotiator_new :: "negotiator \<times> u8 list" where
  "negotiator_new =
     (\<lparr>him_naws = WantYes, him_ttype = WantYes, us_eor = WantYes, us_charset = WantYes,
        us_echo = No, charset_mode = Ascii\<rparr>,
      [IAC, DO, OPT_NAWS, IAC, DO, OPT_TTYPE, IAC, WILL, OPT_EOR, IAC, WILL, OPT_CHARSET])"

text \<open>\<open>enable\<close>: the new state, the reply and whether the option became newly enabled.\<close>

fun enable :: "qstate \<Rightarrow> u8 \<Rightarrow> u8 \<Rightarrow> qstate \<times> u8 list \<times> bool" where
  "enable WantYes ack option = (Yes, [], True)"
| "enable No ack option = (Yes, [IAC, ack, option], True)"
| "enable WantNo ack option = (Yes, [IAC, ack, option], True)"
| "enable Yes ack option = (Yes, [], False)"

fun disable :: "qstate \<Rightarrow> u8 \<Rightarrow> u8 \<Rightarrow> qstate \<times> u8 list" where
  "disable Yes ack option = (No, [IAC, ack, option])"
| "disable WantYes ack option = (No, [])"
| "disable WantNo ack option = (No, [])"
| "disable No ack option = (No, [])"

fun on_negotiate :: "negotiator \<Rightarrow> verb \<Rightarrow> u8 \<Rightarrow> negotiator \<times> u8 list" where
  "on_negotiate n Will option =
     (if option = OPT_NAWS then
        (case enable (him_naws n) DO option of (q, out, _) \<Rightarrow> (n\<lparr>him_naws := q\<rparr>, out))
      else if option = OPT_TTYPE then
        (case enable (him_ttype n) DO option of (q, out, new) \<Rightarrow>
          (n\<lparr>him_ttype := q\<rparr>,
           out @ (if new then [IAC, SB, OPT_TTYPE, TTYPE_SEND, IAC, SE] else [])))
      else (n, [IAC, DONT, option]))"
| "on_negotiate n Wont option =
     (if option = OPT_NAWS then
        (case disable (him_naws n) DONT option of (q, out) \<Rightarrow> (n\<lparr>him_naws := q\<rparr>, out))
      else if option = OPT_TTYPE then
        (case disable (him_ttype n) DONT option of (q, out) \<Rightarrow> (n\<lparr>him_ttype := q\<rparr>, out))
      else (n, []))"
| "on_negotiate n Do option =
     (if option = OPT_EOR then
        (case enable (us_eor n) WILL option of (q, out, _) \<Rightarrow> (n\<lparr>us_eor := q\<rparr>, out))
      else if option = OPT_CHARSET then
        (case enable (us_charset n) WILL option of (q, out, new) \<Rightarrow>
          (n\<lparr>us_charset := q\<rparr>,
           out @ (if new then [IAC, SB, OPT_CHARSET, CHARSET_REQUEST] @ as_bytes (lit '';UTF-8'') @ [IAC, SE]
                  else [])))
      else if option = OPT_ECHO then
        (case us_echo n of
           WantYes \<Rightarrow> (n\<lparr>us_echo := Yes\<rparr>, [])
         | No \<Rightarrow> (n, [IAC, WONT, OPT_ECHO])
         | WantNo \<Rightarrow> (n, [])
         | Yes \<Rightarrow> (n, []))
      else (n, [IAC, WONT, option]))"
| "on_negotiate n Dont option =
     (if option = OPT_EOR then
        (case disable (us_eor n) WONT option of (q, out) \<Rightarrow> (n\<lparr>us_eor := q\<rparr>, out))
      else if option = OPT_CHARSET then
        (case disable (us_charset n) WONT option of (q, out) \<Rightarrow> (n\<lparr>us_charset := q\<rparr>, out))
      else if option = OPT_ECHO then
        (case disable (us_echo n) WONT option of (q, out) \<Rightarrow> (n\<lparr>us_echo := q\<rparr>, out))
      else (n, []))"

definition on_charset_subnegotiation :: "negotiator \<Rightarrow> u8 list \<Rightarrow> negotiator" where
  "on_charset_subnegotiation n payload =
     (case payload of
        [] \<Rightarrow> n
      | b # _ \<Rightarrow>
          (if b = CHARSET_ACCEPTED then n\<lparr>charset_mode := Utf8Mode\<rparr>
           else if b = CHARSET_REJECTED then n\<lparr>charset_mode := Ascii\<rparr>
           else n))"

definition suppress_echo :: "negotiator \<Rightarrow> negotiator \<times> u8 list" where
  "suppress_echo n =
     (if us_echo n = No \<or> us_echo n = WantNo
      then (n\<lparr>us_echo := WantYes\<rparr>, [IAC, WILL, OPT_ECHO]) else (n, []))"

definition restore_echo :: "negotiator \<Rightarrow> negotiator \<times> u8 list" where
  "restore_echo n =
     (if us_echo n = Yes \<or> us_echo n = WantYes
      then (n\<lparr>us_echo := WantNo\<rparr>, [IAC, WONT, OPT_ECHO]) else (n, []))"

definition echo_suppressed :: "negotiator \<Rightarrow> bool" where
  "echo_suppressed n \<longleftrightarrow> us_echo n = Yes"

definition eor_enabled :: "negotiator \<Rightarrow> bool" where
  "eor_enabled n \<longleftrightarrow> us_eor n = Yes"

section \<open>The machine\<close>

datatype telnet_event = Line ustring | WindowSize u16 u16 | TerminalType ustring

datatype local_echo = EchoEnabled | EchoSuppressed

record telnet_machine =
  tm_parser :: parser_state
  tm_negotiator :: negotiator
  tm_line :: line_decoder
  tm_output :: "u8 list"

definition machine_new :: telnet_machine where
  "machine_new = \<lparr>tm_parser = InData, tm_negotiator = fst negotiator_new, tm_line = line_new,
     tm_output = snd negotiator_new\<rparr>"

definition u16_from_be :: "u8 \<Rightarrow> u8 \<Rightarrow> u16" where
  "u16_from_be hi lo = push_bit 8 (ucast hi) OR ucast lo"

definition on_subnegotiation ::
  "telnet_machine \<Rightarrow> u8 \<Rightarrow> u8 list \<Rightarrow> telnet_machine \<times> telnet_event list" where
  "on_subnegotiation m option payload =
     (if option = OPT_NAWS then
        (m, case payload of
              [w_hi, w_lo, h_hi, h_lo] \<Rightarrow> [WindowSize (u16_from_be w_hi w_lo) (u16_from_be h_hi h_lo)]
            | _ \<Rightarrow> [])
      else if option = OPT_TTYPE then
        (m, case payload of
              [] \<Rightarrow> []
            | b # name \<Rightarrow> (if b = TTYPE_IS then [TerminalType (from_utf8_lossy name)] else []))
      else if option = OPT_CHARSET then
        (m\<lparr>tm_negotiator := on_charset_subnegotiation (tm_negotiator m) payload\<rparr>, [])
      else (m, []))"

fun on_item :: "telnet_machine \<Rightarrow> parsed_item \<Rightarrow> telnet_machine \<times> telnet_event list" where
  "on_item m (DataItem byte) =
     (case line_push (tm_line m) byte of
        (d, None) \<Rightarrow> (m\<lparr>tm_line := d\<rparr>, [])
      | (d, Some t) \<Rightarrow>
          (m\<lparr>tm_line := d,
             tm_output := tm_output m @ (if echo_suppressed (tm_negotiator m) then [13, 10] else [])\<rparr>,
           [Line t]))"
| "on_item m (CommandItem c) = (m, [])"
| "on_item m (Negotiate v option) =
     (case on_negotiate (tm_negotiator m) v option of
        (n, out) \<Rightarrow> (m\<lparr>tm_negotiator := n, tm_output := tm_output m @ out\<rparr>, []))"
| "on_item m (Subnegotiation option payload) = on_subnegotiation m option payload"

fun on_items :: "telnet_machine \<Rightarrow> parsed_item list \<Rightarrow> telnet_machine \<times> telnet_event list" where
  "on_items m [] = (m, [])"
| "on_items m (it # items) =
     (case on_item m it of
        (m', evs) \<Rightarrow> (case on_items m' items of (m'', rest) \<Rightarrow> (m'', evs @ rest)))"

definition receive :: "telnet_machine \<Rightarrow> u8 list \<Rightarrow> telnet_machine \<times> telnet_event list" where
  "receive m bytes =
     (case parser_push (tm_parser m) bytes of
        (st, items) \<Rightarrow> on_items (m\<lparr>tm_parser := st\<rparr>) items)"

definition set_echo :: "telnet_machine \<Rightarrow> local_echo \<Rightarrow> telnet_machine" where
  "set_echo m echo =
     (case (case echo of EchoSuppressed \<Rightarrow> suppress_echo (tm_negotiator m)
                       | EchoEnabled \<Rightarrow> restore_echo (tm_negotiator m)) of
        (n, out) \<Rightarrow> m\<lparr>tm_negotiator := n, tm_output := tm_output m @ out\<rparr>)"

definition take_output :: "telnet_machine \<Rightarrow> telnet_machine \<times> u8 list" where
  "take_output m = (m\<lparr>tm_output := []\<rparr>, tm_output m)"

definition prompt_frame :: "telnet_machine \<Rightarrow> u8 list" where
  "prompt_frame m = (if eor_enabled (tm_negotiator m) then [IAC, EOR_CMD] else [IAC, GA])"

section \<open>Output\<close>

text \<open>
  \<open>escape_len\<close> on a text that begins with ESC. The source counts bytes; a final byte of a CSI
  sequence is ASCII, so the cut falls between the same characters, and here it is counted in
  characters.
\<close>

definition csi_final :: "rchar \<Rightarrow> bool" where
  "csi_final c \<longleftrightarrow> 0x40 \<le> c \<and> c \<le> 0x7E"

definition escape_len :: "ustring \<Rightarrow> nat" where
  "escape_len s =
     (if \<not> (1 < length s \<and> s ! 1 = ch CHR ''['') then 1
      else if list_ex csi_final (drop 2 s)
      then 2 + length (takeWhile (\<lambda>c. \<not> csi_final c) (drop 2 s)) + 1
      else length s)"

definition transliterate_plain :: "(ustring \<Rightarrow> ustring) \<Rightarrow> ustring \<Rightarrow> ustring" where
  "transliterate_plain deunicode text = join [10] (map deunicode (split_on 10 text))"

definition ESC :: rchar where "ESC = 27"

function transliterate_preserving_escapes :: "(ustring \<Rightarrow> ustring) \<Rightarrow> ustring \<Rightarrow> ustring" where
  "transliterate_preserving_escapes deunicode rest =
     (if ESC \<notin> set rest then transliterate_plain deunicode rest
      else
        transliterate_plain deunicode (takeWhile (\<lambda>c. c \<noteq> ESC) rest) @
        take (escape_len (dropWhile (\<lambda>c. c \<noteq> ESC) rest)) (dropWhile (\<lambda>c. c \<noteq> ESC) rest) @
        transliterate_preserving_escapes deunicode
          (drop (escape_len (dropWhile (\<lambda>c. c \<noteq> ESC) rest)) (dropWhile (\<lambda>c. c \<noteq> ESC) rest)))"
  by pat_completeness auto
termination
proof (relation "measure (\<lambda>(d, s). length s)")
  fix deunicode :: "ustring \<Rightarrow> ustring" and rest :: ustring
  assume esc: "\<not> ESC \<notin> set rest"
  let ?t = "dropWhile (\<lambda>c. c \<noteq> ESC) rest"
  have "?t \<noteq> []" using esc by auto
  then have "0 < escape_len ?t" and "0 < length ?t" by (auto simp: escape_len_def)
  then have "length (drop (escape_len ?t) ?t) < length ?t" by simp
  also have "\<dots> \<le> length rest" by (rule length_dropWhile_le)
  finally show "((deunicode, drop (escape_len ?t) ?t), deunicode, rest) \<in> measure (\<lambda>(d, s). length s)"
    by simp
qed simp

declare transliterate_preserving_escapes.simps [simp del]

definition output_bytes :: "u8 \<Rightarrow> u8 list" where
  "output_bytes b = (if b = 10 then [13, 10] else if b = 13 then [] else if b = IAC then [IAC, IAC] else [b])"

definition encode_output :: "(ustring \<Rightarrow> ustring) \<Rightarrow> telnet_machine \<Rightarrow> ustring \<Rightarrow> u8 list" where
  "encode_output deunicode m text =
     concat (map output_bytes (as_bytes
       (case charset_mode (tm_negotiator m) of
          Utf8Mode \<Rightarrow> text
        | Ascii \<Rightarrow> transliterate_preserving_escapes deunicode text)))"

section \<open>Facts about the machine\<close>

lemma on_subnegotiation_parser:
  "on_subnegotiation (m\<lparr>tm_parser := st\<rparr>) opt payload =
     (case on_subnegotiation m opt payload of (m', evs) \<Rightarrow> (m'\<lparr>tm_parser := st\<rparr>, evs))"
  by (simp add: on_subnegotiation_def)

lemma on_item_parser:
  "on_item (m\<lparr>tm_parser := st\<rparr>) it = (case on_item m it of (m', evs) \<Rightarrow> (m'\<lparr>tm_parser := st\<rparr>, evs))"
  by (cases it) (auto simp: on_subnegotiation_parser split: prod.splits option.splits)

lemma on_items_parser:
  "on_items (m\<lparr>tm_parser := st\<rparr>) items =
     (case on_items m items of (m', evs) \<Rightarrow> (m'\<lparr>tm_parser := st\<rparr>, evs))"
  by (induction items arbitrary: m) (auto simp: on_item_parser split: prod.splits)

lemma on_items_append:
  "on_items m (xs @ ys) =
     (case on_items m xs of
        (m', evs) \<Rightarrow> (case on_items m' ys of (m'', rest) \<Rightarrow> (m'', evs @ rest)))"
  by (induction xs arbitrary: m) (auto split: prod.splits)

lemma on_subnegotiation_keeps: "tm_parser (fst (on_subnegotiation m opt payload)) = tm_parser m"
  by (simp add: on_subnegotiation_def)

lemma on_item_keeps: "tm_parser (fst (on_item m it)) = tm_parser m"
  by (cases it) (auto simp: on_subnegotiation_keeps split: prod.splits option.splits)

lemma on_items_keeps: "tm_parser (fst (on_items m items)) = tm_parser m"
proof (induction items arbitrary: m)
  case (Cons it items)
  show ?case
    using Cons.IH [of "fst (on_item m it)"] on_item_keeps [of m it]
    by (cases "on_item m it") (auto split: prod.splits)
qed simp

text \<open>Output normalises line ends first and then doubles every 255.\<close>

definition crlf_bytes :: "u8 list \<Rightarrow> u8 list" where
  "crlf_bytes bs = concat (map (\<lambda>b. if b = 10 then [13, 10] else if b = 13 then [] else [b]) bs)"

lemma output_escape: "concat (map output_bytes bs) = escape_iac (crlf_bytes bs)"
  by (induction bs) (auto simp: output_bytes_def crlf_bytes_def IAC_def)

section \<open>Properties\<close>

text \<open>
  Packet boundaries do not matter: receiving a byte stream in one piece or cut anywhere
  into two gives the same events in the same order, the same queued replies and the same
  machine.
\<close>

theorem receive_chunking:
  "receive m (bs @ cs) =
     (case receive m bs of
        (m', evs) \<Rightarrow> (case receive m' cs of (m'', rest) \<Rightarrow> (m'', evs @ rest)))"
proof -
  obtain st1 items1 where p1: "parser_push (tm_parser m) bs = (st1, items1)" by fastforce
  obtain st2 items2 where p2: "parser_push st1 cs = (st2, items2)" by fastforce
  obtain m1 evs1 where o1: "on_items m items1 = (m1, evs1)" by fastforce
  obtain m2 evs2 where o2: "on_items m1 items2 = (m2, evs2)" by fastforce
  show ?thesis
    by (simp add: receive_def parser_push_append p1 p2 on_items_parser on_items_append o1 o2)
qed

text \<open>
  Text sent to a client cannot inject telnet commands. Whatever the text, the negotiated
  charset and the transliteration, a telnet parser reads the encoded bytes as data bytes only,
  namely the bytes of the text with LF turned into CR LF and CR dropped, and is back in its
  data state.
\<close>

theorem output_is_pure_data:
  "parser_push InData (encode_output deunicode m text) =
     (InData, map DataItem (crlf_bytes (as_bytes
       (if charset_mode (tm_negotiator m) = Utf8Mode then text
        else transliterate_preserving_escapes deunicode text))))"
proof (cases "charset_mode (tm_negotiator m)")
  case Ascii
  then show ?thesis by (simp add: encode_output_def output_escape push_escaped_data)
next
  case Utf8Mode
  then show ?thesis by (simp add: encode_output_def output_escape push_escaped_data)
qed

text \<open>
  Negotiation cannot loop. Hearing the same verb for the same option twice in a row, the
  second time is answered with nothing, except for an unsupported offer or an unasked echo
  request, which is answered by a single refusal and changes nothing; and no refusal is ever
  answered unless the option was on.
\<close>

theorem negotiation_settles:
  "(let (n', out) = on_negotiate n v opt; (n'', out') = on_negotiate n' v opt in
      n'' = n' \<and>
      (out' = [] \<or>
       (n' = n \<and> out' = out \<and>
        ((v = Will \<and> opt \<notin> {OPT_NAWS, OPT_TTYPE} \<and> out = [IAC, DONT, opt]) \<or>
         (v = Do \<and> opt \<notin> {OPT_EOR, OPT_CHARSET} \<and> out = [IAC, WONT, opt]))))) \<and>
   (v = Wont \<or> v = Dont \<longrightarrow> snd (on_negotiate n v opt) \<noteq> [] \<longrightarrow>
      Yes \<in> {him_naws n, him_ttype n, us_eor n, us_charset n, us_echo n})"
proof -
  have en: "enable q ack opt = (Yes, if q = No \<or> q = WantNo then [IAC, ack, opt] else [], q \<noteq> Yes)" for q ack opt
    by (cases q) auto
  have dis: "disable q ack opt = (No, if q = Yes then [IAC, ack, opt] else [])" for q ack opt
    by (cases q) auto
  show ?thesis
  proof (cases v)
    case Will
    then show ?thesis by (simp add: Let_def opt_defs en)
  next
    case Wont
    then show ?thesis by (simp add: Let_def opt_defs dis)
  next
    case Do
    then show ?thesis by (cases "us_echo n") (simp_all add: Let_def opt_defs en)
  next
    case Dont
    then show ?thesis by (simp add: Let_def opt_defs dis)
  qed
qed

lemma negotiation_settles_witness:
  "\<exists>n. snd (on_negotiate n Wont OPT_NAWS) = [IAC, DONT, OPT_NAWS] \<and>
     Yes \<in> {him_naws n, him_ttype n, us_eor n, us_charset n, us_echo n}"
proof -
  define n where "n = (fst negotiator_new)\<lparr>him_naws := Yes\<rparr>"
  have out: "snd (on_negotiate n Wont OPT_NAWS) = [IAC, DONT, OPT_NAWS]" by (simp add: n_def)
  then have "snd (on_negotiate n Wont OPT_NAWS) \<noteq> []" by simp
  then have "Yes \<in> {him_naws n, him_ttype n, us_eor n, us_charset n, us_echo n}"
    using conjunct2 [OF negotiation_settles [of n Wont OPT_NAWS]] by blast
  with out show ?thesis by blast
qed

text \<open>
  Password masking is lost when echo is claimed again before the client has acknowledged
  its release: the acknowledgement of the release is taken for a refusal of the new claim, the
  agreement that follows is refused, and the client echoes although suppression was asked for.
\<close>

theorem stale_ack_unmasks_echo:
  assumes "us_echo n = No"
  shows "let (n1, o1) = suppress_echo n; (n2, o2) = on_negotiate n1 Do OPT_ECHO;
             (n3, o3) = restore_echo n2; (n4, o4) = suppress_echo n3;
             (n5, o5) = on_negotiate n4 Dont OPT_ECHO; (n6, o6) = on_negotiate n5 Do OPT_ECHO
         in o1 = [IAC, WILL, OPT_ECHO] \<and> o3 = [IAC, WONT, OPT_ECHO] \<and> o4 = [IAC, WILL, OPT_ECHO] \<and>
            o6 = [IAC, WONT, OPT_ECHO] \<and> \<not> echo_suppressed n6"
  using assms by (simp add: suppress_echo_def restore_echo_def echo_suppressed_def opt_defs)

lemma stale_ack_unmasks_echo_witness:
  "\<not> echo_suppressed (fst (on_negotiate (fst (on_negotiate (fst (suppress_echo (fst (restore_echo
     (fst (on_negotiate (fst (suppress_echo (fst negotiator_new))) Do OPT_ECHO)))))) Dont OPT_ECHO)) Do OPT_ECHO))"
proof -
  have "us_echo (fst negotiator_new) = No" by (simp add: negotiator_new_def)
  from stale_ack_unmasks_echo [OF this] show ?thesis by (simp add: Let_def split_def)
qed

end
