(* ===== verification/Account.thy ===== *)
theory Account
  imports Entity_Id
begin

text \<open>
  The account domain of crates/mud-account: validated names (name.rs), account identity and
  lifecycle (account.rs), puppets (puppet.rs) and credentials (credential.rs). Password hashing
  is third-party code; a credential is its PHC string, and the parser and the verifier of such
  strings are parameters.
\<close>

section \<open>Names\<close>

definition MIN_LEN :: nat where "MIN_LEN = 1"
definition MAX_LEN :: nat where "MAX_LEN = 32"

datatype name_error = NameLength nat | NameInvalidChar rchar | NameAllDigits

definition is_allowed :: "rchar \<Rightarrow> bool" where
  "is_allowed c \<longleftrightarrow> is_ascii_alphanumeric c \<or> c = ch CHR ''-'' \<or> c = ch CHR ''_'' \<or> c = 39"

definition validate :: "ustring \<Rightarrow> name_error + unit" where
  "validate raw =
     (if \<not> (MIN_LEN \<le> length raw \<and> length raw \<le> MAX_LEN) then Inl (NameLength (length raw))
      else (case find_char (\<lambda>c. \<not> is_allowed c) raw of
          Some c \<Rightarrow> Inl (NameInvalidChar c)
        | None \<Rightarrow> (if list_all is_ascii_digit raw then Inl NameAllDigits else Inr ())))"

datatype username = Username (username_str: ustring)
datatype puppet_name = PuppetName (puppet_name_str: ustring)

definition Username_parse :: "ustring \<Rightarrow> name_error + username" where
  "Username_parse raw = bindE (validate raw) (\<lambda>_. Inr (Username raw))"

definition PuppetName_parse :: "ustring \<Rightarrow> name_error + puppet_name" where
  "PuppetName_parse raw = bindE (validate raw) (\<lambda>_. Inr (PuppetName raw))"

definition valid_name :: "ustring \<Rightarrow> bool" where
  "valid_name s \<longleftrightarrow> 1 \<le> length s \<and> length s \<le> 32 \<and> list_all is_allowed s \<and> \<not> list_all is_ascii_digit s"

lemma validate_ok: "validate s = Inr u \<longleftrightarrow> valid_name s"
proof -
  have "list_all is_allowed s \<longleftrightarrow> find_char (\<lambda>c. \<not> is_allowed c) s = None"
    by (simp add: find_char_None list_all_iff)
  then show ?thesis
    by (cases "find_char (\<lambda>c. \<not> is_allowed c) s")
      (auto simp: validate_def valid_name_def MIN_LEN_def MAX_LEN_def)
qed

lemma Username_parse_ok [simp]: "Username_parse s = Inr u \<longleftrightarrow> u = Username s \<and> valid_name s"
  by (auto simp: Username_parse_def validate_ok)

lemma PuppetName_parse_ok [simp]: "PuppetName_parse s = Inr n \<longleftrightarrow> n = PuppetName s \<and> valid_name s"
  by (auto simp: PuppetName_parse_def validate_ok)

section \<open>Accounts\<close>

datatype account_id = AccountId (account_id_get: u64)

datatype account_state = Active | Suspended | Banned | Deleted

datatype login_error = UnknownUser | BadPassword | LoginSuspended | LoginBanned

datatype register_error = RegisterUsernameTaken

fun login_rejection :: "account_state \<Rightarrow> login_error option" where
  "login_rejection Active = None"
| "login_rejection Suspended = Some LoginSuspended"
| "login_rejection Banned = Some LoginBanned"
| "login_rejection Deleted = Some UnknownUser"

fun state_str :: "account_state \<Rightarrow> ustring" where
  "state_str Active = lit ''active''"
| "state_str Suspended = lit ''suspended''"
| "state_str Banned = lit ''banned''"
| "state_str Deleted = lit ''deleted''"

datatype unknown_account_state = UnknownAccountState ustring

definition AccountState_from_str :: "ustring \<Rightarrow> unknown_account_state + account_state" where
  "AccountState_from_str raw =
     (if raw = lit ''active'' then Inr Active
      else if raw = lit ''suspended'' then Inr Suspended
      else if raw = lit ''banned'' then Inr Banned
      else if raw = lit ''deleted'' then Inr Deleted
      else Inl (UnknownAccountState raw))"

record account =
  acc_id :: account_id
  acc_username :: username
  acc_state :: account_state

record puppet =
  puppet_key :: entity_key
  puppet_name :: puppet_name

section \<open>Credentials\<close>

datatype credential = Credential (phc: ustring)
datatype credential_error = HashFailed | MalformedCredential

text \<open>
  \<open>argon password\<close> is the salted hash as a PHC string, \<open>parses phc\<close> is whether argon2 accepts the PHC string and \<open>matches phc password\<close> whether the
  password verifies against it.
\<close>

definition credential_hash :: "(ustring \<Rightarrow> ustring option) \<Rightarrow> ustring \<Rightarrow> credential_error + credential" where
  "credential_hash argon password = (case argon password of Some s \<Rightarrow> Inr (Credential s) | None \<Rightarrow> Inl HashFailed)"

definition credential_from_phc :: "(ustring \<Rightarrow> bool) \<Rightarrow> ustring \<Rightarrow> credential_error + credential" where
  "credential_from_phc parses s = (if parses s then Inr (Credential s) else Inl MalformedCredential)"

definition verify_phc :: "(ustring \<Rightarrow> bool) \<Rightarrow> (ustring \<Rightarrow> ustring \<Rightarrow> bool) \<Rightarrow> ustring \<Rightarrow> ustring \<Rightarrow> bool" where
  "verify_phc parses matches s password = (if \<not> parses s then False else matches s password)"

definition credential_verify ::
  "(ustring \<Rightarrow> bool) \<Rightarrow> (ustring \<Rightarrow> ustring \<Rightarrow> bool) \<Rightarrow> credential \<Rightarrow> ustring \<Rightarrow> bool" where
  "credential_verify parses matches c password = verify_phc parses matches (phc c) password"

section \<open>Facts\<close>

lemma AccountState_roundtrip: "AccountState_from_str (state_str s) = Inr s"
  by (cases s) (simp_all add: AccountState_from_str_def)

text \<open>
  A valid name is never read as a number, and never equals up to case something that is:
  an ordinal argument cannot shadow a name.
\<close>

lemma allowed_no_plus: "is_allowed c \<Longrightarrow> c \<noteq> 43"
  by (auto simp: is_allowed_def is_ascii_alphanumeric_def is_ascii_lower_def is_ascii_upper_def
      is_ascii_digit_def)

lemma digit_lower: "is_ascii_digit (ascii_lower_char c) \<longleftrightarrow> is_ascii_digit c"
  by (auto simp: ascii_lower_char_def is_ascii_digit_def is_ascii_upper_def)

lemma lower_plus: "ascii_lower_char c = 43 \<longleftrightarrow> c = 43"
  by (auto simp: ascii_lower_char_def is_ascii_upper_def)

lemma parse_usize_chars: "parse_usize s = Some n \<Longrightarrow> list_all is_ascii_digit s \<or> hd s = 43 \<and> s \<noteq> []"
  by (cases s) (auto simp: parse_usize_def Let_def split: if_splits)

lemma valid_name_not_number:
  assumes "valid_name name" and "eq_ignore_ascii_case name arg"
  shows "parse_usize arg = None"
proof (rule ccontr)
  assume "parse_usize arg \<noteq> None"
  then obtain n where "parse_usize arg = Some n" by auto
  then consider "list_all is_ascii_digit arg" | "hd arg = 43" "arg \<noteq> []"
    using parse_usize_chars by blast
  then show False
  proof cases
    case 1
    then have "list_all is_ascii_digit (to_ascii_lowercase arg)"
      by (simp add: to_ascii_lowercase_def list_all_iff digit_lower)
    then have "list_all is_ascii_digit (to_ascii_lowercase name)"
      using assms(2) by (simp add: eq_ignore_ascii_case_def)
    then have "list_all is_ascii_digit name"
      by (simp add: to_ascii_lowercase_def list_all_iff digit_lower)
    with assms(1) show False by (simp add: valid_name_def)
  next
    case 2
    obtain c r where name: "name = c # r" using assms(1) by (cases name) (auto simp: valid_name_def)
    with 2 assms(2) have "ascii_lower_char c = 43"
      by (cases arg) (auto simp: eq_ignore_ascii_case_def to_ascii_lowercase_def lower_plus
          simp: ascii_lower_char_def is_ascii_upper_def)
    then have "c = 43" by (simp add: lower_plus)
    with name assms(1) allowed_no_plus show False by (auto simp: valid_name_def)
  qed
qed

end
