(* ===== verification/Session_Fsm.thy ===== *)
theory Session_Fsm
  imports Account
begin

text \<open>
  The login state machine of crates/mud-session (effect.rs, message.rs, fsm.rs): the effects
  it asks its driver to perform, the results the driver feeds back, the messages it shows, and
  its two entry points \<open>on_input\<close> and \<open>on_effect\<close>. A driver that answers each effect with a
  result of its kind is the step relation \<open>session_step\<close>; the properties are about every
  session reachable under it.
\<close>

section \<open>Effects and messages\<close>

datatype fsm_effect =
    Authenticate username ustring
  | Register username ustring
  | CreatePuppet account_id puppet_name
  | Enter account_id entity_key

datatype effect_result =
    Authenticated account "puppet list"
  | LoginRejected login_error
  | Registered account
  | RegisterRejected register_error
  | BackendError
  | PuppetCreated puppet
  | Entered

datatype session_message =
    Banner | LoginInstructions | PreLoginHelp | WhoStub | UnknownCommand | Goodbye
  | PasswordPrompt | LoginFailed | AccountSuspended | AccountBanned | ServerError
  | PuppetList "puppet_name list"
  | NoSuchPuppet | NoPuppetsYet | ConfirmPrompt | PasswordMismatch | NameInvalid | UsernameTaken
  | MsgPuppetCreated puppet_name
  | EnteredWorld

section \<open>The machine\<close>

datatype input_echo = EchoEnabled | EchoSuppressed

datatype terminal = Closed | Bound account_id entity_key puppet_name

record transition =
  messages :: "session_message list"
  effect :: "fsm_effect option"
  terminal :: "terminal option"
  echo :: "input_echo option"

definition of_messages :: "session_message list \<Rightarrow> transition" where
  "of_messages ms = \<lparr>messages = ms, effect = None, terminal = None, echo = None\<rparr>"

definition of_message :: "session_message \<Rightarrow> transition" where
  "of_message m = of_messages [m]"

definition closing :: "session_message \<Rightarrow> transition" where
  "closing m = \<lparr>messages = [m], effect = None, terminal = Some Closed, echo = None\<rparr>"

definition of_effect :: "fsm_effect \<Rightarrow> transition" where
  "of_effect e = \<lparr>messages = [], effect = Some e, terminal = None, echo = None\<rparr>"

definition split_command :: "ustring \<Rightarrow> (ustring \<times> ustring) option" where
  "split_command line =
     (let trimmed = trim_start line;
          word = takeWhile (\<lambda>c. \<not> is_whitespace c) trimmed;
          rest = dropWhile (\<lambda>c. \<not> is_whitespace c) trimmed
      in if word = [] then None else Some (to_ascii_lowercase word, trim rest))"

datatype fsm_state =
    Anon
  | LoginPassword username
  | AwaitingAuth
  | RegisterPassword username
  | RegisterConfirm username ustring
  | AwaitingRegister
  | PuppetSelect account "puppet list"
  | AwaitingCreate account "puppet list"
  | AwaitingEnter account "puppet list" entity_key puppet_name

fun collects_secret :: "fsm_state \<Rightarrow> bool" where
  "collects_secret (LoginPassword _) = True"
| "collects_secret (RegisterPassword _) = True"
| "collects_secret (RegisterConfirm _ _) = True"
| "collects_secret Anon = False"
| "collects_secret AwaitingAuth = False"
| "collects_secret AwaitingRegister = False"
| "collects_secret (PuppetSelect _ _) = False"
| "collects_secret (AwaitingCreate _ _) = False"
| "collects_secret (AwaitingEnter _ _ _ _) = False"

fun echo_change :: "bool \<Rightarrow> bool \<Rightarrow> input_echo option" where
  "echo_change False True = Some EchoSuppressed"
| "echo_change True False = Some EchoEnabled"
| "echo_change True True = None"
| "echo_change False False = None"

definition fsm_new :: fsm_state where
  "fsm_new = Anon"

definition on_connect :: "fsm_state \<Rightarrow> transition" where
  "on_connect s = of_messages [Banner, LoginInstructions]"

definition parse_name :: "ustring \<Rightarrow> name_error + username" where
  "parse_name raw = Username_parse raw"

definition match_puppet :: "puppet list \<Rightarrow> ustring \<Rightarrow> puppet option" where
  "match_puppet puppets arg =
     (case parse_usize arg of
        Some ordinal \<Rightarrow> Option.bind (checked_sub_usize ordinal 1) (vec_get puppets)
      | None \<Rightarrow> List.find (\<lambda>p. eq_ignore_ascii_case (puppet_name_str (puppet_name p)) arg) puppets)"

fun login_rejection_message :: "login_error \<Rightarrow> session_message" where
  "login_rejection_message UnknownUser = LoginFailed"
| "login_rejection_message BadPassword = LoginFailed"
| "login_rejection_message LoginSuspended = AccountSuspended"
| "login_rejection_message LoginBanned = AccountBanned"

definition anon_input :: "fsm_state \<Rightarrow> ustring \<Rightarrow> fsm_state \<times> transition" where
  "anon_input s line =
     (case split_command line of
        None \<Rightarrow> (s, of_messages [])
      | Some (command, rest) \<Rightarrow>
          if command = lit ''help'' \<or> command = lit ''?'' then (s, of_message PreLoginHelp)
          else if command = lit ''who'' then (s, of_message WhoStub)
          else if command = lit ''quit'' then (s, closing Goodbye)
          else if command = lit ''login'' then
            (case parse_name rest of
               Inr username \<Rightarrow> (LoginPassword username, of_message PasswordPrompt)
             | Inl _ \<Rightarrow> (s, of_message UnknownCommand))
          else if command = lit ''register'' then
            (case parse_name rest of
               Inr username \<Rightarrow> (RegisterPassword username, of_message PasswordPrompt)
             | Inl _ \<Rightarrow> (s, of_message NameInvalid))
          else (s, of_message UnknownCommand))"

fun capture_login_password :: "fsm_state \<Rightarrow> ustring \<Rightarrow> fsm_state \<times> transition" where
  "capture_login_password (LoginPassword username) line =
     (AwaitingAuth, of_effect (Authenticate username line))"
| "capture_login_password _ line = (Anon, of_messages [])"

fun capture_register_password :: "fsm_state \<Rightarrow> ustring \<Rightarrow> fsm_state \<times> transition" where
  "capture_register_password (RegisterPassword username) line =
     (RegisterConfirm username line, of_message ConfirmPrompt)"
| "capture_register_password _ line = (Anon, of_messages [])"

fun confirm_register_password :: "fsm_state \<Rightarrow> ustring \<Rightarrow> fsm_state \<times> transition" where
  "confirm_register_password (RegisterConfirm username password) line =
     (if password \<noteq> line then (Anon, of_message PasswordMismatch)
      else (AwaitingRegister, of_effect (Register username password)))"
| "confirm_register_password _ line = (Anon, of_messages [])"

definition enter_puppet_select :: "account \<Rightarrow> puppet list \<Rightarrow> fsm_state \<times> transition" where
  "enter_puppet_select account puppets =
     (PuppetSelect account puppets,
      of_message (if puppets = [] then NoPuppetsYet else PuppetList (map puppet_name puppets)))"

fun enter :: "fsm_state \<Rightarrow> entity_key \<Rightarrow> puppet_name \<Rightarrow> fsm_state \<times> transition" where
  "enter (PuppetSelect account puppets) chosen chosen_name =
     (AwaitingEnter account puppets chosen chosen_name, of_effect (Enter (acc_id account) chosen))"
| "enter _ chosen chosen_name = (Anon, of_messages [])"

fun select_puppet :: "fsm_state \<Rightarrow> ustring \<Rightarrow> fsm_state \<times> transition" where
  "select_puppet (PuppetSelect account puppets) arg =
     (case match_puppet puppets arg of
        None \<Rightarrow> (PuppetSelect account puppets, of_message NoSuchPuppet)
      | Some chosen \<Rightarrow> enter (PuppetSelect account puppets) (puppet_key chosen) (puppet_name chosen))"
| "select_puppet s arg = (s, of_messages [])"

fun create_puppet :: "fsm_state \<Rightarrow> ustring \<Rightarrow> fsm_state \<times> transition" where
  "create_puppet (PuppetSelect account puppets) arg =
     (case PuppetName_parse arg of
        Inr name \<Rightarrow> (AwaitingCreate account puppets, of_effect (CreatePuppet (acc_id account) name))
      | Inl _ \<Rightarrow> (PuppetSelect account puppets, of_message NameInvalid))"
| "create_puppet s arg = (s, of_messages [])"

definition puppet_select_input :: "fsm_state \<Rightarrow> ustring \<Rightarrow> fsm_state \<times> transition" where
  "puppet_select_input s line =
     (case split_command line of
        None \<Rightarrow> (s, of_messages [])
      | Some (command, rest) \<Rightarrow>
          if command = lit ''help'' \<or> command = lit ''?'' then (s, of_message PreLoginHelp)
          else if command = lit ''quit'' then (s, closing Goodbye)
          else if command = lit ''play'' then select_puppet s rest
          else if command = lit ''new'' then create_puppet s rest
          else (s, of_message UnknownCommand))"

fun dispatch_input :: "fsm_state \<Rightarrow> ustring \<Rightarrow> fsm_state \<times> transition" where
  "dispatch_input Anon line = anon_input Anon line"
| "dispatch_input (LoginPassword u) line = capture_login_password (LoginPassword u) line"
| "dispatch_input AwaitingAuth line = (AwaitingAuth, of_messages [])"
| "dispatch_input (RegisterPassword u) line = capture_register_password (RegisterPassword u) line"
| "dispatch_input (RegisterConfirm u p) line = confirm_register_password (RegisterConfirm u p) line"
| "dispatch_input AwaitingRegister line = (AwaitingRegister, of_messages [])"
| "dispatch_input (PuppetSelect a ps) line = puppet_select_input (PuppetSelect a ps) line"
| "dispatch_input (AwaitingCreate a ps) line = (AwaitingCreate a ps, of_messages [])"
| "dispatch_input (AwaitingEnter a ps k n) line = (AwaitingEnter a ps k n, of_messages [])"

definition on_input :: "fsm_state \<Rightarrow> ustring \<Rightarrow> fsm_state \<times> transition" where
  "on_input s line =
     (let (s', t) = dispatch_input s line
      in (s', t\<lparr>echo := echo_change (collects_secret s) (collects_secret s')\<rparr>))"

fun dispatch_effect :: "fsm_state \<Rightarrow> effect_result \<Rightarrow> fsm_state \<times> transition" where
  "dispatch_effect AwaitingAuth (Authenticated account puppets) = enter_puppet_select account puppets"
| "dispatch_effect AwaitingAuth (LoginRejected reason) =
     (Anon, of_message (login_rejection_message reason))"
| "dispatch_effect AwaitingAuth BackendError = (Anon, of_message ServerError)"
| "dispatch_effect AwaitingRegister (Registered account) = enter_puppet_select account []"
| "dispatch_effect AwaitingRegister (RegisterRejected RegisterUsernameTaken) =
     (Anon, of_message UsernameTaken)"
| "dispatch_effect AwaitingRegister BackendError = (Anon, of_message ServerError)"
| "dispatch_effect (AwaitingCreate account puppets) (PuppetCreated created) =
     (let (s', t) = enter (PuppetSelect account (puppets @ [created]))
                      (puppet_key created) (puppet_name created)
      in (s', t\<lparr>messages := MsgPuppetCreated (puppet_name created) # messages t\<rparr>))"
| "dispatch_effect (AwaitingCreate account puppets) BackendError =
     (PuppetSelect account puppets, of_message ServerError)"
| "dispatch_effect (AwaitingEnter account puppets chosen chosen_name) Entered =
     (Anon, \<lparr>messages = [EnteredWorld], effect = None,
             terminal = Some (Bound (acc_id account) chosen chosen_name), echo = None\<rparr>)"
| "dispatch_effect (AwaitingEnter account puppets chosen chosen_name) BackendError =
     (PuppetSelect account puppets, of_message ServerError)"
| "dispatch_effect s _ = (s, of_messages [])"

definition on_effect :: "fsm_state \<Rightarrow> effect_result \<Rightarrow> fsm_state \<times> transition" where
  "on_effect s result =
     (let (s', t) = dispatch_effect s result
      in (s', t\<lparr>echo := echo_change (collects_secret s) (collects_secret s')\<rparr>))"

section \<open>Shape of a step\<close>

text \<open>
  An awaiting state has an effect in flight; \<open>matches\<close> says which one. The states that accept
  input are the others.
\<close>

fun awaiting :: "fsm_state \<Rightarrow> bool" where
  "awaiting AwaitingAuth = True"
| "awaiting AwaitingRegister = True"
| "awaiting (AwaitingCreate _ _) = True"
| "awaiting (AwaitingEnter _ _ _ _) = True"
| "awaiting _ = False"

fun matches :: "fsm_effect \<Rightarrow> fsm_state \<Rightarrow> bool" where
  "matches (Authenticate _ _) s = (s = AwaitingAuth)"
| "matches (Register _ _) s = (s = AwaitingRegister)"
| "matches (CreatePuppet a _) s = (case s of AwaitingCreate acc _ \<Rightarrow> acc_id acc = a | _ \<Rightarrow> False)"
| "matches (Enter a k) s = (case s of AwaitingEnter acc _ k' _ \<Rightarrow> acc_id acc = a \<and> k' = k | _ \<Rightarrow> False)"

text \<open>The results a driver may answer an effect with.\<close>

fun reply_kind :: "fsm_effect \<Rightarrow> effect_result \<Rightarrow> bool" where
  "reply_kind (Authenticate _ _) r =
     (case r of Authenticated _ _ \<Rightarrow> True | LoginRejected _ \<Rightarrow> True | BackendError \<Rightarrow> True | _ \<Rightarrow> False)"
| "reply_kind (Register _ _) r =
     (case r of Registered _ \<Rightarrow> True | RegisterRejected _ \<Rightarrow> True | BackendError \<Rightarrow> True | _ \<Rightarrow> False)"
| "reply_kind (CreatePuppet _ _) r =
     (case r of PuppetCreated _ \<Rightarrow> True | BackendError \<Rightarrow> True | _ \<Rightarrow> False)"
| "reply_kind (Enter _ _) r = (case r of Entered \<Rightarrow> True | BackendError \<Rightarrow> True | _ \<Rightarrow> False)"

lemma transition_fields [simp]:
  "messages (of_messages ms) = ms" "effect (of_messages ms) = None"
  "terminal (of_messages ms) = None" "echo (of_messages ms) = None"
  "messages (of_message m) = [m]" "effect (of_message m) = None"
  "terminal (of_message m) = None" "echo (of_message m) = None"
  "messages (closing m) = [m]" "effect (closing m) = None"
  "terminal (closing m) = Some Closed" "echo (closing m) = None"
  "messages (of_effect e) = []" "effect (of_effect e) = Some e"
  "terminal (of_effect e) = None" "echo (of_effect e) = None"
  by (simp_all add: of_messages_def of_message_def closing_def of_effect_def)

lemma dispatch_register_rejected [simp]:
  "dispatch_effect AwaitingRegister (RegisterRejected e) = (Anon, of_message UsernameTaken)"
  by (cases e) simp

text \<open>Where an input line takes each state that accepts one, and what it asks for.\<close>

fun is_prompt :: "session_message \<Rightarrow> bool" where
  "is_prompt PasswordPrompt = True"
| "is_prompt ConfirmPrompt = True"
| "is_prompt _ = False"

text \<open>
  \<open>input_post s line s' t\<close> is the contract of one input: a terminal is \<open>Closed\<close> and ends the
  exchange; an effect leaves the state that awaits it and shows nothing; otherwise the new
  state accepts input. Prompts are shown exactly on entering a secret state.
\<close>

definition input_post :: "fsm_state \<Rightarrow> transition \<Rightarrow> bool" where
  "input_post s' t \<longleftrightarrow>
     (terminal t = None \<or> terminal t = Some Closed) \<and> length (messages t) \<le> 1 \<and>
     (case effect t of
        None \<Rightarrow> \<not> awaiting s'
      | Some e \<Rightarrow> matches e s' \<and> messages t = [] \<and> terminal t = None) \<and>
     (terminal t = None \<longrightarrow> collects_secret s' = (\<exists>m. messages t = [m] \<and> is_prompt m)) \<and>
     (terminal t \<noteq> None \<longrightarrow> \<not> collects_secret s' \<and> messages t = [Goodbye])"

lemma input_post_echo [simp]: "input_post s' (t\<lparr>echo := e\<rparr>) = input_post s' t"
  by (simp add: input_post_def cong: option.case_cong)

lemma anon_input_post: "anon_input Anon line = (s', t) \<Longrightarrow> input_post s' t"
  by (auto simp: anon_input_def input_post_def parse_name_def
      split: option.splits prod.splits sum.splits if_splits)

lemma select_puppet_post: "select_puppet (PuppetSelect a ps) arg = (s', t) \<Longrightarrow> input_post s' t"
  by (auto simp: input_post_def split: option.splits)

lemma create_puppet_post: "create_puppet (PuppetSelect a ps) arg = (s', t) \<Longrightarrow> input_post s' t"
  by (auto simp: input_post_def split: sum.splits)

lemma puppet_select_post: "puppet_select_input (PuppetSelect a ps) line = (s', t) \<Longrightarrow> input_post s' t"
proof (cases "split_command line")
  case None
  assume "puppet_select_input (PuppetSelect a ps) line = (s', t)"
  with None show ?thesis by (auto simp: puppet_select_input_def input_post_def)
next
  case (Some cr)
  assume st: "puppet_select_input (PuppetSelect a ps) line = (s', t)"
  obtain c r where cr: "cr = (c, r)" by (cases cr)
  show ?thesis
    using st Some cr select_puppet_post create_puppet_post
    by (auto simp: puppet_select_input_def input_post_def
        simp del: select_puppet.simps create_puppet.simps split: if_splits)
qed

lemma dispatch_input_post:
  assumes "\<not> awaiting s" and "dispatch_input s line = (s', t)"
  shows "input_post s' t"
proof (cases s)
  case Anon
  with assms show ?thesis by (simp add: anon_input_post)
next
  case (PuppetSelect a ps)
  with assms show ?thesis by (simp add: puppet_select_post)
qed (use assms in \<open>auto simp: input_post_def split: if_splits\<close>)

lemma on_input_post:
  assumes "\<not> awaiting s" and "on_input s line = (s', t)"
  shows "input_post s' t" "echo t = echo_change (collects_secret s) (collects_secret s')"
proof -
  obtain s1 t1 where d: "dispatch_input s line = (s1, t1)"
    by (cases "dispatch_input s line")
  with dispatch_input_post [OF assms(1) d] assms(2)
  show "input_post s' t" "echo t = echo_change (collects_secret s) (collects_secret s')"
    by (auto simp: on_input_def)
qed

text \<open>
  \<open>effect_post s s' t\<close> is the contract of one answer: at most one more effect, from a created
  puppet to entering it; a terminal only from the awaited entry; no secret, no prompt, and
  otherwise a state that accepts input.
\<close>

definition effect_post :: "fsm_state \<Rightarrow> fsm_state \<Rightarrow> transition \<Rightarrow> bool" where
  "effect_post s s' t \<longleftrightarrow>
     (case effect t of
        None \<Rightarrow> \<not> awaiting s'
      | Some e \<Rightarrow> matches e s' \<and> terminal t = None \<and> (\<exists>a ps. s = AwaitingCreate a ps)) \<and>
     (\<forall>x. terminal t = Some x \<longrightarrow>
        (\<exists>a ps k n. s = AwaitingEnter a ps k n \<and> x = Bound (acc_id a) k n)) \<and>
     \<not> collects_secret s \<and> \<not> collects_secret s' \<and> (\<forall>m \<in> set (messages t). \<not> is_prompt m)"

lemma effect_post_echo [simp]: "effect_post s s' (t\<lparr>echo := e\<rparr>) = effect_post s s' t"
  by (simp add: effect_post_def cong: option.case_cong)

lemma is_prompt_rejection: "\<not> is_prompt (login_rejection_message e)"
  by (cases e) simp_all

lemma dispatch_effect_post:
  assumes "matches e s" and "reply_kind e r" and "dispatch_effect s r = (s', t)"
  shows "effect_post s s' t"
  using assms
  by (cases e; cases s; cases r)
    (auto simp: effect_post_def enter_puppet_select_def is_prompt_rejection
      split: if_splits)

lemma on_effect_post:
  assumes "matches e s" and "reply_kind e r" and "on_effect s r = (s', t)"
  shows "effect_post s s' t" "echo t = None"
proof -
  obtain s1 t1 where d: "dispatch_effect s r = (s1, t1)"
    by (cases "dispatch_effect s r")
  with dispatch_effect_post [OF assms(1,2) d] assms(3)
  show "effect_post s s' t" "echo t = None"
    by (auto simp: on_effect_def) (auto simp: effect_post_def)
qed

text \<open>Only an answer to a puppet creation asks for another effect, whatever the answer.\<close>

lemma dispatch_effect_again:
  assumes "dispatch_effect s r = (s', t)" and "effect t \<noteq> None"
  shows "(\<exists>a ps. s = AwaitingCreate a ps) \<and> (\<exists>a ps k n. s' = AwaitingEnter a ps k n)"
proof (cases s)
  case (AwaitingCreate a ps)
  with assms show ?thesis by (cases r) auto
next
  case (AwaitingEnter a ps k n)
  with assms show ?thesis by (cases r) auto
qed (use assms in \<open>cases r; auto simp: enter_puppet_select_def\<close>)+

lemma on_effect_again:
  assumes "on_effect s r = (s', t)" and "effect t \<noteq> None"
  shows "\<exists>a ps. s = AwaitingCreate a ps" "\<exists>a ps k n. s' = AwaitingEnter a ps k n"
proof -
  obtain s1 t1 where d: "dispatch_effect s r = (s1, t1)"
    by (cases "dispatch_effect s r")
  with assms have "s1 = s'" "effect t1 \<noteq> None" by (auto simp: on_effect_def)
  with d dispatch_effect_again
  show "\<exists>a ps. s = AwaitingCreate a ps" "\<exists>a ps k n. s' = AwaitingEnter a ps k n"
    by blast+
qed

lemma fst_on_input [simp]: "fst (on_input s l) = fst (dispatch_input s l)"
  by (cases "dispatch_input s l") (simp add: on_input_def)

lemma fst_on_effect [simp]: "fst (on_effect s r) = fst (dispatch_effect s r)"
  by (cases "dispatch_effect s r") (simp add: on_effect_def)

section \<open>Ownership\<close>

text \<open>
  \<open>owns a k\<close>: account \<open>a\<close> owns the puppet with durable key \<open>k\<close>. A machine only ever holds puppets
  of the account it holds, provided the driver's answers do.
\<close>

fun fsm_owns :: "(account_id \<Rightarrow> entity_key \<Rightarrow> bool) \<Rightarrow> fsm_state \<Rightarrow> bool" where
  "fsm_owns owns (PuppetSelect a ps) = (\<forall>p \<in> set ps. owns (acc_id a) (puppet_key p))"
| "fsm_owns owns (AwaitingCreate a ps) = (\<forall>p \<in> set ps. owns (acc_id a) (puppet_key p))"
| "fsm_owns owns (AwaitingEnter a ps k n) =
     ((\<forall>p \<in> set ps. owns (acc_id a) (puppet_key p)) \<and> owns (acc_id a) k)"
| "fsm_owns owns _ = True"

fun reply_owns :: "(account_id \<Rightarrow> entity_key \<Rightarrow> bool) \<Rightarrow> fsm_effect \<Rightarrow> effect_result \<Rightarrow> bool" where
  "reply_owns owns e (Authenticated a ps) = (\<forall>p \<in> set ps. owns (acc_id a) (puppet_key p))"
| "reply_owns owns (CreatePuppet a _) (PuppetCreated p) = owns a (puppet_key p)"
| "reply_owns owns _ _ = True"

lemma fsm_owns_mono:
  assumes "fsm_owns owns s" and "\<And>a k. owns a k \<Longrightarrow> owns' a k"
  shows "fsm_owns owns' s"
  using assms by (cases s) auto

lemma match_puppet_in: "match_puppet ps arg = Some p \<Longrightarrow> p \<in> set ps"
  by (auto simp: match_puppet_def vec_get_Some find_Some_iff split: option.splits bind_splits)

lemma puppet_select_owns:
  assumes "fsm_owns owns (PuppetSelect a ps)"
  shows "fsm_owns owns (fst (puppet_select_input (PuppetSelect a ps) line))"
proof -
  have sel: "fsm_owns owns (fst (select_puppet (PuppetSelect a ps) arg))" for arg
    using assms match_puppet_in [of ps arg] by (auto split: option.splits)
  have new: "fsm_owns owns (fst (create_puppet (PuppetSelect a ps) arg))" for arg
    using assms by (auto split: sum.splits)
  show ?thesis
    using assms sel new
    by (auto simp: puppet_select_input_def simp del: select_puppet.simps create_puppet.simps
        split: option.splits prod.splits)
qed

lemma anon_input_owns: "fsm_owns owns (fst (anon_input Anon line))"
  by (auto simp: anon_input_def split: option.splits prod.splits sum.splits)

lemma on_input_owns:
  assumes "fsm_owns owns s"
  shows "fsm_owns owns (fst (on_input s line))"
proof -
  have "fsm_owns owns (fst (dispatch_input s line))"
    using assms puppet_select_owns [of owns _ _ line] anon_input_owns [of owns line] by (cases s) auto
  then show ?thesis by simp
qed

lemma dispatch_effect_owns:
  assumes "fsm_owns owns s" and "matches e s" and "reply_owns owns e r"
  shows "fsm_owns owns (fst (dispatch_effect s r))"
proof (cases s)
  case AwaitingAuth
  with assms show ?thesis by (cases r) (auto simp: enter_puppet_select_def)
next
  case AwaitingRegister
  with assms show ?thesis by (cases r) (auto simp: enter_puppet_select_def)
next
  case (AwaitingCreate a ps)
  with assms obtain n where "e = CreatePuppet (acc_id a) n" by (cases e) auto
  with assms AwaitingCreate show ?thesis by (cases r) auto
next
  case (AwaitingEnter a ps k n)
  with assms show ?thesis by (cases r) auto
qed (use assms in \<open>auto\<close>)

lemma on_effect_owns:
  assumes "fsm_owns owns s" and "matches e s" and "reply_owns owns e r"
  shows "fsm_owns owns (fst (on_effect s r))"
  using dispatch_effect_owns [OF assms] by simp

section \<open>What was typed\<close>

text \<open>
  A history of a machine: the input lines fed so far, newest first, with answers in between.
\<close>

inductive fsm_trace :: "ustring list \<Rightarrow> fsm_state \<Rightarrow> bool" where
  start: "fsm_trace [] fsm_new"
| line: "fsm_trace ls s \<Longrightarrow> fsm_trace (l # ls) (fst (on_input s l))"
| reply: "fsm_trace ls s \<Longrightarrow> fsm_trace ls (fst (on_effect s r))"

definition asks_for :: "string \<Rightarrow> username \<Rightarrow> ustring \<Rightarrow> bool" where
  "asks_for verb u cmd \<longleftrightarrow> split_command cmd = Some (lit verb, username_str u) \<and> valid_name (username_str u)"

fun typed :: "ustring list \<Rightarrow> fsm_state \<Rightarrow> bool" where
  "typed ls (LoginPassword u) = (\<exists>cmd ls'. ls = cmd # ls' \<and> asks_for ''login'' u cmd)"
| "typed ls (RegisterPassword u) = (\<exists>cmd ls'. ls = cmd # ls' \<and> asks_for ''register'' u cmd)"
| "typed ls (RegisterConfirm u p) = (\<exists>cmd ls'. ls = p # cmd # ls' \<and> asks_for ''register'' u cmd)"
| "typed ls _ = True"

lemma anon_typed: "typed (l # ls) (fst (anon_input Anon l))"
  by (auto simp: anon_input_def parse_name_def asks_for_def split: option.splits sum.splits)

lemma puppet_select_typed: "typed ls' (fst (puppet_select_input (PuppetSelect a ps) l))"
  by (auto simp: puppet_select_input_def split: option.splits prod.splits sum.splits)

lemma on_input_typed:
  assumes "typed ls s"
  shows "typed (l # ls) (fst (dispatch_input s l))"
  using assms anon_typed puppet_select_typed by (cases s) auto

lemma on_effect_typed:
  assumes "typed ls s"
  shows "typed ls (fst (dispatch_effect s r))"
  using assms by (cases s; cases r) (auto simp: enter_puppet_select_def)

lemma trace_typed: "fsm_trace ls s \<Longrightarrow> typed ls s"
  by (induction rule: fsm_trace.induct) (simp_all add: fsm_new_def on_input_typed on_effect_typed)

lemma on_input_credentials:
  assumes "on_input s line = (s', t)"
  shows "effect t = Some (Authenticate u p) \<longleftrightarrow> s = LoginPassword u \<and> p = line"
    and "effect t = Some (Register u p) \<longleftrightarrow> s = RegisterConfirm u p \<and> p = line"
proof -
  obtain s1 t1 where d: "dispatch_input s line = (s1, t1)"
    by (cases "dispatch_input s line")
  have e: "effect t = effect t1" using assms d by (auto simp: on_input_def)
  have sel: "effect t1 \<noteq> Some (Authenticate u p) \<and> effect t1 \<noteq> Some (Register u p)"
    if "puppet_select_input (PuppetSelect a ps) line = (s1, t1)" for a ps
    using that by (auto simp: puppet_select_input_def split: option.splits prod.splits sum.splits if_splits)
  have anon: "effect t1 = None" if "anon_input Anon line = (s1, t1)"
    using that by (auto simp: anon_input_def split: option.splits prod.splits sum.splits if_splits)
  show "effect t = Some (Authenticate u p) \<longleftrightarrow> s = LoginPassword u \<and> p = line"
    unfolding e using d sel anon by (cases s) (auto split: if_splits)
  show "effect t = Some (Register u p) \<longleftrightarrow> s = RegisterConfirm u p \<and> p = line"
    unfolding e using d sel anon by (cases s) (auto split: if_splits)
qed

lemma on_input_select:
  assumes "on_input s line = (s', t)" and "effect t = Some (CreatePuppet a n) \<or> effect t = Some (Enter a k)"
  shows "\<exists>acc ps. s = PuppetSelect acc ps"
proof -
  obtain s1 t1 where d: "dispatch_input s line = (s1, t1)"
    by (cases "dispatch_input s line")
  with assms have e: "effect t1 = Some (CreatePuppet a n) \<or> effect t1 = Some (Enter a k)"
    by (auto simp: on_input_def)
  have anon: "effect t1 = None" if "anon_input Anon line = (s1, t1)"
    using that by (auto simp: anon_input_def split: option.splits prod.splits sum.splits if_splits)
  show ?thesis
    using d e anon by (cases s) (auto split: if_splits)
qed

text \<open>
  C28. credentials reach the account store only as the player typed them. In any history of a
  login machine, whatever the answers in between, a registration is requested only when the
  last three lines were a register command naming a valid username and then the same password
  twice; an authentication only when the last two were a login command for that username and
  the password. Puppets are created and entered only from the selection screen.
\<close>

theorem credentials_as_typed:
  assumes "fsm_trace ls s" and "on_input s line = (s', t)" and "effect t = Some e"
  shows "case e of
      Register u p \<Rightarrow> line = p \<and> (\<exists>cmd ls'. ls = p # cmd # ls' \<and> asks_for ''register'' u cmd)
    | Authenticate u p \<Rightarrow> line = p \<and> (\<exists>cmd ls'. ls = cmd # ls' \<and> asks_for ''login'' u cmd)
    | _ \<Rightarrow> \<exists>a ps. s = PuppetSelect a ps"
proof (cases e)
  case (Register u p)
  then show ?thesis
    using trace_typed [OF assms(1)] on_input_credentials(2) [OF assms(2), of u p] assms(3) by auto
next
  case (Authenticate u p)
  then show ?thesis
    using trace_typed [OF assms(1)] on_input_credentials(1) [OF assms(2), of u p] assms(3) by auto
next
  case (CreatePuppet a n)
  with assms(3) have "effect t = Some (CreatePuppet a n)" by simp
  then show ?thesis using CreatePuppet on_input_select [OF assms(2)] by auto
next
  case (Enter a k)
  with assms(3) have "effect t = Some (Enter a k)" by simp
  then show ?thesis using Enter on_input_select [OF assms(2)] by auto
qed

lemmas line_eval = split_command_def trim_def trim_start_def trim_end_def is_whitespace_def
  to_ascii_lowercase_def ascii_lower_char_def is_ascii_upper_def lit_def

lemma register_bob: "split_command (lit ''register bob'') = Some (lit ''register'', lit ''bob'')"
  by (simp add: line_eval)

lemma valid_bob: "valid_name (lit ''bob'')"
  by (simp add: valid_name_def is_allowed_def is_ascii_alphanumeric_def is_ascii_lower_def
      is_ascii_digit_def lit_def)

lemma credentials_trace_example:
  "fsm_trace [lit ''pw'', lit ''register bob''] (RegisterConfirm (Username (lit ''bob'')) (lit ''pw''))"
proof -
  have 1: "fst (on_input fsm_new (lit ''register bob'')) = RegisterPassword (Username (lit ''bob''))"
  proof -
    have "Username_parse (lit ''bob'') = Inr (Username (lit ''bob''))"
      using valid_bob by simp
    then show ?thesis
      by (simp add: fsm_new_def anon_input_def register_bob parse_name_def del: Username_parse_ok)
  qed
  show ?thesis
    using fsm_trace.line [OF fsm_trace.line [OF fsm_trace.start, of "lit ''register bob''"], of "lit ''pw''"] 1
    by simp
qed

theorem credentials_as_typed_witness:
  "\<exists>cmd ls'. [lit ''pw'', lit ''register bob''] = lit ''pw'' # cmd # ls' \<and>
     asks_for ''register'' (Username (lit ''bob'')) cmd"
  using credentials_as_typed [OF credentials_trace_example, of "lit ''pw''" AwaitingRegister
      "of_effect (Register (Username (lit ''bob'')) (lit ''pw''))\<lparr>echo := Some EchoEnabled\<rparr>"
      "Register (Username (lit ''bob'')) (lit ''pw'')"]
  by (simp add: on_input_def)

section \<open>Choosing a puppet\<close>

lemma match_ordinal: "parse_usize arg = Some n \<Longrightarrow>
    match_puppet ps arg = (if 1 \<le> n \<and> n \<le> length ps then Some (ps ! (n - 1)) else None)"
  by (auto simp: match_puppet_def checked_sub_usize_def vec_get_def)

lemma match_name:
  assumes "parse_usize arg = None"
  shows "match_puppet ps arg = List.find (\<lambda>p. eq_ignore_ascii_case (puppet_name_str (puppet_name p)) arg) ps"
  using assms by (simp add: match_puppet_def)

lemma eq_ignore_ascii_case_refl [simp]: "eq_ignore_ascii_case s s"
  by (simp add: eq_ignore_ascii_case_def)

lemma find_first:
  "i < length ps \<Longrightarrow> P (ps ! i) \<Longrightarrow> (\<And>j. j < i \<Longrightarrow> \<not> P (ps ! j)) \<Longrightarrow> List.find P ps = Some (ps ! i)"
  by (auto simp: find_Some_iff)

lemma match_name_first:
  assumes "i < length ps" and "valid_name (puppet_name_str (puppet_name (ps ! i)))"
    and "eq_ignore_ascii_case (puppet_name_str (puppet_name (ps ! i))) arg"
    and "\<And>j. j < i \<Longrightarrow> \<not> eq_ignore_ascii_case (puppet_name_str (puppet_name (ps ! j)))
        (puppet_name_str (puppet_name (ps ! i)))"
  shows "match_puppet ps arg = Some (ps ! i)"
proof -
  have none: "parse_usize arg = None" by (rule valid_name_not_number [OF assms(2,3)])
  have "List.find (\<lambda>p. eq_ignore_ascii_case (puppet_name_str (puppet_name p)) arg) ps = Some (ps ! i)"
    using assms by (intro find_first) (auto simp: eq_ignore_ascii_case_def)
  with none show ?thesis by (simp add: match_name)
qed

lemma match_digits:
  assumes "\<And>p. p \<in> set ps \<Longrightarrow> valid_name (puppet_name_str (puppet_name p))"
    and "arg \<noteq> []" and "list_all is_ascii_digit arg" and "match_puppet ps arg = Some p"
  shows "\<exists>j < length ps. p = ps ! j \<and> parse_usize arg = Some (Suc j)"
proof (cases "parse_usize arg")
  case (Some n)
  with assms(4) show ?thesis
    by (intro exI [of _ "n - 1"]) (auto simp: match_ordinal split: if_splits)
next
  case None
  with assms(4) have p: "p \<in> set ps" "eq_ignore_ascii_case (puppet_name_str (puppet_name p)) arg"
    by (auto simp: match_name find_Some_iff)
  have "list_all is_ascii_digit (to_ascii_lowercase (puppet_name_str (puppet_name p)))"
    using p(2) assms(3) by (simp add: eq_ignore_ascii_case_def to_ascii_lowercase_def list_all_iff digit_lower)
  then have "list_all is_ascii_digit (puppet_name_str (puppet_name p))"
    by (simp add: to_ascii_lowercase_def list_all_iff digit_lower)
  with assms(1) [OF p(1)] show ?thesis by (simp add: valid_name_def)
qed

text \<open>
  Every listed puppet can be entered by its displayed ordinal, and by its name in any case
  when no earlier puppet has the same name up to case; a digit argument never selects by name.
\<close>

theorem every_puppet_selectable:
  assumes "i < length ps" and "length ps \<le> usize_max"
    and "\<forall>p \<in> set ps. PuppetName_parse (puppet_name_str (puppet_name p)) = Inr (puppet_name p)"
  shows "match_puppet ps (show_nat (Suc i)) = Some (ps ! i) \<and>
    ((\<forall>j < i. \<not> eq_ignore_ascii_case (puppet_name_str (puppet_name (ps ! j)))
        (puppet_name_str (puppet_name (ps ! i)))) \<longrightarrow>
      (\<forall>arg. eq_ignore_ascii_case (puppet_name_str (puppet_name (ps ! i))) arg \<longrightarrow>
        match_puppet ps arg = Some (ps ! i))) \<and>
    (\<forall>arg p. arg \<noteq> [] \<and> list_all is_ascii_digit arg \<and> match_puppet ps arg = Some p \<longrightarrow>
      (\<exists>j < length ps. p = ps ! j \<and> parse_usize arg = Some (Suc j)))"
proof -
  have valid: "valid_name (puppet_name_str (puppet_name p))" if "p \<in> set ps" for p
    using assms(3) that by auto
  have "parse_usize (show_nat (Suc i)) = Some (Suc i)"
    using assms(1,2) by (intro parse_usize_show_nat) simp
  then have "match_puppet ps (show_nat (Suc i)) = Some (ps ! i)"
    using assms(1) by (simp add: match_ordinal)
  moreover have "match_puppet ps arg = Some (ps ! i)"
    if "\<forall>j < i. \<not> eq_ignore_ascii_case (puppet_name_str (puppet_name (ps ! j)))
        (puppet_name_str (puppet_name (ps ! i)))"
      and "eq_ignore_ascii_case (puppet_name_str (puppet_name (ps ! i))) arg" for arg
    using that assms(1) valid by (intro match_name_first) auto
  ultimately show ?thesis using match_digits valid by blast
qed

theorem every_puppet_selectable_witness:
  "match_puppet [\<lparr>puppet_key = EntityKey 7, puppet_name = PuppetName (lit ''Bob'')\<rparr>] (show_nat 1) =
     Some \<lparr>puppet_key = EntityKey 7, puppet_name = PuppetName (lit ''Bob'')\<rparr>"
proof -
  have "valid_name (lit ''Bob'')"
    by (simp add: valid_name_def is_allowed_def is_ascii_alphanumeric_def is_ascii_lower_def
        is_ascii_upper_def is_ascii_digit_def lit_def)
  then show ?thesis
    using every_puppet_selectable [of 0 "[\<lparr>puppet_key = EntityKey 7, puppet_name = PuppetName (lit ''Bob'')\<rparr>]"]
    by (simp add: usize_max_def)
qed

end
