(* ===== verification/I18n.thy ===== *)
theory I18n
  imports Prelude
begin

text \<open>
  The message catalog of crates/mud-i18n: locales (locale.rs), keys (key.rs), the catalog with
  its built-in English table (catalog.rs), and the lookup with its fallbacks and its
  interpolation (translate.rs). The warning on a missing key is telemetry and left out.
\<close>

section \<open>The catalog\<close>

datatype locale_tag = Locale (locale_str: ustring)
datatype message_key = MessageKey (key_str: ustring)

definition EN :: locale_tag where
  "EN = Locale (lit ''en'')"

record catalog =
  cat_messages :: "locale_tag \<Rightarrow> (message_key \<Rightarrow> ustring option) option"

definition catalog_new :: catalog where
  "catalog_new = \<lparr>cat_messages = (\<lambda>_. None)\<rparr>"

definition catalog_insert :: "catalog \<Rightarrow> locale_tag \<Rightarrow> message_key \<Rightarrow> ustring \<Rightarrow> catalog" where
  "catalog_insert cat loc key template =
     (let row = (case cat_messages cat loc of Some r \<Rightarrow> r | None \<Rightarrow> (\<lambda>_. None))
      in cat\<lparr>cat_messages := (cat_messages cat)(loc := Some (row(key := Some template)))\<rparr>)"

definition catalog_lookup :: "catalog \<Rightarrow> locale_tag \<Rightarrow> message_key \<Rightarrow> ustring option" where
  "catalog_lookup cat loc key = Option.bind (cat_messages cat loc) (\<lambda>row. row key)"

text \<open>
  The built-in table. Line feeds, quotes and apostrophes are written by their code points (10, 34, 39).
\<close>

definition ENTRIES :: "(string \<times> ustring) list" where
  "ENTRIES =
    [
     (''look.exits'', lit ''Exits: { $exits }''),
     (''look.also-here'', lit ''Also here: { $names }''),
     (''look.player-here'', lit ''{ $name } is here.''),
     (''look.players-here'', lit ''{ $names } are here.''),
     (''look.void'', lit ''You are nowhere in particular.''),
     (''move.no-exit'', lit ''You can'' @ [39] @ lit ''t go that way.''),
     (''move.depart'', lit ''{ $name } leaves { $direction }.''),
     (''move.arrive-from'', lit ''{ $name } arrives from { $direction }.''),
     (''move.arrive'', lit ''{ $name } arrives.''),
     (''presence.enter'', lit ''{ $name } appears from nowhere.''),
     (''presence.leave'', lit ''{ $name } disappears.''),
     (''say.speech'', lit ''You say, '' @ [34] @ lit ''{ $message }'' @ [34]),
     (''say.broadcast'', lit ''{ $name } says, '' @ [34] @ lit ''{ $message }'' @ [34]),
     (''say.nothing'', lit ''Say what?''),
     (''inventory.header'', lit ''You are carrying:''),
     (''inventory.empty'', lit ''You are carrying nothing.''),
     (''who.online'', lit ''Players online: { $names }''),
     (''get.taken'', lit ''You take { $item }.''),
     (''drop.dropped'', lit ''You drop { $item }.''),
     (''object.not-here'', lit ''You don'' @ [39] @ lit ''t see that here.''),
     (''object.not-carried'', lit ''You aren'' @ [39] @ lit ''t carrying that.''),
     (''object.ambiguous'', lit ''Which do you mean? { $options }''),
     (''content.too-long'', lit ''Your message is too long.''),
     (''command.not-found'', lit ''Unrecognized command. Type '' @ [39] @ lit ''help'' @ [39] @ lit ''.''),
     (''command.ambiguous'', lit ''Which do you mean? { $options }''),
     (''command.bad-switch'', lit ''Invalid switch: { $reason }.''),
     (''command.unbound'', lit ''That command isn'' @ [39] @ lit ''t available right now.''),
     (''command.denied'', lit ''You can'' @ [39] @ lit ''t do that.''),
     (''session.prompt'', lit ''Type '' @ [39] @ lit ''login <name>'' @ [39] @ lit '' or '' @ [39] @ lit ''register <name>'' @ [39] @ lit ''. '' @ [39] @ lit ''help'' @ [39] @ lit '' lists commands.''),
     (''session.help'', lit ''Commands: login <name>, register <name>, who, help, quit.''),
     (''session.who-stub'', lit ''Nobody is listed yet.''),
     (''session.unknown'', lit ''Unrecognized command. Type '' @ [39] @ lit ''help'' @ [39] @ lit ''.''),
     (''session.password'', lit ''Password:''),
     (''session.confirm'', lit ''Confirm password:''),
     (''session.login-failed'', lit ''Login failed.''),
     (''session.suspended'', lit ''This account is suspended.''),
     (''session.banned'', lit ''This account is banned.''),
     (''session.server-error'', lit ''Something went wrong. Please try again.''),
     (''session.no-puppets'', lit ''You have no characters yet. Type '' @ [39] @ lit ''new <name>'' @ [39] @ lit '' to create one.''),
     (''session.mismatch'', lit ''The passwords did not match.''),
     (''session.name-invalid'', lit ''That name isn'' @ [39] @ lit ''t allowed. Use letters, digits, _ '' @ [39] @ lit '' - (1-32 chars, not all digits).''),
     (''session.username-taken'', lit ''That username is already taken.''),
     (''session.entered'', lit ''Welcome. You are now in the world.''),
     (''session.goodbye'', lit ''Goodbye.''),
     (''session.puppet-list'', lit ''Your characters:'' @ [10] @ lit ''{ $names }'' @ [10] @ lit ''Type '' @ [39] @ lit ''play <name or number>'' @ [39] @ lit '' or '' @ [39] @ lit ''new <name>'' @ [39] @ lit ''.''),
     (''session.puppet-created'', lit ''Created { $name }.''),
     (''session.no-such-puppet'', lit ''No such character.''),
     (''quit.goodbye'', lit ''Goodbye!'')
    ]"

definition builtin_en :: catalog where
  "builtin_en = foldl (\<lambda>cat (key, template). catalog_insert cat EN (MessageKey (lit key)) template)
     catalog_new ENTRIES"

section \<open>Interpolation and lookup\<close>

text \<open>\<open>str::replace\<close>: every non-overlapping match, from the left.\<close>

function (sequential) replace_all :: "ustring \<Rightarrow> ustring \<Rightarrow> ustring \<Rightarrow> ustring" where
  "replace_all p v [] = (if p = [] then v else [])"
| "replace_all p v (c # s) =
     (if p = [] then v @ c # replace_all p v s
      else (case strip_prefix p (c # s) of
          Some r \<Rightarrow> v @ replace_all p v r
        | None \<Rightarrow> c # replace_all p v s))"
  by pat_completeness auto
termination
proof (relation "measure (\<lambda>(p, v, s). length s)")
  fix p v s :: ustring and c :: rchar and r
  assume "p \<noteq> []" and "strip_prefix p (c # s) = Some r"
  then have "length (c # s) = length p + length r" and "0 < length p"
    by (auto simp: strip_prefix_Some simp flip: length_append)
  then show "((p, v, r), p, v, c # s) \<in> measure (\<lambda>(p, v, s). length s)"
    by simp
qed auto

definition interpolate :: "ustring \<Rightarrow> (string \<times> ustring) list \<Rightarrow> ustring" where
  "interpolate template args =
     (if args = [] \<or> 123 \<notin> set template then template
      else foldl (\<lambda>acc (name, value).
             replace_all (lit ''{$'' @ lit name @ lit ''}'') value
               (replace_all (lit ''{ $'' @ lit name @ lit '' }'') value acc))
           template args)"

definition translate :: "catalog \<Rightarrow> locale_tag \<Rightarrow> message_key \<Rightarrow> (string \<times> ustring) list \<Rightarrow> ustring" where
  "translate cat loc key args =
     (let template = (case catalog_lookup cat loc key of
            Some s \<Rightarrow> s
          | None \<Rightarrow> (case catalog_lookup cat EN key of Some s \<Rightarrow> s | None \<Rightarrow> key_str key))
      in interpolate template args)"

text \<open>The \<open>t!\<close> macro: lookup in the built-in catalog.\<close>

definition t_macro :: "locale_tag \<Rightarrow> string \<Rightarrow> (string \<times> ustring) list \<Rightarrow> ustring" where
  "t_macro loc key args = translate builtin_en loc (MessageKey (lit key)) args"

section \<open>Facts\<close>

lemma lookup_insert:
  "catalog_lookup (catalog_insert cat loc key s) loc' key' =
     (if loc' = loc \<and> key' = key then Some s else catalog_lookup cat loc' key')"
  by (auto simp: catalog_lookup_def catalog_insert_def Let_def split: option.splits)

lemma lookup_new: "catalog_lookup catalog_new loc key = None"
  by (simp add: catalog_new_def catalog_lookup_def)

lemma lookup_fold:
  "catalog_lookup (foldl (\<lambda>cat (key, template). catalog_insert cat EN (MessageKey (lit key)) template) cat es)
      EN (MessageKey (lit k)) =
    (case map_of (rev es) k of Some s \<Rightarrow> Some s | None \<Rightarrow> catalog_lookup cat EN (MessageKey (lit k)))"
  by (induction es rule: rev_induct) (auto simp: lookup_insert)

lemma lookup_fold_other:
  "loc \<noteq> EN \<Longrightarrow>
    catalog_lookup (foldl (\<lambda>cat (key, template). catalog_insert cat EN (MessageKey (lit key)) template) cat es)
      loc key = catalog_lookup cat loc key"
  by (induction es rule: rev_induct) (auto simp: lookup_insert)

lemma lookup_builtin: "catalog_lookup builtin_en EN (MessageKey (lit k)) = map_of (rev ENTRIES) k"
  unfolding builtin_en_def lookup_fold by (simp add: lookup_new split: option.split)

lemma lookup_builtin_other: "loc \<noteq> EN \<Longrightarrow> catalog_lookup builtin_en loc key = None"
  by (simp add: builtin_en_def lookup_fold_other lookup_new)

lemma entries_distinct: "distinct (map fst ENTRIES)"
  by (simp add: ENTRIES_def)

lemma map_of_rev_distinct: "distinct (map fst xs) \<Longrightarrow> map_of (rev xs) = map_of xs"
proof (induction xs)
  case (Cons x xs)
  then have "map_of xs (fst x) = None" by (simp add: map_of_eq_None_iff)
  with Cons show ?case
    by (intro ext) (auto simp: map_of_append map_add_def split: option.split)
qed simp

lemma lookup_builtin_eq: "catalog_lookup builtin_en EN (MessageKey (lit k)) = map_of ENTRIES k"
  by (simp add: lookup_builtin map_of_rev_distinct entries_distinct)

lemma t_macro_eq:
  "t_macro loc k args = interpolate (case map_of ENTRIES k of Some s \<Rightarrow> s | None \<Rightarrow> lit k) args"
  by (cases "loc = EN") (auto simp: t_macro_def translate_def lookup_builtin_eq lookup_builtin_other
      split: option.split)

text \<open>
  One placeholder in a template: its replacement is exact when the text around it has no
  brace, whatever the value.
\<close>

lemma replace_none: "123 \<notin> set s \<Longrightarrow> replace_all (123 # p) v s = s"
  by (induction s) auto

lemma replace_skip: "123 \<notin> set a \<Longrightarrow> replace_all (123 # p) v (a @ s) = a @ replace_all (123 # p) v s"
  by (induction a) (auto simp del: strip_prefix_Some)

lemma replace_hit: "replace_all (123 # p) v ((123 # p) @ b) = v @ replace_all (123 # p) v b"
proof -
  have "strip_prefix p (p @ b) = Some b" by simp
  then show ?thesis by (simp del: strip_prefix_Some)
qed

lemma lit_brace: "lit ''{ $'' = 123 # lit '' $''" "lit ''{$'' = 123 # lit ''$''"
  by (simp_all add: lit_def)

lemma interpolate_one:
  assumes "123 \<notin> set a" "123 \<notin> set b" "123 \<notin> set value"
  shows "interpolate (a @ (lit ''{ $'' @ lit name @ lit '' }'') @ b) [(name, value)] = a @ value @ b"
proof -
  define p where "p = lit '' $'' @ lit name @ lit '' }''"
  have first: "replace_all (123 # p) value (a @ (123 # p) @ b) = a @ value @ b"
    unfolding replace_skip [OF assms(1)] replace_hit replace_none [OF assms(2)] by simp
  have second: "replace_all (123 # q) value (a @ value @ b) = a @ value @ b" for q
    using assms by (intro replace_none) auto
  show ?thesis
    using first second by (simp add: interpolate_def lit_brace p_def)
qed

end
