(* ===== verification/Frames.thy ===== *)
theory Frames
  imports Styled_Text
begin

text \<open>
  The frame vocabulary between gateway and world, crates/mud-schema (session.rs, frame.rs).
  Identifiers are non-zero 64-bit values; the byte encoding is the postcard crate's.
\<close>

datatype session_id = SessionId (sid_get: u64)
datatype world_id = WorldId (wid_get: u64)
datatype schema_version = SchemaVersion (version_get: u32)

definition SCHEMA_VERSION :: schema_version where
  "SCHEMA_VERSION = SchemaVersion 3"

datatype input_line = InputLine (line_str: ustring)

datatype output_text = OutputText (output_styled: styled_text)

definition output_text_new :: "ustring \<Rightarrow> output_text" where
  "output_text_new s = OutputText (styled_from s)"

definition output_text_plain :: "output_text \<Rightarrow> ustring" where
  "output_text_plain t = to_plain_string (output_styled t)"

record session_input =
  in_session :: session_id
  in_line :: input_line

datatype output_kind = KindLine | KindPrompt

record session_output =
  out_session :: session_id
  out_text :: output_text
  out_kind :: output_kind

datatype echo_mode = ModeEnabled | ModeSuppressed

record session_echo =
  echo_session :: session_id
  echo_to :: echo_mode

record resume_handshake =
  hs_world :: world_id
  hs_version :: schema_version
  hs_live :: "session_id list"

record handshake_ack =
  ack_world :: world_id
  ack_version :: schema_version

datatype gateway_frame =
    FrameConnect session_id
  | FrameInput session_input
  | FrameDisconnect session_id
  | FrameResume resume_handshake

datatype world_frame =
    FrameOutput session_output
  | FrameClose session_id
  | FrameResumeAck handshake_ack
  | FrameEcho session_echo

end
