(* ===== verification/Session_Service.thy ===== *)
theory Session_Service
  imports Session_Fsm I18n Frames
begin

text \<open>
  The session driver of crates/mud-engine/src/session: it owns the login machine of every
  connected session, renders its messages (render.rs), performs its effects against the
  account store and moves a bound session in-world (mod.rs). The account store is the trait
  \<open>LoginBackend\<close>: a record of operations over a state of its own, a parameter here.
\<close>

section \<open>The account store\<close>

datatype backend_fault = BackendFault

record 'b login_backend =
  be_authenticate :: "'b \<Rightarrow> username \<Rightarrow> ustring \<Rightarrow> (backend_fault + (login_error + account)) \<times> 'b"
  be_register :: "'b \<Rightarrow> username \<Rightarrow> ustring \<Rightarrow> (backend_fault + (register_error + account)) \<times> 'b"
  be_puppets_of :: "'b \<Rightarrow> account_id \<Rightarrow> (backend_fault + puppet list) \<times> 'b"
  be_create_puppet :: "'b \<Rightarrow> account_id \<Rightarrow> puppet_name \<Rightarrow> (backend_fault + puppet) \<times> 'b"
  be_resolve_puppet :: "'b \<Rightarrow> entity_key \<Rightarrow> entity_id option \<times> 'b"

section \<open>Rendering\<close>

fun message_kind :: "session_message \<Rightarrow> output_kind" where
  "message_kind PasswordPrompt = KindPrompt"
| "message_kind ConfirmPrompt = KindPrompt"
| "message_kind _ = KindLine"

definition puppet_lines :: "puppet_name list \<Rightarrow> ustring" where
  "puppet_lines names =
     join [10] (map (\<lambda>(i, n). lit ''  '' @ show_nat (i + 1) @ lit '') '' @ puppet_name_str n)
                  (enumerate 0 names))"

fun render :: "session_message \<Rightarrow> ustring \<Rightarrow> locale_tag \<Rightarrow> ustring" where
  "render Banner banner loc = banner"
| "render LoginInstructions banner loc = t_macro loc ''session.prompt'' []"
| "render PreLoginHelp banner loc = t_macro loc ''session.help'' []"
| "render WhoStub banner loc = t_macro loc ''session.who-stub'' []"
| "render UnknownCommand banner loc = t_macro loc ''session.unknown'' []"
| "render PasswordPrompt banner loc = t_macro loc ''session.password'' []"
| "render ConfirmPrompt banner loc = t_macro loc ''session.confirm'' []"
| "render LoginFailed banner loc = t_macro loc ''session.login-failed'' []"
| "render AccountSuspended banner loc = t_macro loc ''session.suspended'' []"
| "render AccountBanned banner loc = t_macro loc ''session.banned'' []"
| "render ServerError banner loc = t_macro loc ''session.server-error'' []"
| "render NoPuppetsYet banner loc = t_macro loc ''session.no-puppets'' []"
| "render NoSuchPuppet banner loc = t_macro loc ''session.no-such-puppet'' []"
| "render PasswordMismatch banner loc = t_macro loc ''session.mismatch'' []"
| "render NameInvalid banner loc = t_macro loc ''session.name-invalid'' []"
| "render UsernameTaken banner loc = t_macro loc ''session.username-taken'' []"
| "render EnteredWorld banner loc = t_macro loc ''session.entered'' []"
| "render Goodbye banner loc = t_macro loc ''session.goodbye'' []"
| "render (PuppetList names) banner loc =
     t_macro loc ''session.puppet-list'' [(''names'', puppet_lines names)]"
| "render (MsgPuppetCreated name) banner loc =
     t_macro loc ''session.puppet-created'' [(''name'', puppet_name_str name)]"

section \<open>The service\<close>

record in_world_binding =
  bind_account :: account_id
  bind_puppet :: entity_id
  bind_name :: puppet_name

datatype session_state = Login fsm_state | InWorld in_world_binding

record session_service =
  ss_sessions :: "session_id \<Rightarrow> session_state option"
  ss_banner :: ustring
  ss_locale :: locale_tag

datatype login_output = LoginText session_output | LoginEcho session_echo

datatype routing =
    RoutingLogin "login_output list" bool "entity_id option"
  | RoutingInWorld
  | RoutingUnknown

definition service_new :: "ustring \<Rightarrow> locale_tag \<Rightarrow> session_service" where
  "service_new banner loc = \<lparr>ss_sessions = (\<lambda>_. None), ss_banner = banner, ss_locale = loc\<rparr>"

definition set_session :: "session_service \<Rightarrow> session_id \<Rightarrow> session_state option \<Rightarrow> session_service" where
  "set_session svc sid st = svc\<lparr>ss_sessions := (ss_sessions svc)(sid := st)\<rparr>"

definition render_batch :: "session_service \<Rightarrow> session_message list \<Rightarrow> (ustring \<times> output_kind) option" where
  "render_batch svc ms =
     (if ms = [] then None
      else Some (join [10] (map (\<lambda>m. render m (ss_banner svc) (ss_locale svc)) ms),
                 message_kind (last ms)))"

definition output_block :: "session_id \<Rightarrow> ustring \<Rightarrow> output_kind \<Rightarrow> session_output" where
  "output_block sid body k = \<lparr>out_session = sid, out_text = output_text_new body, out_kind = k\<rparr>"

definition connect :: "session_service \<Rightarrow> session_id \<Rightarrow> session_service \<times> session_output list" where
  "connect svc sid =
     (let fsm = fsm_new; t = on_connect fsm
      in (set_session svc sid (Some (Login fsm)),
          (case render_batch svc (messages t) of
             None \<Rightarrow> [] | Some (body, k) \<Rightarrow> [output_block sid body k])))"

definition disconnect :: "session_service \<Rightarrow> session_id \<Rightarrow> session_service" where
  "disconnect svc sid = set_session svc sid None"

definition binding_of :: "session_service \<Rightarrow> session_id \<Rightarrow> in_world_binding option" where
  "binding_of svc sid =
     (case ss_sessions svc sid of Some (InWorld b) \<Rightarrow> Some b | Some (Login _) \<Rightarrow> None | None \<Rightarrow> None)"

fun flush_pending ::
  "session_id \<Rightarrow> login_output list \<Rightarrow> (ustring \<times> output_kind) option \<Rightarrow> login_output list" where
  "flush_pending sid outs None = outs"
| "flush_pending sid outs (Some (body, k)) = outs @ [LoginText (output_block sid body k)]"

fun to_echo_mode :: "input_echo \<Rightarrow> echo_mode" where
  "to_echo_mode EchoEnabled = ModeEnabled"
| "to_echo_mode EchoSuppressed = ModeSuppressed"

fun perform :: "'b login_backend \<Rightarrow> 'b \<Rightarrow> fsm_effect \<Rightarrow> effect_result \<times> 'b" where
  "perform be b (Authenticate username password) =
     (case be_authenticate be b username password of
        (Inr (Inr account), b1) \<Rightarrow>
          (case be_puppets_of be b1 (acc_id account) of
             (Inr puppets, b2) \<Rightarrow> (Authenticated account puppets, b2)
           | (Inl _, b2) \<Rightarrow> (BackendError, b2))
      | (Inr (Inl reason), b1) \<Rightarrow> (LoginRejected reason, b1)
      | (Inl _, b1) \<Rightarrow> (BackendError, b1))"
| "perform be b (Register username password) =
     (case be_register be b username password of
        (Inr (Inr account), b1) \<Rightarrow> (Registered account, b1)
      | (Inr (Inl reason), b1) \<Rightarrow> (RegisterRejected reason, b1)
      | (Inl _, b1) \<Rightarrow> (BackendError, b1))"
| "perform be b (CreatePuppet account name) =
     (case be_create_puppet be b account name of
        (Inr puppet, b1) \<Rightarrow> (PuppetCreated puppet, b1)
      | (Inl _, b1) \<Rightarrow> (BackendError, b1))"
| "perform be b (Enter account puppet) =
     (case be_resolve_puppet be b puppet of
        (Some _, b1) \<Rightarrow> (Entered, b1)
      | (None, b1) \<Rightarrow> (BackendError, b1))"

text \<open>The outcome is the flag that closes the connection and the entity just bound.\<close>

fun apply_terminal ::
  "'b login_backend \<Rightarrow> session_id \<Rightarrow> session_service \<Rightarrow> 'b \<Rightarrow> terminal
    \<Rightarrow> (bool \<times> entity_id option) \<times> session_service \<times> 'b" where
  "apply_terminal be sid svc b (Bound account puppet name) =
     (case be_resolve_puppet be b puppet of
        (Some entity, b1) \<Rightarrow>
          ((False, Some entity),
           set_session svc sid
             (Some (InWorld \<lparr>bind_account = account, bind_puppet = entity, bind_name = name\<rparr>)), b1)
      | (None, b1) \<Rightarrow> ((True, None), set_session svc sid None, b1))"
| "apply_terminal be sid svc b Closed = ((True, None), set_session svc sid None, b)"

text \<open>
  The head of the driver's loop: an echo change flushes the pending block and is sent, then the
  messages join the pending block, which takes their kind.
\<close>

definition emit ::
  "session_service \<Rightarrow> session_id \<Rightarrow> login_output list \<Rightarrow> (ustring \<times> output_kind) option \<Rightarrow> transition
    \<Rightarrow> login_output list \<times> (ustring \<times> output_kind) option" where
  "emit svc sid outs pending t =
     (let (outs, pending) = (case echo t of
            Some e \<Rightarrow> (flush_pending sid outs pending @
                       [LoginEcho \<lparr>echo_session = sid, echo_to = to_echo_mode e\<rparr>], None)
          | None \<Rightarrow> (outs, pending))
      in (outs, (case render_batch svc (messages t) of
            Some (body, k) \<Rightarrow> (case pending of
                Some (previous, _) \<Rightarrow> Some (previous @ [10] @ body, k)
              | None \<Rightarrow> Some (body, k))
          | None \<Rightarrow> pending)))"

text \<open>The measure of the loop: only the answer to a puppet creation asks for a further effect.\<close>

definition drive_rank :: "session_id \<Rightarrow> session_service \<Rightarrow> transition \<Rightarrow> nat" where
  "drive_rank sid svc t =
     (if effect t = None then 0
      else (case ss_sessions svc sid of Some (Login (AwaitingCreate _ _)) \<Rightarrow> 2 | _ \<Rightarrow> 1))"

lemma drive_rank_decreases:
  assumes "ss_sessions svc sid = Some (Login s)" and "on_effect s r = (s', t')" and "effect t \<noteq> None"
  shows "drive_rank sid (set_session svc sid (Some (Login s'))) t' < drive_rank sid svc t"
proof (cases "effect t'")
  case None
  then show ?thesis using assms(3) by (auto simp: drive_rank_def split: option.split session_state.split fsm_state.split)
next
  case (Some e)
  then obtain a ps a' ps' k n where "s = AwaitingCreate a ps" "s' = AwaitingEnter a' ps' k n"
    using on_effect_again [OF assms(2)] by auto
  with assms Some show ?thesis by (simp add: drive_rank_def set_session_def)
qed

function drive ::
  "'b login_backend \<Rightarrow> session_id \<Rightarrow> session_service \<Rightarrow> 'b \<Rightarrow> login_output list
    \<Rightarrow> (ustring \<times> output_kind) option \<Rightarrow> transition \<Rightarrow> routing \<times> session_service \<times> 'b" where
  "drive be sid svc b outs0 pending0 t =
     (let (outs, pending) = emit svc sid outs0 pending0 t
      in (case terminal t of
            Some fin \<Rightarrow>
              (let ((close, bound), svc1, b1) = apply_terminal be sid svc b fin
               in (RoutingLogin (flush_pending sid outs pending) close bound, svc1, b1))
          | None \<Rightarrow>
              (case effect t of
                 None \<Rightarrow> (RoutingLogin (flush_pending sid outs pending) False None, svc, b)
               | Some e \<Rightarrow>
                   (let (result, b1) = perform be b e
                    in (case ss_sessions svc sid of
                          Some (Login fsm) \<Rightarrow>
                            (let (fsm1, t1) = on_effect fsm result
                             in drive be sid (set_session svc sid (Some (Login fsm1))) b1 outs pending t1)
                        | _ \<Rightarrow> (RoutingLogin (flush_pending sid outs pending) False None, svc, b1))))))"
  by pat_completeness auto
termination
  by (relation "measure (\<lambda>(be, sid, svc, b, outs, pending, t). drive_rank sid svc t)")
    (auto intro!: drive_rank_decreases)

declare drive.simps [simp del]

definition service_input ::
  "'b login_backend \<Rightarrow> session_service \<Rightarrow> 'b \<Rightarrow> session_id \<Rightarrow> ustring \<Rightarrow> routing \<times> session_service \<times> 'b" where
  "service_input be svc b sid line =
     (case ss_sessions svc sid of
        None \<Rightarrow> (RoutingUnknown, svc, b)
      | Some (InWorld _) \<Rightarrow> (RoutingInWorld, svc, b)
      | Some (Login fsm) \<Rightarrow>
          (let (fsm1, t) = on_input fsm line
           in drive be sid (set_session svc sid (Some (Login fsm1))) b [] None t))"

section \<open>The contract of the account store\<close>

text \<open>
  \<open>owns a k\<close>: the store has the puppet with key \<open>k\<close> recorded for account \<open>a\<close>; \<open>live k e\<close>: \<open>e\<close> is a live
  entity of the world carrying key \<open>k\<close>. A store lists and creates puppets under the account
  they are asked for, and resolves a key only to an entity that carries it.
\<close>

definition backend_ok ::
  "(account_id \<Rightarrow> entity_key \<Rightarrow> bool) \<Rightarrow> (entity_key \<Rightarrow> entity_id \<Rightarrow> bool) \<Rightarrow> 'b login_backend \<Rightarrow> bool" where
  "backend_ok owns live be \<longleftrightarrow>
     (\<forall>b a ps b1. be_puppets_of be b a = (Inr ps, b1) \<longrightarrow> (\<forall>p \<in> set ps. owns a (puppet_key p))) \<and>
     (\<forall>b a n p b1. be_create_puppet be b a n = (Inr p, b1) \<longrightarrow> owns a (puppet_key p)) \<and>
     (\<forall>b k e b1. be_resolve_puppet be b k = (Some e, b1) \<longrightarrow> live k e)"

lemma backend_okD:
  assumes "backend_ok owns live be"
  shows "be_puppets_of be b a = (Inr ps, b1) \<Longrightarrow> p \<in> set ps \<Longrightarrow> owns a (puppet_key p)"
    and "be_create_puppet be b a n = (Inr q, b1) \<Longrightarrow> owns a (puppet_key q)"
    and "be_resolve_puppet be b k = (Some e, b1) \<Longrightarrow> live k e"
  using assms unfolding backend_ok_def by blast+

lemma perform_kind: "perform be b e = (r, b1) \<Longrightarrow> reply_kind e r"
  by (cases e) (auto split: prod.splits sum.splits option.splits)

lemma perform_owns:
  assumes "backend_ok owns live be" and "perform be b e = (r, b1)"
  shows "reply_owns owns e r"
proof (cases e)
  case (Authenticate u pw)
  with assms(2) backend_okD(1) [OF assms(1)] show ?thesis
    by (fastforce split: prod.splits sum.splits)
next
  case (Register u pw)
  with assms(2) show ?thesis by (auto split: prod.splits sum.splits)
next
  case (CreatePuppet a n)
  with assms(2) backend_okD(2) [OF assms(1)] show ?thesis
    by (auto split: prod.splits sum.splits)
next
  case (Enter a k)
  with assms(2) show ?thesis by (auto split: prod.splits option.splits)
qed

lemma matches_awaiting: "matches e s \<Longrightarrow> awaiting s \<and> \<not> collects_secret s"
  by (cases e; cases s) auto

section \<open>What a step of the driver leaves\<close>

text \<open>
  \<open>settled\<close> is the state a driver step may leave for a session: gone when the connection closes,
  at a state that accepts input, or bound to a live entity of a puppet its account owns.
\<close>

fun settled ::
  "(account_id \<Rightarrow> entity_key \<Rightarrow> bool) \<Rightarrow> (entity_key \<Rightarrow> entity_id \<Rightarrow> bool) \<Rightarrow> session_state option
    \<Rightarrow> bool \<Rightarrow> entity_id option \<Rightarrow> bool" where
  "settled owns live None close bound = (close \<and> bound = None)"
| "settled owns live (Some (Login s)) close bound =
     (\<not> close \<and> bound = None \<and> \<not> awaiting s \<and> fsm_owns owns s)"
| "settled owns live (Some (InWorld bd)) close bound =
     (\<not> close \<and> bound = Some (bind_puppet bd) \<and>
      (\<exists>k. owns (bind_account bd) k \<and> live k (bind_puppet bd)))"

definition ready :: "(account_id \<Rightarrow> entity_key \<Rightarrow> bool) \<Rightarrow> fsm_state \<Rightarrow> transition \<Rightarrow> bool" where
  "ready owns s t \<longleftrightarrow> fsm_owns owns s \<and>
     (case effect t of
        None \<Rightarrow> \<not> awaiting s
      | Some e \<Rightarrow> matches e s \<and> terminal t = None) \<and>
     (\<forall>a k n. terminal t = Some (Bound a k n) \<longrightarrow> owns a k)"

definition quiet :: "transition \<Rightarrow> bool" where
  "quiet t \<longleftrightarrow> echo t = None \<and> (\<forall>m \<in> set (messages t). \<not> is_prompt m)"

fun line_block :: "session_id \<Rightarrow> login_output \<Rightarrow> bool" where
  "line_block sid (LoginText so) = (out_session so = sid \<and> out_kind so = KindLine)"
| "line_block sid (LoginEcho _) = False"

fun line_pending :: "(ustring \<times> output_kind) option \<Rightarrow> bool" where
  "line_pending None = True"
| "line_pending (Some (_, k)) = (k = KindLine)"

definition secret_session :: "session_state option \<Rightarrow> bool" where
  "secret_session st \<longleftrightarrow> (\<exists>s. st = Some (Login s) \<and> collects_secret s)"

lemma secret_session_simps [simp]:
  "\<not> secret_session None" "\<not> secret_session (Some (InWorld bd))"
  "secret_session (Some (Login s)) = collects_secret s"
  by (simp_all add: secret_session_def)

lemma message_kind_eq: "message_kind m = (if is_prompt m then KindPrompt else KindLine)"
  by (cases m) simp_all

lemma set_session_simps [simp]:
  "ss_sessions (set_session svc sid st) sid = st"
  "set_session (set_session svc sid st) sid st' = set_session svc sid st'"
  "ss_banner (set_session svc sid st) = ss_banner svc"
  "ss_locale (set_session svc sid st) = ss_locale svc"
  by (simp_all add: set_session_def)

lemma set_session_other: "sid' \<noteq> sid \<Longrightarrow> ss_sessions (set_session svc sid st) sid' = ss_sessions svc sid'"
  by (simp add: set_session_def)

lemma emit_quiet:
  assumes "quiet t" and "line_pending pending" and "emit svc sid outs pending t = (outs1, pending1)"
  shows "outs1 = outs" "line_pending pending1"
proof -
  have echo: "echo t = None" and nop: "\<forall>m \<in> set (messages t). \<not> is_prompt m"
    using assms(1) by (auto simp: quiet_def)
  show "outs1 = outs" using assms(3) echo by (simp add: emit_def)
  show "line_pending pending1"
  proof (cases "messages t = []")
    case True
    then show ?thesis using assms(2,3) echo by (simp add: emit_def render_batch_def)
  next
    case False
    then have "\<not> is_prompt (last (messages t))" using nop by simp
    then show ?thesis
      using False assms(2,3) echo
      by (auto simp: emit_def render_batch_def message_kind_eq split: option.splits)
  qed
qed

lemma flush_line:
  assumes "line_pending pending"
  obtains rest where "flush_pending sid outs pending = outs @ rest" and "list_all (line_block sid) rest"
proof (cases pending)
  case None
  then show ?thesis by (intro that [of "[]"]) simp_all
next
  case (Some tk)
  obtain body k where "tk = (body, k)" by (cases tk)
  with Some assms show ?thesis
    by (intro that [of "[LoginText (output_block sid body k)]"]) (simp_all add: output_block_def)
qed

lemma apply_terminal_settled:
  assumes "backend_ok owns live be" and "\<forall>a k n. fin = Bound a k n \<longrightarrow> owns a k"
    and "apply_terminal be sid svc b fin = ((close, bound), svc1, b1)"
  shows "\<exists>st. svc1 = set_session svc sid st \<and> settled owns live st close bound \<and> \<not> secret_session st"
proof (cases fin)
  case Closed
  with assms(3) show ?thesis by (intro exI [of _ None]) auto
next
  case (Bound a k n)
  obtain r b2 where r: "be_resolve_puppet be b k = (r, b2)" by (cases "be_resolve_puppet be b k")
  show ?thesis
  proof (cases r)
    case None
    with assms(3) Bound r show ?thesis by (intro exI [of _ None]) auto
  next
    case (Some e)
    with r have "live k e" using backend_okD(3) [OF assms(1)] by simp
    with assms(2,3) Bound r Some show ?thesis
      by (intro exI [of _ "Some (InWorld \<lparr>bind_account = a, bind_puppet = e, bind_name = n\<rparr>)"]) auto
  qed
qed

lemma on_effect_ready:
  assumes "matches e s" and "reply_kind e r" and "reply_owns owns e r" and "fsm_owns owns s"
    and "on_effect s r = (s', t')"
  shows "ready owns s' t'" "quiet t'" "\<not> collects_secret s'"
proof -
  have post: "effect_post s s' t'" and echo: "echo t' = None"
    using on_effect_post [OF assms(1,2,5)] by auto
  have own: "fsm_owns owns s'"
    using on_effect_owns [OF assms(4,1,3)] assms(5) by (metis fst_conv)
  have bound: "\<forall>a k n. terminal t' = Some (Bound a k n) \<longrightarrow> owns a k"
    using post assms(4) by (auto simp: effect_post_def)
  show "ready owns s' t'"
    using post own bound by (auto simp: ready_def effect_post_def split: option.splits)
  show "quiet t'" "\<not> collects_secret s'"
    using post echo by (auto simp: quiet_def effect_post_def)
qed

text \<open>The answers' part of the loop: only completed lines are added, and no secret is awaited.\<close>

lemma drive_quiet:
  "ss_sessions svc sid = Some (Login s) \<Longrightarrow> ready owns s t \<Longrightarrow> quiet t \<Longrightarrow> \<not> collects_secret s \<Longrightarrow>
    line_pending pending \<Longrightarrow> backend_ok owns live be \<Longrightarrow>
    \<exists>rest close bound st b1. drive be sid svc b outs pending t =
       (RoutingLogin (outs @ rest) close bound, set_session svc sid st, b1) \<and>
       list_all (line_block sid) rest \<and> settled owns live st close bound \<and> \<not> secret_session st"
proof (induction be sid svc b outs pending t arbitrary: s rule: drive.induct)
  case (1 be sid svc b outs pending t)
  obtain outs1 pending1 where em: "emit svc sid outs pending t = (outs1, pending1)"
    by (cases "emit svc sid outs pending t")
  from emit_quiet [OF 1(4,6) em] have o1: "outs1 = outs" and p1: "line_pending pending1" by auto
  obtain rest where rest: "flush_pending sid outs pending1 = outs @ rest" "list_all (line_block sid) rest"
    using flush_line [OF p1] by metis
  note rd = 1(3) [unfolded ready_def]
  show ?case
  proof (cases "terminal t")
    case (Some fin)
    with rd have "\<forall>a k n. fin = Bound a k n \<longrightarrow> owns a k" by simp
    moreover obtain close bound svc1 b1 where
      ap: "apply_terminal be sid svc b fin = ((close, bound), svc1, b1)"
      by (metis prod.exhaust)
    ultimately obtain st where
      "svc1 = set_session svc sid st" "settled owns live st close bound" "\<not> secret_session st"
      using apply_terminal_settled [OF 1(7)] by blast
    then show ?thesis
      using em o1 rest Some ap by (subst drive.simps) auto
  next
    case None
    show ?thesis
    proof (cases "effect t")
      case none: None
      with rd have "settled owns live (Some (Login s)) False None" by simp
      moreover have "drive be sid svc b outs pending t = (RoutingLogin (outs @ rest) False None, svc, b)"
        using em o1 rest None none by (subst drive.simps) simp
      moreover have "set_session svc sid (Some (Login s)) = svc"
        using 1(2) by (simp add: set_session_def fun_upd_idem)
      ultimately show ?thesis
        using rest(2) 1(5)
        by (intro exI [of _ rest] exI [of _ False] exI [of _ None] exI [of _ "Some (Login s)"] exI [of _ b])
          simp
    next
      case (Some e)
      obtain r b1 where pf: "perform be b e = (r, b1)" by (cases "perform be b e")
      obtain s1 t1 where oe: "on_effect s r = (s1, t1)" by (cases "on_effect s r")
      from rd Some have "matches e s" "fsm_owns owns s" by auto
      then have next1: "ready owns s1 t1" "quiet t1" "\<not> collects_secret s1"
        using on_effect_ready [OF _ perform_kind [OF pf] perform_owns [OF 1(7) pf] _ oe] by auto
      have "drive be sid svc b outs pending t =
          drive be sid (set_session svc sid (Some (Login s1))) b1 outs pending1 t1"
        using em o1 None Some pf oe 1(2) by (subst drive.simps) simp
      then show ?thesis
        using 1(1) [OF em [symmetric] refl None Some pf [symmetric] refl 1(2) refl oe [symmetric] refl _
            next1(1,2,3) p1 1(7)] o1
        by simp
    qed
  qed
qed

text \<open>
  A whole input to a login session: at most one echo change first; then either exactly one
  prompt, when the session now collects a secret, or completed lines.
\<close>

definition echo_out :: "session_id \<Rightarrow> input_echo option \<Rightarrow> login_output list" where
  "echo_out sid e =
     (case e of None \<Rightarrow> [] | Some m \<Rightarrow> [LoginEcho \<lparr>echo_session = sid, echo_to = to_echo_mode m\<rparr>])"

fun prompt_block :: "session_id \<Rightarrow> login_output \<Rightarrow> bool" where
  "prompt_block sid (LoginText so) = (out_session so = sid \<and> out_kind so = KindPrompt)"
| "prompt_block sid (LoginEcho _) = False"

definition input_outputs :: "session_id \<Rightarrow> bool \<Rightarrow> session_state option \<Rightarrow> login_output list \<Rightarrow> bool" where
  "input_outputs sid was st outs \<longleftrightarrow>
     (\<exists>texts. outs = echo_out sid (echo_change was (secret_session st)) @ texts \<and>
        (if secret_session st then (\<exists>o'. texts = [o'] \<and> prompt_block sid o')
         else list_all (line_block sid) texts))"

lemma emit_first: "emit svc sid [] None t = (echo_out sid (echo t), render_batch svc (messages t))"
  by (auto simp: emit_def echo_out_def split: option.splits)

lemma flush_single:
  "flush_pending sid outs (render_batch svc [m]) =
     outs @ [LoginText (output_block sid (render m (ss_banner svc) (ss_locale svc)) (message_kind m))]"
  by (simp add: render_batch_def)

lemma output_block_fields [simp]:
  "out_session (output_block sid body k) = sid" "out_kind (output_block sid body k) = k"
  by (simp_all add: output_block_def)

lemma input_plain:
  assumes "input_post s1 t" and "effect t = None" and "fsm_owns owns s1"
    and "terminal t = None" and "echo t = echo_change was (collects_secret s1)"
    and "ss_sessions svc sid = Some (Login s1)"
  shows "\<exists>outs. drive be sid svc b [] None t = (RoutingLogin outs False None, svc, b) \<and>
    input_outputs sid was (Some (Login s1)) outs \<and> settled owns live (Some (Login s1)) False None"
proof -
  have set: "settled owns live (Some (Login s1)) False None"
    using assms(1-3) by (simp add: input_post_def)
  have drv: "drive be sid svc b [] None t =
      (RoutingLogin (flush_pending sid (echo_out sid (echo t)) (render_batch svc (messages t))) False None, svc, b)"
    using assms(2,4) by (subst drive.simps) (simp add: emit_first)
  consider "messages t = []" "\<not> collects_secret s1"
    | m where "messages t = [m]" "is_prompt m = collects_secret s1"
    using assms(1,4) by (cases "messages t") (auto simp: input_post_def)
  then have "input_outputs sid was (Some (Login s1))
      (flush_pending sid (echo_out sid (echo t)) (render_batch svc (messages t)))"
    by cases (auto simp: render_batch_def input_outputs_def assms(5) message_kind_eq)
  with drv set show ?thesis by blast
qed

lemma service_input_post:
  assumes be: "backend_ok owns live be" and st: "ss_sessions svc sid = Some (Login s)"
    and "\<not> awaiting s" and "fsm_owns owns s"
  shows "\<exists>outs close bound st b1.
    service_input be svc b sid line = (RoutingLogin outs close bound, set_session svc sid st, b1) \<and>
    settled owns live st close bound \<and> input_outputs sid (collects_secret s) st outs"
proof -
  obtain s1 t where oi: "on_input s line = (s1, t)" by (cases "on_input s line")
  have post: "input_post s1 t" and echo: "echo t = echo_change (collects_secret s) (collects_secret s1)"
    using on_input_post [OF assms(3) oi] by auto
  have own: "fsm_owns owns s1"
    using on_input_owns [OF assms(4), of line] oi by (metis fst_conv)
  let ?svc = "set_session svc sid (Some (Login s1))"
  have inp: "service_input be svc b sid line = drive be sid ?svc b [] None t"
    using st oi by (simp add: service_input_def)
  show ?thesis
  proof (cases "terminal t")
    case (Some fin)
    with post have t: "fin = Closed" "messages t = [Goodbye]" "\<not> collects_secret s1"
      by (auto simp: input_post_def)
    have "drive be sid ?svc b [] None t =
        (RoutingLogin (flush_pending sid (echo_out sid (echo t)) (render_batch ?svc [Goodbye])) True None,
         set_session svc sid None, b)"
      using Some t by (subst drive.simps) (simp add: emit_first)
    then have "service_input be svc b sid line =
        (RoutingLogin (echo_out sid (echo t) @ [LoginText (output_block sid
           (render Goodbye (ss_banner svc) (ss_locale svc)) KindLine)]) True None, set_session svc sid None, b)"
      by (simp add: inp flush_single)
    moreover have "input_outputs sid (collects_secret s) None
        (echo_out sid (echo t) @ [LoginText (output_block sid
           (render Goodbye (ss_banner svc) (ss_locale svc)) KindLine)])"
      using t(3) by (simp add: input_outputs_def echo)
    ultimately show ?thesis
      by (intro exI [of _ True] exI [of _ None] exI [of _ b] exI) (auto intro: conjI)
  next
    case None
    show ?thesis
    proof (cases "effect t")
      case none: None
      obtain outs where "drive be sid ?svc b [] None t = (RoutingLogin outs False None, ?svc, b)"
        "input_outputs sid (collects_secret s) (Some (Login s1)) outs"
        "settled owns live (Some (Login s1)) False None"
        using input_plain [OF post none own None echo, of ?svc sid be b live] by auto
      then show ?thesis
        unfolding inp by (intro exI [of _ outs] exI [of _ False] exI [of _ None]
            exI [of _ "Some (Login s1)"] exI [of _ b]) simp
    next
      case (Some e)
      with post have t: "matches e s1" "messages t = []" by (auto simp: input_post_def)
      obtain r b1 where pf: "perform be b e = (r, b1)" by (cases "perform be b e")
      obtain s2 t2 where oe: "on_effect s1 r = (s2, t2)" by (cases "on_effect s1 r")
      have next1: "ready owns s2 t2" "quiet t2" "\<not> collects_secret s2"
        using on_effect_ready [OF t(1) perform_kind [OF pf] perform_owns [OF be pf] own oe] by auto
      have "drive be sid ?svc b [] None t =
          drive be sid (set_session svc sid (Some (Login s2))) b1 (echo_out sid (echo t)) None t2"
        using Some None t(2) pf oe by (subst drive.simps) (simp add: emit_first render_batch_def)
      moreover obtain rest close bound st b2 where
        "drive be sid (set_session svc sid (Some (Login s2))) b1 (echo_out sid (echo t)) None t2 =
           (RoutingLogin (echo_out sid (echo t) @ rest) close bound, set_session svc sid st, b2)"
        "list_all (line_block sid) rest" "settled owns live st close bound" "\<not> secret_session st"
        using drive_quiet [OF _ next1(1,2,3) _ be, of "set_session svc sid (Some (Login s2))" sid None b1]
        by auto blast
      moreover have "\<not> collects_secret s1" using matches_awaiting [OF t(1)] by simp
      ultimately show ?thesis
        by (intro exI [of _ "echo_out sid (echo t) @ rest"] exI [of _ close] exI [of _ bound]
            exI [of _ st] exI [of _ b2]) (simp add: inp input_outputs_def echo)
    qed
  qed
qed

section \<open>Reachable services\<close>

text \<open>
  What each client's terminal does is the view: local echo is on when a client connects and
  follows the echo frames sent to it.
\<close>

fun of_echo_mode :: "echo_mode \<Rightarrow> input_echo" where
  "of_echo_mode ModeEnabled = EchoEnabled"
| "of_echo_mode ModeSuppressed = EchoSuppressed"

fun see :: "login_output \<Rightarrow> (session_id \<Rightarrow> input_echo) \<Rightarrow> session_id \<Rightarrow> input_echo" where
  "see (LoginEcho e) view = view(echo_session e := of_echo_mode (echo_to e))"
| "see (LoginText _) view = view"

fun routing_outputs :: "routing \<Rightarrow> login_output list" where
  "routing_outputs (RoutingLogin outs _ _) = outs"
| "routing_outputs RoutingInWorld = []"
| "routing_outputs RoutingUnknown = []"

text \<open>
  A run of the service: clients connect, send lines and leave in any order, and the store
  changes on its own in between.
\<close>

inductive service_run ::
  "'b login_backend \<Rightarrow> session_service \<Rightarrow> 'b \<Rightarrow> (session_id \<Rightarrow> input_echo) \<Rightarrow> bool"
  for be :: "'b login_backend" where
  run_new: "service_run be (service_new banner loc) b (\<lambda>_. EchoEnabled)"
| run_connect: "service_run be svc b view \<Longrightarrow>
    service_run be (fst (connect svc sid)) b (view(sid := EchoEnabled))"
| run_disconnect: "service_run be svc b view \<Longrightarrow> service_run be (disconnect svc sid) b view"
| run_input: "service_run be svc b view \<Longrightarrow> service_input be svc b sid line = (r, svc1, b1) \<Longrightarrow>
    service_run be svc1 b1 (fold see (routing_outputs r) view)"
| run_store: "service_run be svc b view \<Longrightarrow> service_run be svc b1 view"

fun session_ok ::
  "(account_id \<Rightarrow> entity_key \<Rightarrow> bool) \<Rightarrow> (entity_key \<Rightarrow> entity_id \<Rightarrow> bool) \<Rightarrow> session_state option
    \<Rightarrow> input_echo \<Rightarrow> bool" where
  "session_ok owns live None e = True"
| "session_ok owns live (Some (Login s)) e =
     (\<not> awaiting s \<and> fsm_owns owns s \<and> (e = EchoSuppressed \<longleftrightarrow> collects_secret s))"
| "session_ok owns live (Some (InWorld bd)) e =
     (e = EchoEnabled \<and> (\<exists>k. owns (bind_account bd) k \<and> live k (bind_puppet bd)))"

lemma see_line: "list_all (line_block sid) texts \<Longrightarrow> fold see texts view = view"
proof (induction texts)
  case (Cons o' texts)
  then show ?case by (cases o') auto
qed simp

lemma see_echo_out:
  "fold see (echo_out sid e) view = (case e of None \<Rightarrow> view | Some m \<Rightarrow> view(sid := m))"
proof (cases e)
  case (Some m)
  then show ?thesis by (cases m) (simp_all add: echo_out_def)
qed (simp add: echo_out_def)

lemma see_input_outputs:
  assumes "input_outputs sid was st outs"
  shows "fold see outs view =
    (case echo_change was (secret_session st) of None \<Rightarrow> view | Some m \<Rightarrow> view(sid := m))"
proof -
  obtain texts where outs: "outs = echo_out sid (echo_change was (secret_session st)) @ texts"
    and texts: "if secret_session st then (\<exists>o'. texts = [o'] \<and> prompt_block sid o')
         else list_all (line_block sid) texts"
    using assms by (auto simp: input_outputs_def)
  have "fold see texts v = v" for v
  proof (cases "secret_session st")
    case True
    with texts obtain o' where "texts = [o']" "prompt_block sid o'" by auto
    then show ?thesis by (cases o') auto
  qed (use texts see_line in auto)
  then show ?thesis by (simp add: outs see_echo_out)
qed

lemma echo_after:
  assumes "e = EchoSuppressed \<longleftrightarrow> was"
  shows "(case echo_change was now of None \<Rightarrow> e | Some m \<Rightarrow> m) = EchoSuppressed \<longleftrightarrow> now"
  using assms by (cases was; cases now) auto

lemma settled_session_ok:
  assumes "settled owns live st close bound" and "e = EchoSuppressed \<longleftrightarrow> secret_session st"
  shows "session_ok owns live st e"
proof (cases st)
  case (Some ss)
  with assms show ?thesis by (cases ss; cases e) auto
qed simp

lemma service_input_session_ok:
  assumes be: "backend_ok owns live be" and ok: "\<And>sid. session_ok owns live (ss_sessions svc sid) (view sid)"
    and inp: "service_input be svc b sid line = (r, svc1, b1)"
  shows "session_ok owns live (ss_sessions svc1 sid') (fold see (routing_outputs r) view sid')"
proof (cases "\<exists>s. ss_sessions svc sid = Some (Login s)")
  case False
  then have "svc1 = svc" "routing_outputs r = []"
    using inp by (auto simp: service_input_def split: option.splits session_state.splits)
  with ok show ?thesis by simp
next
  case True
  then obtain s where s: "ss_sessions svc sid = Some (Login s)" by auto
  from ok [of sid] s have old: "\<not> awaiting s" "fsm_owns owns s" "view sid = EchoSuppressed \<longleftrightarrow> collects_secret s"
    by auto
  obtain outs close bound st where post: "r = RoutingLogin outs close bound" "svc1 = set_session svc sid st"
    "settled owns live st close bound" "input_outputs sid (collects_secret s) st outs"
    using service_input_post [OF be s old(1,2), of b line] inp by auto
  let ?c = "echo_change (collects_secret s) (secret_session st)"
  have seen: "fold see (routing_outputs r) view = (case ?c of None \<Rightarrow> view | Some m \<Rightarrow> view(sid := m))"
    using see_input_outputs [OF post(4), of view] post(1) by simp
  show ?thesis
  proof (cases "sid' = sid")
    case True
    have "fold see (routing_outputs r) view sid = (case ?c of None \<Rightarrow> view sid | Some m \<Rightarrow> m)"
      using seen by (simp split: option.split)
    with echo_after [OF old(3), of "secret_session st"] settled_session_ok [OF post(3)] True post(2)
    show ?thesis by simp
  next
    case False
    then have "fold see (routing_outputs r) view sid' = view sid'"
      using seen by (simp split: option.split)
    with False ok [of sid'] post(2) show ?thesis by (simp add: set_session_other)
  qed
qed

lemma session_ok_run:
  assumes be: "backend_ok owns live be"
  shows "service_run be svc b view \<Longrightarrow> session_ok owns live (ss_sessions svc sid) (view sid)"
proof (induction arbitrary: sid rule: service_run.induct)
  case (run_new banner loc b)
  then show ?case by (simp add: service_new_def)
next
  case (run_connect svc b view sid')
  then show ?case
    by (cases "sid = sid'") (auto simp: connect_def Let_def fsm_new_def set_session_other)
next
  case (run_disconnect svc b view sid')
  then show ?case by (cases "sid = sid'") (auto simp: disconnect_def set_session_other)
next
  case (run_input svc b view sid' line r svc1 b1)
  then show ?case using service_input_session_ok [OF be] by blast
qed

lemma any_backend: "backend_ok (\<lambda>_ _. True) (\<lambda>_ _. True) be"
  by (simp add: backend_ok_def)

lemma echo_out_cases:
  "echo_out sid e = [] \<and> e = None \<or>
   (\<exists>m. e = Some m \<and> echo_out sid e = [LoginEcho \<lparr>echo_session = sid, echo_to = to_echo_mode m\<rparr>])"
  by (cases e) (simp_all add: echo_out_def)

lemma input_outputs_addressed:
  assumes "input_outputs sid was st outs"
  shows "\<forall>o' \<in> set outs. case o' of LoginText so \<Rightarrow> out_session so = sid | LoginEcho e \<Rightarrow> echo_session e = sid"
proof -
  have line: "case o' of LoginText so \<Rightarrow> out_session so = sid | LoginEcho e \<Rightarrow> echo_session e = sid"
    if "line_block sid o' \<or> prompt_block sid o'" for o'
    using that by (cases o') auto
  obtain texts where outs: "outs = echo_out sid (echo_change was (secret_session st)) @ texts"
    and texts: "if secret_session st then (\<exists>o'. texts = [o'] \<and> prompt_block sid o')
         else list_all (line_block sid) texts"
    using assms by (auto simp: input_outputs_def)
  have "line_block sid o' \<or> prompt_block sid o'" if "o' \<in> set texts" for o'
    using texts that by (auto simp: list_all_iff split: if_splits)
  with line have "\<forall>o' \<in> set texts. case o' of LoginText so \<Rightarrow> out_session so = sid | LoginEcho e \<Rightarrow> echo_session e = sid"
    by blast
  then show ?thesis
    using echo_out_cases [of sid "echo_change was (secret_session st)"] unfolding outs by auto
qed

lemma input_outputs_prompt:
  assumes "input_outputs sid was st outs" and "outs = pre @ LoginText so # post" and "out_kind so = KindPrompt"
    and "view sid = EchoSuppressed \<longleftrightarrow> was"
  shows "post = [] \<and> fold see pre view sid = EchoSuppressed"
proof -
  let ?e = "echo_change was (secret_session st)"
  obtain texts where outs: "echo_out sid ?e @ texts = pre @ LoginText so # post"
    and texts: "if secret_session st then (\<exists>o'. texts = [o'] \<and> prompt_block sid o')
         else list_all (line_block sid) texts"
    using assms(1,2) by (auto simp: input_outputs_def)
  have in_texts: "LoginText so \<in> set texts"
  proof -
    have "LoginText so \<in> set (echo_out sid ?e @ texts)" by (simp add: outs)
    then show ?thesis using echo_out_cases [of sid ?e] by auto
  qed
  have secret: "secret_session st"
    using texts in_texts assms(3) by (auto simp: list_all_iff split: if_splits)
  with texts in_texts have "texts = [LoginText so]" by auto
  with outs echo_out_cases [of sid ?e] have "pre = echo_out sid ?e" "post = []"
    by (auto simp: append_eq_Cons_conv Cons_eq_append_conv)
  with see_echo_out [of sid ?e view] secret assms(4) show ?thesis by (cases was) auto
qed

section \<open>A login, step by step\<close>

lemma input_step:
  assumes "ss_sessions svc sid = Some (Login s)" and "on_input s line = (s1, t)"
    and "terminal t = None" and "effect t = None"
  shows "\<exists>outs. service_input be svc b sid line = (RoutingLogin outs False None, set_session svc sid (Some (Login s1)), b)"
  using assms by (simp add: service_input_def drive.simps [of be sid _ b] emit_first)

lemma answered:
  assumes "ss_sessions svc sid = Some (Login s)" and "on_input s line = (s1, t)"
    and "terminal t = None" and "effect t = Some e" and "perform be b e = (r, b1)"
    and "on_effect s1 r = (s2, t2)"
  shows "\<exists>outs pending. service_input be svc b sid line =
    drive be sid (set_session svc sid (Some (Login s2))) b1 outs pending t2"
proof -
  have "service_input be svc b sid line = drive be sid (set_session svc sid (Some (Login s1))) b [] None t"
    using assms(1,2) by (simp add: service_input_def)
  also have "\<dots> = drive be sid (set_session svc sid (Some (Login s2))) b1 (echo_out sid (echo t))
      (render_batch (set_session svc sid (Some (Login s1))) (messages t)) t2"
    using assms(3-6) by (subst drive.simps) (simp add: emit_first)
  finally show ?thesis by blast
qed

lemma drive_stay:
  assumes "terminal t = None" and "effect t = None"
  shows "\<exists>r. drive be sid svc b outs pending t = (r, svc, b)"
  using assms by (subst drive.simps) (simp add: case_prod_beta Let_def)

lemma drive_end:
  assumes "terminal t = Some fin"
  shows "\<exists>r. drive be sid svc b outs pending t = (r, snd (apply_terminal be sid svc b fin))"
  using assms by (subst drive.simps) (simp add: case_prod_beta Let_def)

text \<open>A store that knows one account, with one puppet that is live as one entity.\<close>

definition demo_account :: account where
  "demo_account = \<lparr>acc_id = AccountId 1, acc_username = Username (lit ''bob''), acc_state = Active\<rparr>"

definition demo_puppet :: puppet where
  "demo_puppet = \<lparr>puppet_key = EntityKey 7, puppet_name = PuppetName (lit ''Bob'')\<rparr>"

definition demo_backend :: "unit login_backend" where
  "demo_backend = \<lparr>
     be_authenticate = (\<lambda>b u p. (Inr (Inr demo_account), ())),
     be_register = (\<lambda>b u p. (Inr (Inl RegisterUsernameTaken), ())),
     be_puppets_of = (\<lambda>b a. (Inr (if a = AccountId 1 then [demo_puppet] else []), ())),
     be_create_puppet = (\<lambda>b a n. (Inl BackendFault, ())),
     be_resolve_puppet = (\<lambda>b k. (if k = EntityKey 7 then Some (EntityId 9) else None, ()))\<rparr>"

definition demo_owns :: "account_id \<Rightarrow> entity_key \<Rightarrow> bool" where
  "demo_owns a k \<longleftrightarrow> a = AccountId 1 \<and> k = EntityKey 7"

definition demo_live :: "entity_key \<Rightarrow> entity_id \<Rightarrow> bool" where
  "demo_live k e \<longleftrightarrow> k = EntityKey 7 \<and> e = EntityId 9"

lemma demo_ok: "backend_ok demo_owns demo_live demo_backend"
  by (auto simp: backend_ok_def demo_backend_def demo_owns_def demo_live_def demo_puppet_def)

definition demo_binding :: in_world_binding where
  "demo_binding = \<lparr>bind_account = AccountId 1, bind_puppet = EntityId 9, bind_name = PuppetName (lit ''Bob'')\<rparr>"

lemma demo_login_line:
  "on_input Anon (lit ''login bob'') =
     (LoginPassword (Username (lit ''bob'')), of_message PasswordPrompt\<lparr>echo := Some EchoSuppressed\<rparr>)"
proof -
  have "Username_parse (lit ''bob'') = Inr (Username (lit ''bob''))"
    using valid_bob by simp
  moreover have "split_command (lit ''login bob'') = Some (lit ''login'', lit ''bob'')"
    by (simp add: line_eval)
  ultimately show ?thesis
    by (simp add: on_input_def anon_input_def parse_name_def del: Username_parse_ok)
qed

lemma demo_play_line:
  "on_input (PuppetSelect demo_account [demo_puppet]) (lit ''play 1'') =
     (AwaitingEnter demo_account [demo_puppet] (EntityKey 7) (PuppetName (lit ''Bob'')),
      of_effect (Enter (AccountId 1) (EntityKey 7)))"
proof -
  have "split_command (lit ''play 1'') = Some (lit ''play'', show_nat 1)"
    by (simp add: line_eval show_nat.simps)
  moreover have "match_puppet [demo_puppet] (show_nat 1) = Some demo_puppet"
    by (simp add: match_ordinal [OF parse_usize_show_nat] usize_max_def)
  ultimately show ?thesis
    by (simp add: on_input_def puppet_select_input_def demo_account_def demo_puppet_def of_effect_def)
qed

lemma demo_run:
  assumes "service_run be svc b view" and "ss_sessions svc sid = Some (Login s)"
    and "service_input be svc b sid line = (r, svc1, b1)"
  shows "\<exists>view1. service_run be svc1 b1 view1"
  using run_input [OF assms(1,3)] by blast

lemma demo_password_run:
  "\<exists>svc view. service_run demo_backend svc () view \<and>
     ss_sessions svc (SessionId 1) = Some (Login (LoginPassword (Username (lit ''bob''))))"
proof -
  define svc0 where "svc0 = fst (connect (service_new [] EN) (SessionId 1))"
  have s0: "ss_sessions svc0 (SessionId 1) = Some (Login Anon)"
    by (simp add: svc0_def connect_def Let_def fsm_new_def)
  have r0: "service_run demo_backend svc0 () ((\<lambda>_. EchoEnabled)(SessionId 1 := EchoEnabled))"
    unfolding svc0_def by (rule run_connect [OF run_new])
  obtain outs where "service_input demo_backend svc0 () (SessionId 1) (lit ''login bob'') =
      (RoutingLogin outs False None,
       set_session svc0 (SessionId 1) (Some (Login (LoginPassword (Username (lit ''bob''))))), ())"
    using input_step [OF s0 demo_login_line, of demo_backend "()"] by auto
  from run_input [OF r0 this] show ?thesis
    by (metis set_session_simps(1))
qed

lemma demo_bound_run:
  "\<exists>svc view. service_run demo_backend svc () view \<and> binding_of svc (SessionId 1) = Some demo_binding"
proof -
  obtain svc view where r1: "service_run demo_backend svc () view"
    and s1: "ss_sessions svc (SessionId 1) = Some (Login (LoginPassword (Username (lit ''bob''))))"
    using demo_password_run by blast
  have i1: "on_input (LoginPassword (Username (lit ''bob''))) (lit ''pw'') =
      (AwaitingAuth, of_effect (Authenticate (Username (lit ''bob'')) (lit ''pw''))\<lparr>echo := Some EchoEnabled\<rparr>)"
    by (simp add: on_input_def)
  have p1: "perform demo_backend () (Authenticate (Username (lit ''bob'')) (lit ''pw'')) =
      (Authenticated demo_account [demo_puppet], ())"
    by (simp add: demo_backend_def demo_account_def)
  have e1: "on_effect AwaitingAuth (Authenticated demo_account [demo_puppet]) =
      (PuppetSelect demo_account [demo_puppet], of_message (PuppetList [PuppetName (lit ''Bob'')]))"
    by (simp add: on_effect_def enter_puppet_select_def demo_puppet_def of_message_def of_messages_def)
  obtain r where "service_input demo_backend svc () (SessionId 1) (lit ''pw'') =
      (r, set_session svc (SessionId 1) (Some (Login (PuppetSelect demo_account [demo_puppet]))), ())"
    using answered [OF s1 i1 _ _ p1 e1] drive_stay [where be = demo_backend and b = "()" and
        t = "of_message (PuppetList [PuppetName (lit ''Bob'')])"] by auto metis
  from run_input [OF r1 this] obtain view2 where
    r2: "service_run demo_backend
           (set_session svc (SessionId 1) (Some (Login (PuppetSelect demo_account [demo_puppet])))) () view2"
    by blast
  let ?svc2 = "set_session svc (SessionId 1) (Some (Login (PuppetSelect demo_account [demo_puppet])))"
  let ?t = "\<lparr>messages = [EnteredWorld], effect = None,
      terminal = Some (Bound (AccountId 1) (EntityKey 7) (PuppetName (lit ''Bob''))), echo = None\<rparr>"
  have p2: "perform demo_backend () (Enter (AccountId 1) (EntityKey 7)) = (Entered, ())"
    by (simp add: demo_backend_def)
  have e2: "on_effect (AwaitingEnter demo_account [demo_puppet] (EntityKey 7) (PuppetName (lit ''Bob''))) Entered =
      (Anon, ?t)"
    by (simp add: on_effect_def demo_account_def)
  have ap: "snd (apply_terminal demo_backend (SessionId 1) svc' ()
        (Bound (AccountId 1) (EntityKey 7) (PuppetName (lit ''Bob'')))) =
      (set_session svc' (SessionId 1) (Some (InWorld demo_binding)), ())" for svc'
    by (simp add: demo_backend_def demo_binding_def)
  obtain r' where "service_input demo_backend ?svc2 () (SessionId 1) (lit ''play 1'') =
      (r', set_session svc (SessionId 1) (Some (InWorld demo_binding)), ())"
  proof -
    obtain outs pending where "service_input demo_backend ?svc2 () (SessionId 1) (lit ''play 1'') =
        drive demo_backend (SessionId 1) (set_session ?svc2 (SessionId 1) (Some (Login Anon))) () outs pending ?t"
      using answered [OF set_session_simps(1) demo_play_line _ _ p2 e2, of svc "SessionId 1"] by auto
    moreover obtain r' where "drive demo_backend (SessionId 1)
        (set_session ?svc2 (SessionId 1) (Some (Login Anon))) () outs pending ?t =
        (r', snd (apply_terminal demo_backend (SessionId 1)
           (set_session ?svc2 (SessionId 1) (Some (Login Anon))) ()
           (Bound (AccountId 1) (EntityKey 7) (PuppetName (lit ''Bob'')))))"
      using drive_end [where t = ?t] by fastforce
    ultimately show ?thesis using that by (simp add: ap del: apply_terminal.simps)
  qed
  from run_input [OF r2 this] obtain view3 where
    "service_run demo_backend (set_session svc (SessionId 1) (Some (InWorld demo_binding))) () view3"
    by blast
  moreover have "binding_of (set_session svc (SessionId 1) (Some (InWorld demo_binding))) (SessionId 1) = Some demo_binding"
    by (simp add: binding_of_def)
  ultimately show ?thesis by blast
qed

section \<open>Properties of the login service\<close>



text \<open>
  C18. A login session is never stuck: in every run, whatever the store answers, it accepts
  input, and a line from it is answered by the login machine, touches no other session, sends
  every block to it alone, and leaves it closed, bound, or again accepting input.
\<close>

theorem login_never_stuck:
  assumes "service_run be svc b view" and "ss_sessions svc sid = Some (Login s)"
  shows "\<not> awaiting s \<and>
    (\<exists>outs close bound svc1 b1. service_input be svc b sid line = (RoutingLogin outs close bound, svc1, b1) \<and>
       (\<forall>o' \<in> set outs. case o' of LoginText so \<Rightarrow> out_session so = sid | LoginEcho e \<Rightarrow> echo_session e = sid) \<and>
       (\<forall>sid'. sid' \<noteq> sid \<longrightarrow> ss_sessions svc1 sid' = ss_sessions svc sid') \<and>
       (case ss_sessions svc1 sid of
          None \<Rightarrow> close \<and> bound = None
        | Some (Login s1) \<Rightarrow> \<not> close \<and> bound = None \<and> \<not> awaiting s1
        | Some (InWorld bd) \<Rightarrow> \<not> close \<and> bound = Some (bind_puppet bd)))"
proof -
  have s: "\<not> awaiting s" "fsm_owns (\<lambda>_ _. True) s"
    using session_ok_run [OF any_backend assms(1), of sid] assms(2) by auto
  obtain outs close bound st b1 where post:
    "service_input be svc b sid line = (RoutingLogin outs close bound, set_session svc sid st, b1)"
    "settled (\<lambda>_ _. True) (\<lambda>_ _. True) st close bound" "input_outputs sid (collects_secret s) st outs"
    using service_input_post [OF any_backend assms(2) s, where be = be and b = b and line = line] by blast
  have "case ss_sessions (set_session svc sid st) sid of
      None \<Rightarrow> close \<and> bound = None
    | Some (Login s1) \<Rightarrow> \<not> close \<and> bound = None \<and> \<not> awaiting s1
    | Some (InWorld bd) \<Rightarrow> \<not> close \<and> bound = Some (bind_puppet bd)"
    using post(2) by (auto split: option.split session_state.split)
  with s post(1) input_outputs_addressed [OF post(3)] show ?thesis
    by (intro conjI exI [of _ outs] exI [of _ close] exI [of _ bound] exI [of _ "set_session svc sid st"]
        exI [of _ b1]) (simp_all add: set_session_other)
qed

theorem login_never_stuck_witness:
  "\<exists>svc view r svc1. service_run demo_backend svc () view \<and>
     service_input demo_backend svc () (SessionId 1) (lit ''pw'') = (r, svc1, ()) \<and> r \<noteq> RoutingUnknown"
proof -
  obtain svc view where "service_run demo_backend svc () view"
    and "ss_sessions svc (SessionId 1) = Some (Login (LoginPassword (Username (lit ''bob''))))"
    using demo_password_run by blast
  with login_never_stuck [of demo_backend svc "()" view "SessionId 1" _ "lit ''pw''"]
  show ?thesis by (metis (full_types) old.unit.exhaust routing.distinct(3))
qed

text \<open>
  C11. Passwords are masked: in every run a client's local echo is off exactly while its session
  waits for a secret, and when a line makes the service prompt, the prompt is the last block of
  its answer and the client's echo is already off when it arrives.
\<close>

theorem passwords_masked:
  assumes "service_run be svc b view" and "ss_sessions svc sid = Some st"
  shows "(view sid = EchoSuppressed \<longleftrightarrow> secret_session (Some st)) \<and>
    (\<forall>line pre so post. routing_outputs (fst (service_input be svc b sid line)) = pre @ LoginText so # post \<and>
       out_kind so = KindPrompt \<longrightarrow> post = [] \<and> fold see pre view sid = EchoSuppressed)"
proof (cases st)
  case (InWorld bd)
  then show ?thesis
    using session_ok_run [OF any_backend assms(1), of sid] assms(2) by (auto simp: service_input_def)
next
  case (Login s)
  have s: "\<not> awaiting s" "fsm_owns (\<lambda>_ _. True) s" "view sid = EchoSuppressed \<longleftrightarrow> collects_secret s"
    using session_ok_run [OF any_backend assms(1), of sid] assms(2) Login by auto
  have "post = [] \<and> fold see pre view sid = EchoSuppressed"
    if "routing_outputs (fst (service_input be svc b sid line)) = pre @ LoginText so # post"
      and "out_kind so = KindPrompt" for line pre so post
  proof -
    obtain outs close bound st1 b1 where
      "service_input be svc b sid line = (RoutingLogin outs close bound, set_session svc sid st1, b1)"
      "input_outputs sid (collects_secret s) st1 outs"
      using service_input_post [OF any_backend _ s(1,2), where be = be and b = b and line = line] assms(2) Login
      by blast
    with that s(3) show ?thesis using input_outputs_prompt [of sid _ st1 outs pre so post view] by simp
  qed
  with s Login show ?thesis by auto
qed

theorem passwords_masked_witness:
  "\<exists>svc view. service_run demo_backend svc () view \<and> view (SessionId 1) = EchoSuppressed"
proof -
  obtain svc view where r: "service_run demo_backend svc () view"
    and s: "ss_sessions svc (SessionId 1) = Some (Login (LoginPassword (Username (lit ''bob''))))"
    using demo_password_run by blast
  from passwords_masked [OF r s] have "view (SessionId 1) = EchoSuppressed" by simp
  with r show ?thesis by blast
qed

section \<open>Names in messages\<close>

lemma not_in_join: "c \<notin> set sep \<Longrightarrow> \<forall>p \<in> set ps. c \<notin> set p \<Longrightarrow> c \<notin> set (join sep ps)"
  by (induction sep ps rule: join.induct) auto

lemma valid_name_no_brace: "valid_name s \<Longrightarrow> 123 \<notin> set s"
  by (auto simp: valid_name_def list_all_iff is_allowed_def is_ascii_alphanumeric_def
      is_ascii_lower_def is_ascii_upper_def is_ascii_digit_def)

lemma show_nat_no_brace: "123 \<notin> set (show_nat n)"
  using show_nat_digits [of n] by (auto simp: list_all_iff is_ascii_digit_def)

lemma puppet_lines_eq:
  "puppet_lines ns = join [10] (map (\<lambda>i. lit ''  '' @ show_nat (i + 1) @ lit '') '' @ puppet_name_str (ns ! i))
     [0..<length ns])"
  unfolding puppet_lines_def
  by (rule arg_cong [where f = "join [10]"]) (rule nth_equalityI; simp add: nth_enumerate_eq)

lemma puppet_lines_no_brace:
  assumes "\<forall>n \<in> set ns. valid_name (puppet_name_str n)"
  shows "123 \<notin> set (puppet_lines ns)"
proof -
  have "123 \<notin> set (puppet_name_str (ns ! i))" if "i < length ns" for i
    using assms valid_name_no_brace that by simp
  then show ?thesis
    unfolding puppet_lines_eq using show_nat_no_brace
    by (intro not_in_join) (auto simp: lit_def)
qed

lemma template_list:
  "map_of ENTRIES ''session.puppet-list'' =
     Some ((lit ''Your characters:'' @ [10]) @ (lit ''{ $'' @ lit ''names'' @ lit '' }'') @
       ([10] @ lit ''Type '' @ [39] @ lit ''play <name or number>'' @ [39] @ lit '' or '' @ [39] @
        lit ''new <name>'' @ [39] @ lit ''.''))"
proof -
  have "lit ''{ $'' @ lit ''names'' @ lit '' }'' = lit ''{ $names }''"
    by (simp add: lit_append [symmetric])
  then show ?thesis by (simp add: ENTRIES_def)
qed

lemma template_created:
  "map_of ENTRIES ''session.puppet-created'' =
     Some (lit ''Created '' @ (lit ''{ $'' @ lit ''name'' @ lit '' }'') @ lit ''.'')"
proof -
  have "lit ''Created '' @ (lit ''{ $'' @ lit ''name'' @ lit '' }'') @ lit ''.'' = lit ''Created { $name }.''"
    by (simp add: lit_append [symmetric])
  then show ?thesis by (simp add: ENTRIES_def)
qed

text \<open>
  The character list a player reads is the list the play command resolves: in any locale the
  selection screen shows one line per puppet, numbered from 1 in list order, with the name
  verbatim; a created puppet is confirmed under its exact name.
\<close>

theorem names_shown_verbatim:
  assumes "\<forall>n \<in> set ns. PuppetName_parse (puppet_name_str n) = Inr n" and "n0 \<in> set ns"
  shows "render (PuppetList ns) banner loc =
      lit ''Your characters:'' @ [10] @
      join [10] (map (\<lambda>i. lit ''  '' @ show_nat (i + 1) @ lit '') '' @ puppet_name_str (ns ! i)) [0..<length ns]) @
      [10] @ lit ''Type '' @ [39] @ lit ''play <name or number>'' @ [39] @ lit '' or '' @ [39] @
      lit ''new <name>'' @ [39] @ lit ''.'' \<and>
    render (MsgPuppetCreated n0) banner loc = lit ''Created '' @ puppet_name_str n0 @ lit ''.''"
proof -
  have valid: "\<forall>n \<in> set ns. valid_name (puppet_name_str n)" using assms(1) by auto
  have plain: "123 \<notin> set (lit ''Your characters:'' @ [10])"
    "123 \<notin> set ([10] @ lit ''Type '' @ [39] @ lit ''play <name or number>'' @ [39] @ lit '' or '' @ [39] @
        lit ''new <name>'' @ [39] @ lit ''.'')"
    "123 \<notin> set (lit ''Created '')" "123 \<notin> set (lit ''.'')"
    by (simp_all add: lit_def)
  have "render (PuppetList ns) banner loc =
      (lit ''Your characters:'' @ [10]) @ puppet_lines ns @
      ([10] @ lit ''Type '' @ [39] @ lit ''play <name or number>'' @ [39] @ lit '' or '' @ [39] @
       lit ''new <name>'' @ [39] @ lit ''.'')"
    using interpolate_one [OF plain(1,2) puppet_lines_no_brace [OF valid]]
    by (simp only: render.simps t_macro_eq template_list option.case)
  moreover have "render (MsgPuppetCreated n0) banner loc = lit ''Created '' @ puppet_name_str n0 @ lit ''.''"
    using interpolate_one [OF plain(3,4) valid_name_no_brace] valid assms(2)
    by (simp only: render.simps t_macro_eq template_created option.case)
  ultimately show ?thesis by (simp add: puppet_lines_eq)
qed

theorem names_shown_verbatim_witness:
  "render (MsgPuppetCreated (PuppetName (lit ''bob''))) [] EN = lit ''Created bob.''"
  using names_shown_verbatim [of "[PuppetName (lit ''bob'')]" "PuppetName (lit ''bob'')" "[]" EN] valid_bob
  by (simp add: lit_append [symmetric])

end
