(* ===== verification/Locks.thy ===== *)
theory Locks
  imports Prelude
begin

text \<open>
  Access locks of crates/mud-core/src/locks: the syntactic and the resolved expression trees
  (ast.rs), resolution with its errors (resolve.rs) and evaluation against the facts about the
  caller and the object (eval.rs). The text parser is a grammar of the chumsky crate and is not
  modelled; everything after it is.
\<close>

section \<open>Trees\<close>

datatype access_type = AccessType (access_str: ustring)

datatype syntax_expr =
    Call ustring "ustring list"
  | SNot syntax_expr
  | SAnd syntax_expr syntax_expr
  | SOr syntax_expr syntax_expr

record parsed_lock =
  pl_access :: access_type
  pl_expr :: syntax_expr

datatype lock_arg = LockArg (arg_str: ustring)

datatype lock_fn =
    Perm lock_arg
  | Attr lock_arg
  | Tag lock_arg
  | Status lock_arg
  | SelfRef

datatype resolved_expr =
    Fn lock_fn
  | RNot resolved_expr
  | RAnd resolved_expr resolved_expr
  | ROr resolved_expr resolved_expr

record lock =
  lock_access :: access_type
  lock_expr :: resolved_expr

section \<open>Resolution\<close>

datatype resolve_error =
    UnknownFunction ustring
  | ArityMismatch ustring nat nat

definition unary_arg :: "ustring \<Rightarrow> ustring list \<Rightarrow> resolve_error + lock_arg" where
  "unary_arg name args =
     (case args of [arg] \<Rightarrow> Inr (LockArg arg) | _ \<Rightarrow> Inl (ArityMismatch name 1 (length args)))"

definition ensure_nullary :: "ustring \<Rightarrow> ustring list \<Rightarrow> resolve_error + unit" where
  "ensure_nullary name args = (if args = [] then Inr () else Inl (ArityMismatch name 0 (length args)))"

definition resolve_call :: "ustring \<Rightarrow> ustring list \<Rightarrow> resolve_error + lock_fn" where
  "resolve_call name args =
     (if name = lit ''perm'' then bindE (unary_arg name args) (\<lambda>a. Inr (Perm a))
      else if name = lit ''attr'' then bindE (unary_arg name args) (\<lambda>a. Inr (Attr a))
      else if name = lit ''tag'' then bindE (unary_arg name args) (\<lambda>a. Inr (Tag a))
      else if name = lit ''status'' then bindE (unary_arg name args) (\<lambda>a. Inr (Status a))
      else if name = lit ''self'' then bindE (ensure_nullary name args) (\<lambda>_. Inr SelfRef)
      else Inl (UnknownFunction name))"

fun resolve_expr :: "syntax_expr \<Rightarrow> resolve_error + resolved_expr" where
  "resolve_expr (Call name args) = bindE (resolve_call name args) (\<lambda>f. Inr (Fn f))"
| "resolve_expr (SNot e) = bindE (resolve_expr e) (\<lambda>r. Inr (RNot r))"
| "resolve_expr (SAnd l r) = bindE (resolve_expr l) (\<lambda>a. bindE (resolve_expr r) (\<lambda>b. Inr (RAnd a b)))"
| "resolve_expr (SOr l r) = bindE (resolve_expr l) (\<lambda>a. bindE (resolve_expr r) (\<lambda>b. Inr (ROr a b)))"

definition resolve_lock :: "parsed_lock \<Rightarrow> resolve_error + lock" where
  "resolve_lock p =
     bindE (resolve_expr (pl_expr p)) (\<lambda>e. Inr \<lparr>lock_access = pl_access p, lock_expr = e\<rparr>)"

section \<open>Evaluation\<close>

record lock_context =
  ctx_perms :: "ustring set"
  ctx_attrs :: "ustring set"
  ctx_tags :: "ustring set"
  ctx_statuses :: "ustring set"
  ctx_is_self :: bool

definition lock_context_new :: lock_context where
  "lock_context_new = \<lparr>ctx_perms = {}, ctx_attrs = {}, ctx_tags = {}, ctx_statuses = {}, ctx_is_self = False\<rparr>"

definition with_perm :: "lock_context \<Rightarrow> ustring \<Rightarrow> lock_context" where
  "with_perm c n = c\<lparr>ctx_perms := insert n (ctx_perms c)\<rparr>"

definition with_attr :: "lock_context \<Rightarrow> ustring \<Rightarrow> lock_context" where
  "with_attr c n = c\<lparr>ctx_attrs := insert n (ctx_attrs c)\<rparr>"

definition with_tag :: "lock_context \<Rightarrow> ustring \<Rightarrow> lock_context" where
  "with_tag c n = c\<lparr>ctx_tags := insert n (ctx_tags c)\<rparr>"

definition with_status :: "lock_context \<Rightarrow> ustring \<Rightarrow> lock_context" where
  "with_status c n = c\<lparr>ctx_statuses := insert n (ctx_statuses c)\<rparr>"

definition as_self :: "lock_context \<Rightarrow> lock_context" where
  "as_self c = c\<lparr>ctx_is_self := True\<rparr>"

fun eval_fn :: "lock_fn \<Rightarrow> lock_context \<Rightarrow> bool" where
  "eval_fn (Perm a) c = (arg_str a \<in> ctx_perms c)"
| "eval_fn (Attr a) c = (arg_str a \<in> ctx_attrs c)"
| "eval_fn (Tag a) c = (arg_str a \<in> ctx_tags c)"
| "eval_fn (Status a) c = (arg_str a \<in> ctx_statuses c)"
| "eval_fn SelfRef c = ctx_is_self c"

fun eval_expr :: "resolved_expr \<Rightarrow> lock_context \<Rightarrow> bool" where
  "eval_expr (Fn f) c = eval_fn f c"
| "eval_expr (RNot e) c = (\<not> eval_expr e c)"
| "eval_expr (RAnd l r) c = (eval_expr l c \<and> eval_expr r c)"
| "eval_expr (ROr l r) c = (eval_expr l c \<or> eval_expr r c)"

definition evaluate :: "lock \<Rightarrow> lock_context \<Rightarrow> bool" where
  "evaluate l c = eval_expr (lock_expr l) c"

section \<open>Which locks resolve\<close>

text \<open>The calls of an expression from left to right, and the arity table they are checked against.\<close>

fun calls :: "syntax_expr \<Rightarrow> (ustring \<times> ustring list) list" where
  "calls (Call name args) = [(name, args)]"
| "calls (SNot e) = calls e"
| "calls (SAnd l r) = calls l @ calls r"
| "calls (SOr l r) = calls l @ calls r"

definition arity :: "ustring \<Rightarrow> nat option" where
  "arity name =
     (if name \<in> {lit ''perm'', lit ''attr'', lit ''tag'', lit ''status''} then Some 1
      else if name = lit ''self'' then Some 0 else None)"

definition call_error :: "ustring \<times> ustring list \<Rightarrow> resolve_error option" where
  "call_error = (\<lambda>(name, args). case arity name of
       None \<Rightarrow> Some (UnknownFunction name)
     | Some n \<Rightarrow> if length args = n then None else Some (ArityMismatch name n (length args)))"

text \<open>The first error of a list of calls.\<close>

definition first_error :: "(ustring \<times> ustring list) list \<Rightarrow> resolve_error option" where
  "first_error cs = (case List.map_filter call_error cs of [] \<Rightarrow> None | e # _ \<Rightarrow> Some e)"

lemma first_error_append:
  "first_error (xs @ ys) = (case first_error xs of Some e \<Rightarrow> Some e | None \<Rightarrow> first_error ys)"
proof -
  have "List.map_filter call_error (xs @ ys) = List.map_filter call_error xs @ List.map_filter call_error ys"
    by (induction xs) (simp_all add: List.map_filter_def)
  then show ?thesis by (simp add: first_error_def split: list.split)
qed

lemma first_error_single: "first_error [c] = call_error c"
  by (simp add: first_error_def List.map_filter_def split: option.split)

lemma unary_arg_eq:
  "unary_arg name args = (if length args = 1 then Inr (LockArg (hd args)) else Inl (ArityMismatch name 1 (length args)))"
  by (auto simp: unary_arg_def split: list.splits)

lemma resolve_call_error:
  "resolve_call name args = Inl e \<longleftrightarrow> call_error (name, args) = Some e"
  by (auto simp: resolve_call_def unary_arg_eq ensure_nullary_def call_error_def arity_def bindE_eq_Inl)

lemma resolve_expr_error: "resolve_expr e = Inl err \<longleftrightarrow> first_error (calls e) = Some err"
proof (induction e arbitrary: err)
  case (Call name args)
  then show ?case by (auto simp: bindE_eq_Inl resolve_call_error first_error_single)
next
  case (SNot e)
  then show ?case by (auto simp: bindE_eq_Inl)
next
  case (SAnd l r)
  have "first_error (calls l) = None \<longleftrightarrow> (\<exists>x. resolve_expr l = Inr x)"
    using SAnd.IH(1) by (cases "resolve_expr l") auto
  then show ?case
    using SAnd.IH by (auto simp: bindE_eq_Inl first_error_append split: option.split)
next
  case (SOr l r)
  have "first_error (calls l) = None \<longleftrightarrow> (\<exists>x. resolve_expr l = Inr x)"
    using SOr.IH(1) by (cases "resolve_expr l") auto
  then show ?case
    using SOr.IH by (auto simp: bindE_eq_Inl first_error_append split: option.split)
qed

section \<open>What a resolved lock means\<close>

text \<open>A reference semantics on the text of the calls, and whether a tree is free of negation.\<close>

fun call_holds :: "lock_context \<Rightarrow> ustring \<Rightarrow> ustring list \<Rightarrow> bool" where
  "call_holds c name args =
     (name = lit ''perm'' \<and> hd args \<in> ctx_perms c \<or> name = lit ''attr'' \<and> hd args \<in> ctx_attrs c \<or>
      name = lit ''tag'' \<and> hd args \<in> ctx_tags c \<or> name = lit ''status'' \<and> hd args \<in> ctx_statuses c \<or>
      name = lit ''self'' \<and> ctx_is_self c)"

fun holds :: "lock_context \<Rightarrow> syntax_expr \<Rightarrow> bool" where
  "holds c (Call name args) = call_holds c name args"
| "holds c (SNot e) = (\<not> holds c e)"
| "holds c (SAnd l r) = (holds c l \<and> holds c r)"
| "holds c (SOr l r) = (holds c l \<or> holds c r)"

fun positive :: "syntax_expr \<Rightarrow> bool" where
  "positive (Call _ _) = True"
| "positive (SNot _) = False"
| "positive (SAnd l r) = (positive l \<and> positive r)"
| "positive (SOr l r) = (positive l \<and> positive r)"

definition more_facts :: "lock_context \<Rightarrow> lock_context \<Rightarrow> bool" where
  "more_facts c d \<longleftrightarrow> ctx_perms c \<subseteq> ctx_perms d \<and> ctx_attrs c \<subseteq> ctx_attrs d \<and> ctx_tags c \<subseteq> ctx_tags d \<and>
     ctx_statuses c \<subseteq> ctx_statuses d \<and> (ctx_is_self c \<longrightarrow> ctx_is_self d)"

lemma resolve_call_holds: "resolve_call name args = Inr f \<Longrightarrow> eval_fn f c = call_holds c name args"
  by (auto simp: resolve_call_def unary_arg_eq ensure_nullary_def split: if_splits)

lemma resolve_expr_holds: "resolve_expr e = Inr r \<Longrightarrow> eval_expr r c = holds c e"
  by (induction e arbitrary: r) (auto simp: resolve_call_holds)

lemma positive_mono: "positive e \<Longrightarrow> more_facts c d \<Longrightarrow> holds c e \<Longrightarrow> holds d e"
  by (induction e) (auto simp: more_facts_def)

text \<open>
  Locks fail closed at load and mean what they say. Resolution accepts a parsed lock exactly
  when every call in it names a known function with its number of arguments, and otherwise
  reports the leftmost offending call; an accepted lock keeps its access type and grants exactly
  what the boolean tree over its calls grants; and a lock without negation grants no less when
  facts are added.
\<close>

theorem lock_resolution:
  "(resolve_lock p = Inl err \<longleftrightarrow> first_error (calls (pl_expr p)) = Some err) \<and>
   (is_ok (resolve_lock p) \<longleftrightarrow> (\<forall>(name, args) \<in> set (calls (pl_expr p)). arity name = Some (length args))) \<and>
   (\<forall>l. resolve_lock p = Inr l \<longrightarrow> lock_access l = pl_access p \<and>
      (\<forall>c. evaluate l c = holds c (pl_expr p)) \<and>
      (\<forall>c d. positive (pl_expr p) \<and> more_facts c d \<and> evaluate l c \<longrightarrow> evaluate l d))"
proof (intro conjI)
  show err: "resolve_lock p = Inl err \<longleftrightarrow> first_error (calls (pl_expr p)) = Some err" for err
    by (simp add: resolve_lock_def bindE_eq_Inl resolve_expr_error)
  have "is_ok (resolve_lock p) \<longleftrightarrow> first_error (calls (pl_expr p)) = None"
    using err by (cases "resolve_lock p") (auto simp: is_ok_iff)
  also have "\<dots> \<longleftrightarrow> (\<forall>c \<in> set (calls (pl_expr p)). call_error c = None)"
  proof -
    have "List.map_filter call_error cs = [] \<longleftrightarrow> (\<forall>c \<in> set cs. call_error c = None)" for cs
      by (induction cs) (auto simp: List.map_filter_def)
    from this [of "calls (pl_expr p)"] show ?thesis
      by (cases "List.map_filter call_error (calls (pl_expr p))") (auto simp: first_error_def)
  qed
  also have "\<dots> \<longleftrightarrow> (\<forall>(name, args) \<in> set (calls (pl_expr p)). arity name = Some (length args))"
    by (auto simp: call_error_def split: option.splits if_splits)
  finally show "is_ok (resolve_lock p) \<longleftrightarrow>
      (\<forall>(name, args) \<in> set (calls (pl_expr p)). arity name = Some (length args))" .
  show "\<forall>l. resolve_lock p = Inr l \<longrightarrow> lock_access l = pl_access p \<and>
      (\<forall>c. evaluate l c = holds c (pl_expr p)) \<and>
      (\<forall>c d. positive (pl_expr p) \<and> more_facts c d \<and> evaluate l c \<longrightarrow> evaluate l d)"
    using positive_mono by (auto simp: resolve_lock_def evaluate_def resolve_expr_holds)
qed

theorem lock_resolution_witness:
  "evaluate \<lparr>lock_access = AccessType (lit ''get''), lock_expr = RAnd (Fn (Perm (LockArg (lit ''builder'')))) (RNot (Fn SelfRef))\<rparr>
     (with_perm lock_context_new (lit ''builder''))"
proof -
  let ?e = "SAnd (Call (lit ''perm'') [lit ''builder'']) (SNot (Call (lit ''self'') []))"
  let ?p = "\<lparr>pl_access = AccessType (lit ''get''), pl_expr = ?e\<rparr>"
  have "resolve_lock ?p = Inr \<lparr>lock_access = AccessType (lit ''get''),
      lock_expr = RAnd (Fn (Perm (LockArg (lit ''builder'')))) (RNot (Fn SelfRef))\<rparr>"
    by (simp add: resolve_lock_def resolve_call_def unary_arg_def ensure_nullary_def)
  with lock_resolution [of ?p] have "evaluate \<lparr>lock_access = AccessType (lit ''get''),
      lock_expr = RAnd (Fn (Perm (LockArg (lit ''builder'')))) (RNot (Fn SelfRef))\<rparr> c = holds c ?e" for c
    by simp
  then show ?thesis by (simp add: with_perm_def lock_context_new_def)
qed

end
