(* ===== verification/Engine.thy ===== *)
theory Engine
  imports Session_Service Command World Place Locks
begin

text \<open>
  What a command run reads and produces, crates/mud-engine/src: the caller (caller.rs), the
  run ids (command_id.rs), the session registry as resolver and roster (session/resolver.rs,
  roster.rs), the places seam (places.rs), the reply of a handler and the dispatcher
  (dispatch.rs) and the room announcements (presence.rs). A trait object is a record of its
  methods. The registry is a hash map, whose iteration order is the parameter \<open>order\<close>: the
  standard library promises only that it lists every key once.
\<close>

section \<open>Run ids\<close>

datatype command_id = CommandId (cid_get: u64)

datatype pipeline_error = UnknownSession session_id | CommandIdExhausted

datatype command_id_gen = CommandIdGen "u64 option"

definition id_gen_new :: command_id_gen where
  "id_gen_new = CommandIdGen (Some 1)"

fun next_id :: "command_id_gen \<Rightarrow> (pipeline_error + command_id) \<times> command_id_gen" where
  "next_id (CommandIdGen None) = (Inl CommandIdExhausted, CommandIdGen None)"
| "next_id (CommandIdGen (Some current)) =
     (Inr (CommandId current), CommandIdGen (checked_add_u64 current 1))"

section \<open>The caller\<close>

record caller_context =
  caller_session :: session_id
  caller_entity :: entity_id
  caller_location :: place_id
  caller_name :: puppet_name
  caller_access :: lock_context

definition caller_context_new ::
  "session_id \<Rightarrow> entity_id \<Rightarrow> place_id \<Rightarrow> puppet_name \<Rightarrow> lock_context \<Rightarrow> caller_context" where
  "caller_context_new sid e p n access = \<lparr>caller_session = sid, caller_entity = e, caller_location = p,
     caller_name = n, caller_access = access\<rparr>"

record resolved_session =
  rs_caller :: caller_context
  rs_layers :: layer_commands

type_synonym session_resolver = "session_id \<Rightarrow> world \<Rightarrow> resolved_session option"

section \<open>Roster and places\<close>

record presence =
  presence_name :: puppet_name

record roster =
  session_of :: "entity_id \<Rightarrow> session_id option"
  connected :: "presence list"
  name_of :: "entity_id \<Rightarrow> puppet_name option"

type_synonym places = "place_id \<Rightarrow> place option"

section \<open>The registry as resolver and roster\<close>

definition layers_default :: layer_commands where
  "layers_default = \<lparr>lay_account = [], lay_puppet = [], lay_containers = [], lay_location = [],
     lay_channels = [], lay_builtins = []\<rparr>"

definition registry_resolve :: "session_service \<Rightarrow> command list \<Rightarrow> session_resolver" where
  "registry_resolve svc builtins sid w =
     (case ss_sessions svc sid of
        Some (InWorld binding) \<Rightarrow>
          map_option (\<lambda>p. \<lparr>rs_caller = caller_context_new sid (bind_puppet binding) p (bind_name binding) lock_context_new,
                          rs_layers = layers_default\<lparr>lay_builtins := builtins\<rparr>\<rparr>)
            (location_of w (bind_puppet binding))
      | Some (Login _) \<Rightarrow> None
      | None \<Rightarrow> None)"

text \<open>\<open>find_map\<close> over the entries of the map.\<close>

fun find_map :: "('a \<Rightarrow> 'b option) \<Rightarrow> 'a list \<Rightarrow> 'b option" where
  "find_map f [] = None"
| "find_map f (x # xs) = (case f x of Some y \<Rightarrow> Some y | None \<Rightarrow> find_map f xs)"

definition registry_session_of :: "session_id list \<Rightarrow> session_service \<Rightarrow> entity_id \<Rightarrow> session_id option" where
  "registry_session_of order svc e =
     find_map (\<lambda>sid. case ss_sessions svc sid of
         Some (InWorld binding) \<Rightarrow> if bind_puppet binding = e then Some sid else None
       | _ \<Rightarrow> None) order"

definition registry_connected :: "session_id list \<Rightarrow> session_service \<Rightarrow> presence list" where
  "registry_connected order svc =
     List.map_filter (\<lambda>sid. case ss_sessions svc sid of
         Some (InWorld binding) \<Rightarrow> Some \<lparr>presence_name = bind_name binding\<rparr>
       | _ \<Rightarrow> None) order"

definition registry_name_of :: "session_id list \<Rightarrow> session_service \<Rightarrow> entity_id \<Rightarrow> puppet_name option" where
  "registry_name_of order svc e =
     find_map (\<lambda>sid. case ss_sessions svc sid of
         Some (InWorld binding) \<Rightarrow> if bind_puppet binding = e then Some (bind_name binding) else None
       | _ \<Rightarrow> None) order"

definition registry_roster :: "session_id list \<Rightarrow> session_service \<Rightarrow> roster" where
  "registry_roster order svc = \<lparr>session_of = registry_session_of order svc,
     connected = registry_connected order svc, name_of = registry_name_of order svc\<rparr>"

section \<open>Replies\<close>

record broadcast =
  bc_place :: place_id
  bc_except :: entity_id
  bc_message :: styled_text

definition to_place :: "place_id \<Rightarrow> entity_id \<Rightarrow> styled_text \<Rightarrow> broadcast" where
  "to_place p except m = \<lparr>bc_place = p, bc_except = except, bc_message = m\<rparr>"

datatype session_disposition = Remain | Close

record command_reply =
  reply_output :: styled_text
  reply_effects :: "World.effect list"
  reply_broadcasts :: "broadcast list"
  reply_disposition :: session_disposition

definition to_caller :: "styled_text \<Rightarrow> command_reply" where
  "to_caller t = \<lparr>reply_output = t, reply_effects = [], reply_broadcasts = [], reply_disposition = Remain\<rparr>"

definition with_effect :: "command_reply \<Rightarrow> World.effect \<Rightarrow> command_reply" where
  "with_effect r e = r\<lparr>reply_effects := reply_effects r @ [e]\<rparr>"

definition with_broadcast :: "command_reply \<Rightarrow> broadcast \<Rightarrow> command_reply" where
  "with_broadcast r b = r\<lparr>reply_broadcasts := reply_broadcasts r @ [b]\<rparr>"

definition reply_closing :: "command_reply \<Rightarrow> command_reply" where
  "reply_closing r = r\<lparr>reply_disposition := Close\<rparr>"

lemmas reply_defs = to_caller_def with_effect_def with_broadcast_def reply_closing_def

section \<open>Handlers and their registry\<close>

record engine_view =
  ev_world :: world
  ev_places :: places
  ev_roster :: roster

record command_context =
  cc_command_id :: command_id
  cc_caller :: caller_context
  cc_locale :: locale_tag
  cc_switches :: "switch list"
  cc_args :: ustring
  cc_engine :: engine_view

abbreviation cc_world :: "command_context \<Rightarrow> world" where "cc_world ctx \<equiv> ev_world (cc_engine ctx)"
abbreviation cc_places :: "command_context \<Rightarrow> places" where "cc_places ctx \<equiv> ev_places (cc_engine ctx)"
abbreviation cc_roster :: "command_context \<Rightarrow> roster" where "cc_roster ctx \<equiv> ev_roster (cc_engine ctx)"
abbreviation cc_entity :: "command_context \<Rightarrow> entity_id" where "cc_entity ctx \<equiv> caller_entity (cc_caller ctx)"
abbreviation cc_location :: "command_context \<Rightarrow> place_id" where "cc_location ctx \<equiv> caller_location (cc_caller ctx)"

type_synonym command_handler = "command_context \<Rightarrow> command_reply"

record command_binding =
  bind_lock :: "lock option"
  bind_handler :: command_handler

definition binding_new :: "command_handler \<Rightarrow> command_binding" where
  "binding_new h = \<lparr>bind_lock = None, bind_handler = h\<rparr>"

definition gated_by :: "command_binding \<Rightarrow> lock \<Rightarrow> command_binding" where
  "gated_by b l = b\<lparr>bind_lock := Some l\<rparr>"

record dispatcher =
  dis_bindings :: "command_name \<rightharpoonup> command_binding"

definition dispatcher_new :: dispatcher where
  "dispatcher_new = \<lparr>dis_bindings = Map.empty\<rparr>"

definition dispatcher_bind :: "dispatcher \<Rightarrow> command_name \<Rightarrow> command_binding \<Rightarrow> dispatcher" where
  "dispatcher_bind d n b = d\<lparr>dis_bindings := (dis_bindings d)(n \<mapsto> b)\<rparr>"

definition dispatcher_binding :: "dispatcher \<Rightarrow> command_name \<Rightarrow> command_binding option" where
  "dispatcher_binding d n = dis_bindings d n"

section \<open>Room announcements\<close>

definition announce :: "world \<Rightarrow> roster \<Rightarrow> place_id \<Rightarrow> entity_id \<Rightarrow> styled_text \<Rightarrow> session_output list" where
  "announce w r p except m =
     map (\<lambda>sid. \<lparr>out_session = sid, out_text = OutputText m, out_kind = KindLine\<rparr>)
       (List.map_filter (session_of r) (filter (\<lambda>occupant. occupant \<noteq> except) (occupants_of w p)))"

definition entered_text :: "locale_tag \<Rightarrow> ustring \<Rightarrow> styled_text" where
  "entered_text loc n = styled_role styled_new (t_macro loc ''presence.enter'' [(''name'', n)]) role_SYSTEM"

definition left_text :: "locale_tag \<Rightarrow> ustring \<Rightarrow> styled_text" where
  "left_text loc n = styled_role styled_new (t_macro loc ''presence.leave'' [(''name'', n)]) role_SYSTEM"

section \<open>The roster as an interface\<close>

text \<open>
  What a roster promises to the commands: a session it names controls the entity, and an entity
  controlled by a session has one. The audience of an announcement follows.
\<close>

locale session_roster =
  fixes valid :: "'r \<Rightarrow> bool"
    and ros :: "'r \<Rightarrow> roster"
    and controls :: "'r \<Rightarrow> session_id \<Rightarrow> entity_id \<Rightarrow> bool"
  assumes session_sound: "valid r \<Longrightarrow> session_of (ros r) e = Some sid \<Longrightarrow> controls r sid e"
    and session_complete: "valid r \<Longrightarrow> controls r sid e \<Longrightarrow> session_of (ros r) e \<noteq> None"
begin

lemma audience:
  assumes "valid r" and "out \<in> set (announce w (ros r) p except m)"
  shows "out_text out = OutputText m \<and> out_kind out = KindLine \<and>
    (\<exists>e \<in> set (occupants_of w p). e \<noteq> except \<and> session_of (ros r) e = Some (out_session out) \<and>
       controls r (out_session out) e)"
proof -
  obtain e where "e \<in> set (occupants_of w p)" "e \<noteq> except" "session_of (ros r) e = Some (out_session out)"
    and "out_text out = OutputText m" "out_kind out = KindLine"
    using assms(2) by (auto simp: announce_def mem_map_filter)
  with session_sound [OF assms(1)] show ?thesis by blast
qed

lemma audience_complete:
  assumes "valid r" and "e \<in> set (occupants_of w p)" and "e \<noteq> except" and "controls r sid e"
  shows "\<exists>sid'. controls r sid' e \<and>
    \<lparr>out_session = sid', out_text = OutputText m, out_kind = KindLine\<rparr> \<in> set (announce w (ros r) p except m)"
proof -
  obtain sid' where s: "session_of (ros r) e = Some sid'"
    using session_complete [OF assms(1,4)] by blast
  with assms(2,3) have "sid' \<in> set (List.map_filter (session_of (ros r)) (filter (\<lambda>o'. o' \<noteq> except) (occupants_of w p)))"
    by (auto simp: mem_map_filter)
  then show ?thesis using session_sound [OF assms(1) s] by (auto simp: announce_def)
qed

end

definition in_world :: "session_service \<Rightarrow> session_id \<Rightarrow> entity_id \<Rightarrow> bool" where
  "in_world svc sid e \<longleftrightarrow> (\<exists>b. ss_sessions svc sid = Some (InWorld b) \<and> bind_puppet b = e)"

definition enumerates :: "session_id list \<Rightarrow> session_service \<Rightarrow> bool" where
  "enumerates order svc \<longleftrightarrow> distinct order \<and> set order = {sid. ss_sessions svc sid \<noteq> None}"

lemma find_map_Some: "find_map f xs = Some y \<Longrightarrow> \<exists>x \<in> set xs. f x = Some y"
  by (induction xs) (auto split: option.splits)

lemma find_map_None: "find_map f xs = None \<longleftrightarrow> (\<forall>x \<in> set xs. f x = None)"
  by (induction xs) (auto split: option.splits)

lemma session_of_sound: "registry_session_of order svc e = Some sid \<Longrightarrow> in_world svc sid e \<and> sid \<in> set order"
  by (auto simp: registry_session_of_def in_world_def dest!: find_map_Some
      split: option.splits session_state.splits if_splits)

lemma session_of_complete:
  assumes "enumerates order svc" and "in_world svc sid e"
  shows "registry_session_of order svc e \<noteq> None"
proof
  assume none: "registry_session_of order svc e = None"
  have "sid \<in> set order" using assms by (auto simp: enumerates_def in_world_def)
  with none have "(case ss_sessions svc sid of
      Some (InWorld binding) \<Rightarrow> if bind_puppet binding = e then Some sid else None | _ \<Rightarrow> None) = None"
    unfolding registry_session_of_def find_map_None by blast
  with assms(2) show False by (auto simp: in_world_def)
qed

interpretation registry: session_roster "\<lambda>(order, svc). enumerates order svc"
  "\<lambda>(order, svc). registry_roster order svc" "\<lambda>(order, svc). in_world svc"
proof (unfold_locales)
  fix r :: "session_id list \<times> session_service" and e sid
  obtain order svc where r: "r = (order, svc)" by (cases r)
  show "(case r of (order, svc) \<Rightarrow> in_world svc) sid e"
    if "session_of (case r of (order, svc) \<Rightarrow> registry_roster order svc) e = Some sid"
    using that r session_of_sound by (simp add: registry_roster_def)
  show "session_of (case r of (order, svc) \<Rightarrow> registry_roster order svc) e \<noteq> None"
    if "case r of (order, svc) \<Rightarrow> enumerates order svc" and "(case r of (order, svc) \<Rightarrow> in_world svc) sid e"
    using that r session_of_complete by (simp add: registry_roster_def)
qed

section \<open>Properties\<close>

fun next_ids :: "nat \<Rightarrow> command_id_gen \<Rightarrow> (pipeline_error + command_id) list" where
  "next_ids 0 g = []"
| "next_ids (Suc n) g = (case next_id g of (r, g') \<Rightarrow> r # next_ids n g')"

lemma next_ids_spent: "i < n \<Longrightarrow> next_ids n (CommandIdGen None) ! i = Inl CommandIdExhausted"
  by (induction n arbitrary: i) (auto simp: nth_Cons split: nat.split)

lemma length_next_ids [simp]: "length (next_ids n g) = n"
  by (induction n arbitrary: g) (auto split: prod.split)

lemma next_ids_nth:
  "i < n \<Longrightarrow> next_ids n (CommandIdGen (Some c)) ! i =
     (if unat c + i < 2 ^ 64 then Inr (CommandId (c + of_nat i)) else Inl CommandIdExhausted)"
proof (induction n arbitrary: i c)
  case (Suc n)
  have c: "unat c < 2 ^ 64" using unsigned_less [of c] by simp
  show ?case
  proof (cases i)
    case (Suc j)
    show ?thesis
    proof (cases "unat c + 1 < 2 ^ 64")
      case True
      then have "unat (c + 1) = unat c + 1" using unat_add_lem [where 'a = 64, of c 1] by simp
      with True Suc Suc.prems Suc.IH [of j "c + 1"] show ?thesis
        by (simp add: checked_add_u64_def add.assoc)
    next
      case False
      with c Suc Suc.prems show ?thesis by (simp add: checked_add_u64_def next_ids_spent)
    qed
  qed (use c in simp)
qed simp

text \<open>
  Run ids never repeat: the runs of a pipeline are numbered 1, 2, 3 and so on in order, and
  once every 64-bit id is spent each further run fails with the exhaustion error instead of
  wrapping around.
\<close>

theorem command_ids_never_repeat:
  "i < n \<Longrightarrow> next_ids n id_gen_new ! i =
     (if i + 1 < 2 ^ 64 then Inr (CommandId (of_nat (i + 1))) else Inl CommandIdExhausted)"
  by (simp add: id_gen_new_def next_ids_nth)

theorem command_ids_never_repeat_witness:
  "next_ids 3 id_gen_new ! 2 = Inr (CommandId 3)"
  using command_ids_never_repeat [of 2 3] by simp

text \<open>
  A room announcement reaches exactly the players in the room: when no two sessions share a
  puppet, the sessions it is sent to are those whose puppet is among the occupants of the place
  other than the excepted one, each is sent the message once, and nobody else hears it, whatever
  order the registry is walked in.
\<close>

theorem announcement_audience:
  fixes p :: place_id and except :: entity_id and m :: styled_text
  assumes "world_inv w" and "enumerates order svc"
    and "\<forall>s1 s2 e. in_world svc s1 e \<and> in_world svc s2 e \<longrightarrow> s1 = s2"
  defines "outs \<equiv> announce w (registry_roster order svc) p except m"
  shows "set (map out_session outs) =
      {sid. \<exists>e \<in> set (occupants_of w p). e \<noteq> except \<and> in_world svc sid e} \<and>
    distinct (map out_session outs) \<and>
    (\<forall>out \<in> set outs. out_text out = OutputText m \<and> out_kind out = KindLine)"
proof -
  let ?s = "registry_session_of order svc"
  let ?es = "filter (\<lambda>occupant. occupant \<noteq> except) (occupants_of w p)"
  have outs: "map out_session outs = List.map_filter ?s ?es"
    by (simp add: outs_def announce_def registry_roster_def comp_def)
  have iff: "?s e = Some sid \<longleftrightarrow> in_world svc sid e" for e sid
    using session_of_sound [of order svc e] session_of_complete [OF assms(2)] assms(3) by blast
  have "set (map out_session outs) = {sid. \<exists>e \<in> set (occupants_of w p). e \<noteq> except \<and> in_world svc sid e}"
    unfolding outs by (auto simp: mem_map_filter iff)
  moreover have "distinct (map out_session outs)"
  proof -
    have "distinct (map id_slot (occupants_of w p))"
      using location_okD(2) [OF world_invD(2) [OF assms(1)]] by (simp add: occupants_of_def)
    then have "distinct (filter f (occupants_of w p))" for f by (simp add: distinct_map)
    moreover have "inj_on (the \<circ> ?s) {e. ?s e \<noteq> None}"
      using iff by (intro inj_onI) (fastforce simp: in_world_def)
    ultimately show ?thesis
      unfolding outs List.map_filter_def by (auto simp: distinct_map intro: inj_on_subset)
  qed
  moreover have "\<forall>out \<in> set outs. out_text out = OutputText m \<and> out_kind out = KindLine"
    using registry.audience [of "(order, svc)"] assms(2) unfolding outs_def by auto
  ultimately show ?thesis by blast
qed

text \<open>Two players and a sword in one place.\<close>

abbreviation hall_world :: world where
  "hall_world \<equiv>
     \<lparr>w_arena = \<lparr>tenant = TenantTag 0,
        slots = [Live (Generation 0), Live (Generation 0), Live (Generation 0)], free_list = []\<rparr>,
      w_locations = \<lparr>loc_by_slot = [Some (PlaceId 1), Some (PlaceId 1), Some (PlaceId 1)],
        loc_occupants = [PlaceId 1 \<mapsto> [sample_handle 0 0, sample_handle 1 0, sample_handle 2 0]]\<rparr>,
      w_inventory = inventory_new, w_naming = Naming [[], [], [Keyword (lit ''sword'')]]\<rparr>"

lemma hall_slots [simp]:
  "id_slot (sample_handle 0 0) = SlotIndex 0" "id_slot (sample_handle 1 0) = SlotIndex 1"
  "id_slot (sample_handle 2 0) = SlotIndex 2"
  by (simp_all add: gen_ok_iff tag_ok_iff)

lemma hall_live: "live hall_world (sample_handle 0 0)" "live hall_world (sample_handle 1 0)"
    "live hall_world (sample_handle 2 0)"
  by (simp_all add: alive_def vec_get_def gen_ok_iff tag_ok_iff)

lemma slot_neq: "id_slot a \<noteq> id_slot b \<Longrightarrow> a \<noteq> b"
  by auto

lemma hall_distinct [simp]:
  "sample_handle 0 0 \<noteq> sample_handle 1 0" "sample_handle 0 0 \<noteq> sample_handle 2 0"
  "sample_handle 1 0 \<noteq> sample_handle 2 0" "sample_handle 1 0 \<noteq> sample_handle 0 0"
  "sample_handle 2 0 \<noteq> sample_handle 0 0" "sample_handle 2 0 \<noteq> sample_handle 1 0"
  by (rule slot_neq, simp)+

lemma hall_occupants:
  "occupants_of hall_world p = (if p = PlaceId 1 then [sample_handle 0 0, sample_handle 1 0, sample_handle 2 0] else [])"
  by (simp add: occupants_of_def occupants_def)

lemma slot_below_3:
  assumes "slot_nat e < 3"
  shows "id_slot e = SlotIndex 0 \<or> id_slot e = SlotIndex 1 \<or> id_slot e = SlotIndex 2"
proof -
  from assms have "unat (slot_get (id_slot e)) = 0 \<or> unat (slot_get (id_slot e)) = 1 \<or> unat (slot_get (id_slot e)) = 2"
    by auto
  then have "slot_get (id_slot e) = 0 \<or> slot_get (id_slot e) = 1 \<or> slot_get (id_slot e) = 2"
    unfolding word_unat_eq_iff by simp
  then show ?thesis by (metis slot_index.exhaust_sel)
qed

lemma world_inv_hall: "world_inv hall_world"
proof -
  let ?hs = "[sample_handle 0 0, sample_handle 1 0, sample_handle 2 0]"
  have here: "location (w_locations hall_world) e = (if slot_nat e < 3 then Some (PlaceId 1) else None)" for e
    by (auto simp: location_dense dense_def nth_Cons split: nat.split)
  have occ: "occupants (w_locations hall_world) p = (if p = PlaceId 1 then ?hs else [])" for p
    by (simp add: occupants_def)
  have ex: "\<exists>o' \<in> set ?hs. id_slot o' = id_slot e" if "slot_nat e < 3" for e
  proof -
    from slot_below_3 [OF that] have "id_slot e \<in> id_slot ` set ?hs" by simp
    then obtain o' where "id_slot e = id_slot o'" "o' \<in> set ?hs" by (rule imageE)
    then show ?thesis by (intro bexI [of _ o']) (rule sym)
  qed
  have "\<exists>o' \<in> set (occupants (w_locations hall_world) p). id_slot o' = id_slot e"
    if "location (w_locations hall_world) e = Some p" for e p
    using that ex [of e] unfolding here occ by (simp only: split: if_splits) auto
  moreover have "location (w_locations hall_world) e = Some p"
    if "e \<in> set (occupants (w_locations hall_world) p)" for e p
    using that unfolding here occ by (auto split: if_splits)
  moreover have "distinct (map id_slot (occupants (w_locations hall_world) p))" for p
    unfolding occ by simp
  moreover have "loc_occupants (w_locations hall_world) p \<noteq> Some []" for p
    by simp
  ultimately have "location_ok (w_locations hall_world)"
    unfolding location_ok_def by blast
  moreover have "\<forall>p. \<forall>e \<in> set (occupants_of hall_world p). live hall_world e"
    using hall_live unfolding hall_occupants by simp
  moreover have "slot_live (w_arena hall_world) (id_slot e) \<longleftrightarrow> slot_nat e < 3" for e
    by (auto simp: slot_live_def vec_get_def nth_Cons split: nat.split)
  moreover have "arena_ok (w_arena hall_world)"
  proof -
    have "vec_get [Live (Generation 0), Live (Generation 0), Live (Generation 0)] n \<noteq> Some (Free g)" for n g
      by (auto simp: vec_get_Some nth_Cons split: nat.splits)
    then show ?thesis by (simp add: arena_ok_def tag_ok_0 gen_ok_iff)
  qed
  moreover have "location (w_locations hall_world) e = None" if "\<not> slot_nat e < 3" for e
    unfolding here using that by simp
  moreover have "naming_keywords (w_naming hall_world) e = []" if "\<not> slot_nat e < 3" for e
    using that by (simp add: keywords_dense dense_def)
  ultimately show ?thesis
    by (simp add: world_inv_def contents_dense inventory_new_def)
qed

abbreviation hall_service :: session_service where
  "hall_service \<equiv> (service_new [] EN)\<lparr>ss_sessions := [
     SessionId 1 \<mapsto> InWorld \<lparr>bind_account = AccountId 1, bind_puppet = sample_handle 0 0, bind_name = PuppetName (lit ''ann'')\<rparr>,
     SessionId 2 \<mapsto> InWorld \<lparr>bind_account = AccountId 2, bind_puppet = sample_handle 1 0, bind_name = PuppetName (lit ''bob'')\<rparr>]\<rparr>"

lemma hall_service_sessions:
  "in_world hall_service sid e \<longleftrightarrow>
     sid = SessionId 1 \<and> e = sample_handle 0 0 \<or> sid = SessionId 2 \<and> e = sample_handle 1 0"
  "enumerates [SessionId 2, SessionId 1] hall_service"
  by (auto simp: in_world_def enumerates_def)

lemma announcement_audience_witness:
  "set (map out_session (announce hall_world (registry_roster [SessionId 2, SessionId 1] hall_service)
      (PlaceId 1) (sample_handle 0 0) styled_new)) = {SessionId 2}"
proof -
  have "\<forall>s1 s2 e. in_world hall_service s1 e \<and> in_world hall_service s2 e \<longrightarrow> s1 = s2"
    unfolding hall_service_sessions(1) by auto
  from announcement_audience [OF world_inv_hall hall_service_sessions(2) this,
      of "PlaceId 1" "sample_handle 0 0" styled_new]
  show ?thesis unfolding hall_service_sessions(1) hall_occupants by auto
qed

text \<open>
  A second login does not displace the first: when a player whose puppet is already in the
  world selects the same puppet on a new connection, the store's answer binds the new session too
  and leaves the first one in place; from then on, of the two sessions of that puppet at most one
  hears any announcement, the one the registry happens to list first.
\<close>

theorem second_login_coexists:
  assumes first: "in_world svc s1 e" and second: "ss_sessions svc s2 = Some (Login (PuppetSelect acct ps))"
    and line: "split_command line = Some (lit ''play'', arg)" and sel: "match_puppet ps arg = Some pup"
    and store: "be_resolve_puppet be b (puppet_key pup) = (Some e, b)"
  shows "\<exists>r svc1. service_input be svc b s2 line = (r, svc1, b) \<and> in_world svc1 s1 e \<and> in_world svc1 s2 e \<and>
    (\<forall>order w p except m. enumerates order svc1 \<and> world_inv w \<longrightarrow>
       \<not> (s1 \<in> out_session ` set (announce w (registry_roster order svc1) p except m) \<and>
          s2 \<in> out_session ` set (announce w (registry_roster order svc1) p except m)))"
proof -
  have ne: "s1 \<noteq> s2" using first second by (auto simp: in_world_def)
  let ?ent = "AwaitingEnter acct ps (puppet_key pup) (puppet_name pup)"
  have i: "on_input (PuppetSelect acct ps) line = (?ent, of_effect (Enter (acc_id acct) (puppet_key pup)))"
    using line sel by (simp add: on_input_def puppet_select_input_def of_effect_def)
  have pf: "perform be b (Enter (acc_id acct) (puppet_key pup)) = (Entered, b)"
    using store by simp
  obtain t where e: "on_effect ?ent Entered = (Anon, t)"
    and t: "terminal t = Some (Bound (acc_id acct) (puppet_key pup) (puppet_name pup))"
    by (simp add: on_effect_def)
  obtain outs pending where "service_input be svc b s2 line =
      drive be s2 (set_session svc s2 (Some (Login Anon))) b outs pending t"
    using answered [OF second i _ _ pf e] by (auto simp: of_effect_def)
  moreover obtain r where "drive be s2 (set_session svc s2 (Some (Login Anon))) b outs pending t =
      (r, snd (apply_terminal be s2 (set_session svc s2 (Some (Login Anon))) b
         (Bound (acc_id acct) (puppet_key pup) (puppet_name pup))))"
    using drive_end [OF t, where be = be and b = b] by blast
  ultimately have run: "service_input be svc b s2 line = (r, set_session svc s2
      (Some (InWorld \<lparr>bind_account = acc_id acct, bind_puppet = e, bind_name = puppet_name pup\<rparr>)), b)"
    using store by simp
  define svc1 where "svc1 = set_session svc s2
      (Some (InWorld \<lparr>bind_account = acc_id acct, bind_puppet = e, bind_name = puppet_name pup\<rparr>))"
  have both: "in_world svc1 s1 e" "in_world svc1 s2 e"
    using first ne by (simp_all add: in_world_def svc1_def set_session_other)
  have "\<not> (s1 \<in> out_session ` set (announce w (registry_roster order svc1) p except m) \<and>
          s2 \<in> out_session ` set (announce w (registry_roster order svc1) p except m))"
    if "enumerates order svc1" for order w p except m
  proof -
    have only: "registry_session_of order svc1 e = Some sid"
      if heard: "sid \<in> out_session ` set (announce w (registry_roster order svc1) p except m)" and "in_world svc1 sid e" for sid
    proof -
      obtain e' where "registry_session_of order svc1 e' = Some sid" "in_world svc1 sid e'"
        using heard registry.audience [of "(order, svc1)" _ w p except m] \<open>enumerates order svc1\<close>
        by (auto simp: registry_roster_def)
      moreover then have "e' = e" using \<open>in_world svc1 sid e\<close> by (auto simp: in_world_def)
      ultimately show ?thesis by simp
    qed
    show ?thesis using only both ne by (metis option.inject)
  qed
  with run both show ?thesis unfolding svc1_def by blast
qed

lemma second_login_coexists_witness:
  "\<exists>r svc1. service_input demo_backend
     ((service_new [] EN)\<lparr>ss_sessions := [SessionId 1 \<mapsto> InWorld demo_binding,
        SessionId 2 \<mapsto> Login (PuppetSelect demo_account [demo_puppet])]\<rparr>) () (SessionId 2) (lit ''play 1'') = (r, svc1, ()) \<and>
     in_world svc1 (SessionId 1) (EntityId 9) \<and> in_world svc1 (SessionId 2) (EntityId 9)"
proof -
  have "split_command (lit ''play 1'') = Some (lit ''play'', show_nat 1)"
    by (simp add: line_eval show_nat.simps)
  moreover have "match_puppet [demo_puppet] (show_nat 1) = Some demo_puppet"
    by (simp add: match_ordinal [OF parse_usize_show_nat] usize_max_def)
  moreover define svc where "svc = (service_new [] EN)\<lparr>ss_sessions := [SessionId 1 \<mapsto> InWorld demo_binding,
      SessionId 2 \<mapsto> Login (PuppetSelect demo_account [demo_puppet])]\<rparr>"
  moreover have "in_world svc (SessionId 1) (EntityId 9)"
    and "ss_sessions svc (SessionId 2) = Some (Login (PuppetSelect demo_account [demo_puppet]))"
    by (simp_all add: svc_def in_world_def demo_binding_def)
  moreover have "be_resolve_puppet demo_backend () (puppet_key demo_puppet) = (Some (EntityId 9), ())"
    by (simp add: demo_backend_def demo_puppet_def)
  ultimately show ?thesis
    using second_login_coexists [of svc "SessionId 1" "EntityId 9" "SessionId 2" demo_account "[demo_puppet]"
        "lit ''play 1''" "show_nat 1" demo_puppet demo_backend "()"] by blast
qed

end
