(* ===== verification/Objects.thy ===== *)
theory Objects
  imports World
begin

text \<open>
  Object disambiguation of crates/mud-engine/src/objects.rs: an argument of a command against a
  list of candidates, by keyword prefix, with the ordinal suffix and the all prefix. Unicode
  lower-casing is the parameter \<open>lower\<close>.
\<close>

datatype resolution =
    One entity_id
  | All "entity_id list"
  | AmbiguousObjects "entity_id list"
  | NoSuchObject

definition matching :: "(ustring \<Rightarrow> ustring) \<Rightarrow> world \<Rightarrow> entity_id list \<Rightarrow> ustring \<Rightarrow> entity_id list" where
  "matching lower w candidates token =
     (let token = lower (trim token) in
      if token = [] then []
      else filter (\<lambda>e. list_ex (\<lambda>k. starts_with token (keyword_str k)) (keywords_of w e)) candidates)"

definition strip_all_prefix :: "ustring \<Rightarrow> ustring option" where
  "strip_all_prefix arg =
     (case strip_prefix (lit ''all'') arg of
        None \<Rightarrow> None
      | Some rest \<Rightarrow>
          if rest = [] \<or> starts_with (lit '' '') rest then Some (trim_start rest) else None)"

text \<open>\<open>str::rsplit_once('.')\<close>: around the last full stop.\<close>

definition rsplit_once :: "rchar \<Rightarrow> ustring \<Rightarrow> (ustring \<times> ustring) option" where
  "rsplit_once d s =
     (if d \<notin> set s then None
      else Some (rev (drop 1 (dropWhile (\<lambda>c. c \<noteq> d) (rev s))), rev (takeWhile (\<lambda>c. c \<noteq> d) (rev s))))"

definition split_ordinal :: "ustring \<Rightarrow> ustring \<times> nat option" where
  "split_ordinal arg =
     (case rsplit_once (ch CHR ''.'') arg of
        Some (keyword, suffix) \<Rightarrow>
          (case parse_usize suffix of Some n \<Rightarrow> (keyword, Some n) | None \<Rightarrow> (arg, None))
      | None \<Rightarrow> (arg, None))"

definition resolve_among ::
  "(ustring \<Rightarrow> ustring) \<Rightarrow> world \<Rightarrow> entity_id list \<Rightarrow> ustring \<Rightarrow> resolution" where
  "resolve_among lower w candidates arg0 =
     (let arg = trim arg0 in
      if arg = [] then NoSuchObject
      else (case strip_all_prefix arg of
          Some rest \<Rightarrow>
            (let ms = matching lower w candidates rest in if ms = [] then NoSuchObject else All ms)
        | None \<Rightarrow>
            (let (keyword, ordinal) = split_ordinal arg;
                 ms = matching lower w candidates keyword
             in case ordinal of
                  Some n \<Rightarrow>
                    (case Option.bind (checked_sub_usize n 1) (vec_get ms) of
                       Some e \<Rightarrow> One e | None \<Rightarrow> NoSuchObject)
                | None \<Rightarrow>
                    (case ms of [] \<Rightarrow> NoSuchObject | [only] \<Rightarrow> One only | _ \<Rightarrow> AmbiguousObjects ms))))"

section \<open>What a resolution selects\<close>

definition answers_to :: "(ustring \<Rightarrow> ustring) \<Rightarrow> world \<Rightarrow> ustring \<Rightarrow> entity_id \<Rightarrow> bool" where
  "answers_to lower w token e \<longleftrightarrow>
     lower (trim token) \<noteq> [] \<and> (\<exists>k \<in> set (keywords_of w e). \<exists>r. keyword_str k = lower (trim token) @ r)"

fun selected :: "resolution \<Rightarrow> entity_id list" where
  "selected (One e) = [e]"
| "selected (All es) = es"
| "selected (AmbiguousObjects es) = es"
| "selected NoSuchObject = []"

lemma matching_filter: "matching lower w cs token = filter (answers_to lower w token) cs"
proof -
  have "list_ex (\<lambda>k. starts_with t (keyword_str k)) ks \<longleftrightarrow> (\<exists>k \<in> set ks. \<exists>r. keyword_str k = t @ r)" for t ks
    by (simp add: list_ex_iff starts_with_iff)
  then show ?thesis by (simp add: matching_def answers_to_def [abs_def] Let_def)
qed

lemma trim_id: "s \<noteq> [] \<Longrightarrow> \<not> is_whitespace (hd s) \<Longrightarrow> \<not> is_whitespace (last s) \<Longrightarrow> trim s = s"
proof -
  assume s: "s \<noteq> []" "\<not> is_whitespace (hd s)" "\<not> is_whitespace (last s)"
  then have "dropWhile is_whitespace s = s" by (cases s) auto
  moreover have "dropWhile is_whitespace (rev s) = rev s"
    using s by (cases s rule: rev_cases) auto
  ultimately show ?thesis by (simp add: trim_def trim_start_def trim_end_def)
qed

lemma trim_ends:
  assumes "trim s = s" and "s \<noteq> []"
  shows "\<not> is_whitespace (hd s)" "\<not> is_whitespace (last s)"
proof -
  let ?t = "dropWhile is_whitespace s"
  have s: "s = rev (dropWhile is_whitespace (rev ?t))"
    using assms(1) by (simp add: trim_def trim_start_def trim_end_def)
  then have ne: "dropWhile is_whitespace (rev ?t) \<noteq> []" using assms(2) by (metis rev.simps(1))
  have "last s = hd (dropWhile is_whitespace (rev ?t))" using s ne by (metis last_rev)
  with hd_dropWhile [OF ne] show "\<not> is_whitespace (last s)" by simp
  have "length s \<le> length ?t"
    using s length_dropWhile_le [of is_whitespace "rev ?t"] by (metis length_rev)
  then have "?t = s"
    by (metis append_Nil append_eq_append_conv dropWhile_eq_drop le_antisym length_append length_dropWhile_le
        takeWhile_dropWhile_id)
  then show "\<not> is_whitespace (hd s)" using assms(2) hd_dropWhile [of is_whitespace s] by simp
qed

lemma rsplit_once_last: "d \<notin> set b \<Longrightarrow> rsplit_once d (a @ d # b) = Some (a, b)"
proof -
  assume d: "d \<notin> set b"
  then have "takeWhile (\<lambda>c. c \<noteq> d) (rev b @ d # rev a) = rev b @ takeWhile (\<lambda>c. c \<noteq> d) (d # rev a)"
    by (intro takeWhile_append2) auto
  moreover have "dropWhile (\<lambda>c. c \<noteq> d) (rev b @ d # rev a) = dropWhile (\<lambda>c. c \<noteq> d) (d # rev a)"
    using d by (intro dropWhile_append2) auto
  ultimately show ?thesis by (simp add: rsplit_once_def)
qed

text \<open>A plain keyword: trimmed, without a full stop and not an \<open>all\<close> selection.\<close>

definition plain_token :: "ustring \<Rightarrow> bool" where
  "plain_token k \<longleftrightarrow> k \<noteq> [] \<and> trim k = k \<and> 46 \<notin> set k \<and> strip_all_prefix k = None"

lemma strip_all_prefix_None:
  "strip_all_prefix s = None \<longleftrightarrow> (\<forall>r. s = lit ''all'' @ r \<longrightarrow> r \<noteq> [] \<and> hd r \<noteq> 32)"
proof (cases "strip_prefix (lit ''all'') s")
  case None
  then have "\<nexists>r. s = lit ''all'' @ r" by (metis option.distinct(1) strip_prefix_Some)
  with None show ?thesis by (simp add: strip_all_prefix_def)
next
  case (Some r)
  then have sr: "s = lit ''all'' @ r" by simp
  then have uniq: "s = lit ''all'' @ r' \<longleftrightarrow> r' = r" for r' by auto
  have "starts_with (lit '' '') r \<longleftrightarrow> r \<noteq> [] \<and> hd r = 32"
    by (cases r) (auto simp: lit_def)
  then show ?thesis
    unfolding uniq using Some by (simp add: strip_all_prefix_def del: strip_prefix_Some) blast
qed

lemma plain_token_dot:
  assumes "plain_token k"
  shows "strip_all_prefix (k @ 46 # t) = None"
proof -
  have "r \<noteq> [] \<and> hd r \<noteq> 32" if "k @ 46 # t = lit ''all'' @ r" for r
  proof -
    have no_dot: "46 \<notin> set (lit ''all'')" by (simp add: lit_def)
    from iffD1 [OF append_eq_append_conv2 that]
    obtain u where "k = lit ''all'' @ u \<and> u @ 46 # t = r \<or> k @ u = lit ''all'' \<and> 46 # t = u @ r" ..
    then show ?thesis
    proof
      assume u: "k = lit ''all'' @ u \<and> u @ 46 # t = r"
      with assms have "u \<noteq> [] \<and> hd u \<noteq> 32" by (simp add: plain_token_def strip_all_prefix_None)
      with u show ?thesis by (auto simp: hd_append)
    next
      assume u: "k @ u = lit ''all'' \<and> 46 # t = u @ r"
      have "u = []"
      proof (cases u)
        case (Cons x xs)
        with u have "46 \<in> set u" by simp
        moreover have "set u \<subseteq> set (lit ''all'')" using u by (metis set_append Un_upper2)
        ultimately show ?thesis using no_dot by blast
      qed simp
      with u show ?thesis by auto
    qed
  qed
  then show ?thesis by (simp add: strip_all_prefix_None)
qed

lemma resolve_plain:
  assumes "plain_token k"
  shows "resolve_among lower w cs k =
    (case filter (answers_to lower w k) cs of
       [] \<Rightarrow> NoSuchObject | [e] \<Rightarrow> One e | _ \<Rightarrow> AmbiguousObjects (filter (answers_to lower w k) cs))"
proof -
  note k = assms [unfolded plain_token_def]
  have "split_ordinal k = (k, None)" using k by (simp add: split_ordinal_def rsplit_once_def)
  then show ?thesis using k by (simp add: resolve_among_def matching_filter Let_def)
qed

text \<open>
  A player's object argument means what it says: among the candidates in order, a keyword
  names the one candidate it prefix-matches, several are reported as ambiguous; with a suffix
  \<open>.N\<close> it names the N-th match and nothing when there are fewer; after \<open>all\<close> it names every match.
  Nothing but a matching candidate is ever selected.
\<close>

theorem object_resolution:
  fixes lower :: "ustring \<Rightarrow> ustring" and w :: world and cs :: "entity_id list"
  assumes "plain_token k" and "n \<le> usize_max"
  defines "ms \<equiv> filter (answers_to lower w k) cs"
  shows "resolve_among lower w cs k =
      (case ms of [] \<Rightarrow> NoSuchObject | [e] \<Rightarrow> One e | _ \<Rightarrow> AmbiguousObjects ms) \<and>
    resolve_among lower w cs (k @ lit ''.'' @ show_nat n) =
      (if 1 \<le> n \<and> n \<le> length ms then One (ms ! (n - 1)) else NoSuchObject) \<and>
    resolve_among lower w cs (lit ''all '' @ k) = (if ms = [] then NoSuchObject else All ms)"
proof (intro conjI)
  note k = assms(1) [unfolded plain_token_def]
  have ends: "\<not> is_whitespace (hd k)" "\<not> is_whitespace (last k)" using trim_ends k by auto
  show "resolve_among lower w cs k =
      (case ms of [] \<Rightarrow> NoSuchObject | [e] \<Rightarrow> One e | _ \<Rightarrow> AmbiguousObjects ms)"
    unfolding ms_def by (rule resolve_plain [OF assms(1)])
  have digits: "\<forall>c \<in> set (show_nat n). 48 \<le> c \<and> c \<le> 57"
    using show_nat_digits [of n] by (simp add: list_all_iff is_ascii_digit_def)
  have last: "last (show_nat n) \<in> set (show_nat n)" by (rule last_in_set [OF show_nat_nonempty])
  have "trim (k @ 46 # show_nat n) = k @ 46 # show_nat n"
  proof (rule trim_id)
    show "\<not> is_whitespace (hd (k @ 46 # show_nat n))" using k ends by simp
    have "\<not> is_whitespace c" if "48 \<le> c" "c \<le> 57" for c :: rchar
      using that by (auto simp: is_whitespace_def)
    then have "\<not> is_whitespace (last (show_nat n))" using last digits by blast
    then show "\<not> is_whitespace (last (k @ 46 # show_nat n))" using show_nat_nonempty [of n] by simp
  qed simp
  moreover have "split_ordinal (k @ 46 # show_nat n) = (k, Some n)"
  proof -
    have "46 \<notin> set (show_nat n)" using digits by auto
    then show ?thesis
      by (simp add: split_ordinal_def rsplit_once_last parse_usize_show_nat [OF assms(2)])
  qed
  ultimately have "resolve_among lower w cs (k @ 46 # show_nat n) =
      (if 1 \<le> n \<and> n \<le> length ms then One (ms ! (n - 1)) else NoSuchObject)"
    using plain_token_dot [OF assms(1)]
    by (auto simp: resolve_among_def matching_filter ms_def checked_sub_usize_def vec_get_def Let_def)
  then show "resolve_among lower w cs (k @ lit ''.'' @ show_nat n) =
      (if 1 \<le> n \<and> n \<le> length ms then One (ms ! (n - 1)) else NoSuchObject)"
    by (simp add: lit_def)
  have "trim (lit ''all '' @ k) = lit ''all '' @ k"
    using k ends by (intro trim_id) (auto simp: is_whitespace_def lit_def)
  moreover have "strip_all_prefix (lit ''all '' @ k) = Some k"
  proof -
    have "is_whitespace 32" by (simp add: is_whitespace_def)
    moreover have "dropWhile is_whitespace k = k" using k ends(1) by (cases k) auto
    ultimately have "trim_start (32 # k) = k" by (simp add: trim_start_def)
    then show ?thesis by (simp add: strip_all_prefix_def lit_def)
  qed
  ultimately show "resolve_among lower w cs (lit ''all '' @ k) = (if ms = [] then NoSuchObject else All ms)"
    using k by (simp add: resolve_among_def matching_filter ms_def Let_def)
qed

lemma plain_sword: "plain_token (lit ''sword'')"
proof -
  have "trim (lit ''sword'') = lit ''sword''"
    by (rule trim_id) (simp_all add: lit_def is_whitespace_def)
  moreover have "strip_all_prefix (lit ''sword'') = None"
    by (simp add: strip_all_prefix_None) (simp add: lit_def)
  ultimately show ?thesis by (simp add: plain_token_def lit_def)
qed

text \<open>Two entities that both answer to \<open>sword\<close>.\<close>

abbreviation armory :: world where
  "armory \<equiv> sample_world\<lparr>w_naming := Naming [[Keyword (lit ''sword'')], [Keyword (lit ''sword'')]]\<rparr>"

lemma armory_answers:
  "answers_to (\<lambda>s. s) armory (lit ''sword'') (sample_handle 0 0)"
  "answers_to (\<lambda>s. s) armory (lit ''sword'') (sample_handle 1 0)"
proof -
  have "trim (lit ''sword'') = lit ''sword''" and "lit ''sword'' \<noteq> []"
    using plain_sword by (simp_all add: plain_token_def)
  moreover have "keywords_of armory (sample_handle 0 0) = [Keyword (lit ''sword'')]"
    "keywords_of armory (sample_handle 1 0) = [Keyword (lit ''sword'')]"
    by (simp_all add: keywords_of_def world_eval keywords_dense dense_def)
  ultimately show "answers_to (\<lambda>s. s) armory (lit ''sword'') (sample_handle 0 0)"
    "answers_to (\<lambda>s. s) armory (lit ''sword'') (sample_handle 1 0)"
    by (simp_all add: answers_to_def)
qed

lemma object_resolution_witness:
  "resolve_among (\<lambda>s. s) armory [sample_handle 0 0, sample_handle 1 0] (lit ''sword'' @ lit ''.'' @ show_nat 2) =
     One (sample_handle 1 0)"
  using object_resolution [OF plain_sword, of 2 "\<lambda>s. s" armory "[sample_handle 0 0, sample_handle 1 0]"]
    armory_answers by (simp add: usize_max_def)

end
