(* ===== verification/Sanitize.thy ===== *)
theory Sanitize
  imports Utf8
begin

text \<open>
  Player-input safety of crates/mud-engine/src/text.rs: the content cap and the removal of
  control characters and terminal escape sequences. Unicode normalization (the nfc iterator of
  the unicode_normalization crate) is the parameter \<open>nfc\<close>.
\<close>

definition MAX_CONTENT_BYTES :: nat where
  "MAX_CONTENT_BYTES = 4096"

datatype content_too_long = ContentTooLong

text \<open>The body of a CSI sequence: parameter bytes, then one final byte if there is one.\<close>

fun consume_csi :: "ustring \<Rightarrow> ustring" where
  "consume_csi [] = []"
| "consume_csi (p # s) =
     (if 0x20 \<le> p \<and> p \<le> 0x3f then consume_csi s
      else if 0x40 \<le> p \<and> p \<le> 0x7e then s
      else p # s)"

text \<open>The body of an OSC sequence, through its terminator; a line feed is left.\<close>

fun consume_osc :: "ustring \<Rightarrow> ustring" where
  "consume_osc [] = []"
| "consume_osc (p # s) =
     (if p = 7 then s
      else if p = 27 then (case s of c # r \<Rightarrow> if c = 92 then r else s | [] \<Rightarrow> [])
      else if p = 10 then p # s
      else consume_osc s)"

lemma length_consume_csi: "length (consume_csi s) \<le> length s"
  by (induction s) auto

lemma length_consume_osc: "length (consume_osc s) \<le> length s"
  by (induction s) (auto split: list.splits)

function strip :: "ustring \<Rightarrow> ustring" where
  "strip [] = []"
| "strip (c # s) =
     (if c = 27 then
        (case s of
           [] \<Rightarrow> strip s
         | p # r \<Rightarrow> if p = 91 then strip (consume_csi r)
                   else if p = 93 then strip (consume_osc r)
                   else strip s)
      else if c = 10 \<or> \<not> is_control c then c # strip s
      else strip s)"
  by pat_completeness auto
termination
  by (relation "measure length")
    (auto simp: less_Suc_eq_le intro: le_SucI [OF length_consume_csi] le_SucI [OF length_consume_osc])

definition sanitize :: "(ustring \<Rightarrow> ustring) \<Rightarrow> ustring \<Rightarrow> content_too_long + ustring" where
  "sanitize nfc raw =
     (let normalized = nfc raw in
      if MAX_CONTENT_BYTES < str_len normalized then Inl ContentTooLong
      else Inr (strip normalized))"

declare strip.simps [simp del]

text \<open>One equation and one induction case per branch of the scanner.\<close>

lemma strip_eqs [simp]:
  "strip [] = []"
  "strip [27] = []"
  "strip (27 # 91 # r) = strip (consume_csi r)"
  "strip (27 # 93 # r) = strip (consume_osc r)"
  "p \<noteq> 91 \<Longrightarrow> p \<noteq> 93 \<Longrightarrow> strip (27 # p # r) = strip (p # r)"
  "c \<noteq> 27 \<Longrightarrow> strip (c # s) = (if c = 10 \<or> \<not> is_control c then c # strip s else strip s)"
  by (simp_all add: strip.simps(1) strip.simps(2) [of 27] strip.simps(2) [of c])

lemma strip_induct [case_names Nil Esc Csi Osc Other Char]:
  assumes "P []" and "P [27]"
    and "\<And>r. P (consume_csi r) \<Longrightarrow> P (27 # 91 # r)"
    and "\<And>r. P (consume_osc r) \<Longrightarrow> P (27 # 93 # r)"
    and "\<And>p r. p \<noteq> 91 \<Longrightarrow> p \<noteq> 93 \<Longrightarrow> P (p # r) \<Longrightarrow> P (27 # p # r)"
    and "\<And>c s. c \<noteq> 27 \<Longrightarrow> P s \<Longrightarrow> P (c # s)"
  shows "P s"
proof (induction s rule: strip.induct)
  case (2 c s)
  show ?case
  proof (cases "c = 27")
    case False
    then show ?thesis using 2 assms(6) by (cases "c = 10 \<or> \<not> is_control c") auto
  next
    case esc: True
    show ?thesis
    proof (cases s)
      case Nil
      then show ?thesis using esc assms(2) by simp
    next
      case (Cons p r)
      then show ?thesis using esc 2 assms(3-5) by (cases "p = 91"; cases "p = 93") auto
    qed
  qed
qed (rule assms(1))

section \<open>What survives\<close>

abbreviation harmless :: "rchar \<Rightarrow> bool" where
  "harmless c \<equiv> c = 10 \<or> \<not> is_control c"

lemma esc_control [simp]: "is_control 27"
  by (simp add: is_control_def)

lemma strip_harmless: "list_all harmless (strip s)"
  by (induction s rule: strip_induct) auto

lemma str_len_append: "str_len (a @ b) = str_len a + str_len b"
  by (induction a) (simp_all add: str_len_def utf8_nats_def)

lemma str_len_Cons: "str_len (c # s) = length (encode_char c) + str_len s"
  by (simp add: str_len_def utf8_nats_def)

lemma consume_csi_suffix: "\<exists>a. s = a @ consume_csi s \<and> 10 \<notin> set a"
proof (induction s)
  case (Cons p s)
  then obtain a where "s = a @ consume_csi s" "10 \<notin> set a" by blast
  then show ?case
    by (auto intro: exI [of _ "p # a"] exI [of _ "[p]"] exI [of _ "[]"])
qed simp

lemma consume_osc_suffix: "\<exists>a. s = a @ consume_osc s \<and> 10 \<notin> set a"
proof (induction s)
  case (Cons p s)
  then obtain a where a: "s = a @ consume_osc s" "10 \<notin> set a" by blast
  consider "p = 7" | "p = 27" | "p = 10" | "p \<noteq> 7" "p \<noteq> 27" "p \<noteq> 10" by blast
  then show ?case
  proof cases
    case 2
    then show ?thesis
      by (cases s) (auto intro: exI [of _ "[27, 92]"] exI [of _ "[27]"])
  next
    case 4
    with a show ?thesis by (intro exI [of _ "p # a"]) auto
  qed (auto intro: exI [of _ "[7]"] exI [of _ "[]"])
qed simp

lemma consume_shorter: "str_len (consume_csi r) \<le> str_len r" "str_len (consume_osc r) \<le> str_len r"
  using consume_csi_suffix [of r] consume_osc_suffix [of r] str_len_append by (metis le_add2)+

lemma strip_shorter: "str_len (strip s) \<le> str_len s"
proof (induction s rule: strip_induct)
  case (Csi r)
  with consume_shorter(1) [of r] show ?case by (simp add: str_len_Cons)
next
  case (Osc r)
  with consume_shorter(2) [of r] show ?case by (simp add: str_len_Cons)
qed (auto simp: str_len_Cons)

abbreviation newlines :: "ustring \<Rightarrow> nat" where
  "newlines s \<equiv> count_list s 10"

lemma newlines_consume: "newlines (consume_csi s) = newlines s" "newlines (consume_osc s) = newlines s"
proof -
  have skip: "10 \<notin> set a \<Longrightarrow> newlines (a @ b) = newlines b" for a b :: ustring
    by (induction a) auto
  show "newlines (consume_csi s) = newlines s" using consume_csi_suffix [of s] skip by metis
  show "newlines (consume_osc s) = newlines s" using consume_osc_suffix [of s] skip by metis
qed

lemma strip_newlines: "newlines (strip s) = newlines s"
proof (induction s rule: strip_induct)
  case (Other p r)
  then show ?case by (cases "p = 10") auto
qed (auto simp: newlines_consume)

lemma strip_clean: "list_all harmless s \<Longrightarrow> strip s = s"
proof (induction s)
  case (Cons c s)
  then have "c \<noteq> 27" by auto
  with Cons show ?case by simp
qed simp

text \<open>
  C32. No player text carries terminal control into another player's stream. Whatever
  normalization does, an accepted message is at most 4096 bytes, contains no control character
  but line feeds, keeps every line feed of the normalized text, and is left alone by a second
  pass; normalized text without control characters is accepted verbatim exactly when it fits.
\<close>

theorem sanitize_safe:
  "(case sanitize nfc raw of
      Inr t \<Rightarrow> str_len t \<le> MAX_CONTENT_BYTES \<and> list_all harmless t \<and>
               newlines t = newlines (nfc raw) \<and> strip t = t
    | Inl _ \<Rightarrow> MAX_CONTENT_BYTES < str_len (nfc raw)) \<and>
   (list_all harmless (nfc raw) \<and> str_len (nfc raw) \<le> MAX_CONTENT_BYTES \<longrightarrow>
      sanitize nfc raw = Inr (nfc raw))"
  using strip_harmless [of "nfc raw"] strip_shorter [of "nfc raw"] strip_newlines [of "nfc raw"]
    strip_clean [of "strip (nfc raw)"] strip_clean [of "nfc raw"]
  by (cases "MAX_CONTENT_BYTES < str_len (nfc raw)") (simp_all add: sanitize_def Let_def)

theorem sanitize_safe_witness:
  "sanitize (\<lambda>s. s) (lit ''hi'' @ [10]) = Inr (lit ''hi'' @ [10])"
proof -
  have "list_all harmless (lit ''hi'' @ [10])" by (simp add: lit_def is_control_def)
  moreover have "str_len (lit ''hi'' @ [10]) \<le> MAX_CONTENT_BYTES"
    by (simp add: lit_def str_len_def utf8_nats_def encode_char_def MAX_CONTENT_BYTES_def)
  ultimately show ?thesis using sanitize_safe [of "\<lambda>s. s" "lit ''hi'' @ [10]"] by blast
qed

end
