(* ===== verification/Builtins.thy ===== *)
theory Builtins
  imports Engine Objects Sanitize
begin

text \<open>
  The built-in commands of crates/mud-engine/src/builtins: looking at a room (look.rs), the six
  movement commands (movement.rs), say (say.rs), the item commands (items.rs), who and quit
  (session.rs), and their registration (mod.rs). A handler reads the world and answers with a
  reply; the effects of the reply are applied later. The Unicode operations the handlers call
  are the fields of \<open>unicode\<close>.
\<close>

record unicode =
  uni_lower :: "ustring \<Rightarrow> ustring"
  uni_nfc :: "ustring \<Rightarrow> ustring"
  uni_debug_char :: "rchar \<Rightarrow> ustring"

definition display_name :: "world \<Rightarrow> entity_id \<Rightarrow> ustring option" where
  "display_name w e = (case keywords_of w e of [] \<Rightarrow> None | k # _ \<Rightarrow> Some (keyword_str k))"

definition system_text :: "ustring \<Rightarrow> styled_text" where
  "system_text t = styled_role styled_new t role_SYSTEM"

definition comma :: ustring where "comma = lit '', ''"

definition name_or_default :: "world \<Rightarrow> entity_id \<Rightarrow> ustring" where
  "name_or_default w e = (case display_name w e of Some n \<Rightarrow> n | None \<Rightarrow> [])"

section \<open>Looking\<close>

definition append_text :: "styled_text \<Rightarrow> styled_text \<Rightarrow> styled_text" where
  "append_text out t = foldl push_span out (spans t)"

definition exit_names :: "place \<Rightarrow> ustring list" where
  "exit_names p = map dir_name (filter (\<lambda>d. neighbor p d \<noteq> None) Direction_ALL)"

fun name_occupants :: "world \<Rightarrow> roster \<Rightarrow> entity_id list \<Rightarrow> ustring list \<times> ustring list" where
  "name_occupants w r [] = ([], [])"
| "name_occupants w r (e # es) =
     (let (players, things) = name_occupants w r es in
      (case name_of r e of
         Some n \<Rightarrow> (puppet_name_str n # players, things)
       | None \<Rightarrow> (case display_name w e of
             Some n \<Rightarrow> (players, n # things)
           | None \<Rightarrow> (players, things))))"

definition occupant_names :: "world \<Rightarrow> roster \<Rightarrow> place_id \<Rightarrow> entity_id \<Rightarrow> ustring list \<times> ustring list" where
  "occupant_names w r p viewer =
     (let (players, things) = name_occupants w r (filter (\<lambda>e. e \<noteq> viewer) (occupants_of w p))
      in (sort players, things))"

definition and_join :: "ustring list \<Rightarrow> ustring" where
  "and_join names = (case names of
      [] \<Rightarrow> [] | [only] \<Rightarrow> only | _ \<Rightarrow> join comma (butlast names) @ lit '' and '' @ last names)"

definition players_line :: "ustring list \<Rightarrow> locale_tag \<Rightarrow> ustring option" where
  "players_line players loc = (case players of
      [] \<Rightarrow> None
    | [n] \<Rightarrow> Some (t_macro loc ''look.player-here'' [(''name'', n)])
    | _ \<Rightarrow> Some (t_macro loc ''look.players-here'' [(''names'', and_join players)]))"

definition system_line :: "styled_text \<Rightarrow> ustring \<Rightarrow> styled_text" where
  "system_line out line = push_span out (span_role ([10] @ line) role_SYSTEM)"

definition render_room :: "place \<Rightarrow> world \<Rightarrow> roster \<Rightarrow> entity_id \<Rightarrow> locale_tag \<Rightarrow> styled_text" where
  "render_room p w r viewer loc =
     (let out0 = (case place_title p of
            Some t \<Rightarrow> push_span (append_text styled_new (title_styled t)) (span_plain [10])
          | None \<Rightarrow> styled_new);
          out1 = append_text out0 (description_styled (place_describe p viewer));
          exits = exit_names p;
          out2 = (if exits = [] then out1
                  else system_line out1 (t_macro loc ''look.exits'' [(''exits'', join comma exits)]));
          (players, things) = occupant_names w r (place_id_of p) viewer;
          out3 = (case players_line players loc of Some line \<Rightarrow> system_line out2 line | None \<Rightarrow> out2)
      in if things = [] then out3
         else system_line out3 (t_macro loc ''look.also-here'' [(''names'', join comma things)]))"

definition look_run :: command_handler where
  "look_run ctx =
     (case cc_places ctx (cc_location ctx) of
        Some p \<Rightarrow> to_caller (render_room p (cc_world ctx) (cc_roster ctx) (cc_entity ctx) (cc_locale ctx))
      | None \<Rightarrow> to_caller (system_text (t_macro (cc_locale ctx) ''look.void'' [])))"

section \<open>Movement\<close>

definition move_run :: "direction \<Rightarrow> command_handler" where
  "move_run d ctx =
     (let loc = cc_locale ctx;
          refusal = to_caller (system_text (t_macro loc ''move.no-exit'' []))
      in (case Option.bind (cc_places ctx (cc_location ctx)) (\<lambda>p. neighbor p d) of
            None \<Rightarrow> refusal
          | Some dest \<Rightarrow>
              (case cc_places ctx dest of
                 None \<Rightarrow> refusal
               | Some p \<Rightarrow>
                   (let arrival = render_room p (cc_world ctx) (cc_roster ctx) (cc_entity ctx) loc;
                        name = puppet_name_str (caller_name (cc_caller ctx));
                        depart = styled_role styled_new
                          (t_macro loc ''move.depart'' [(''name'', name), (''direction'', dir_name d)]) role_SYSTEM;
                        arrive = styled_role styled_new
                          (t_macro loc ''move.arrive-from'' [(''name'', name), (''direction'', dir_name (opposite d))])
                          role_SYSTEM
                    in with_effect
                         (with_broadcast
                            (with_broadcast (to_caller arrival)
                               (to_place (cc_location ctx) (cc_entity ctx) depart))
                            (to_place dest (cc_entity ctx) arrive))
                         (MoveTo (cc_entity ctx) dest)))))"

section \<open>Speech\<close>

definition say_run :: "unicode \<Rightarrow> command_handler" where
  "say_run uni ctx =
     (let loc = cc_locale ctx in
      (case sanitize (uni_nfc uni) (cc_args ctx) of
         Inl _ \<Rightarrow> to_caller (system_text (t_macro loc ''content.too-long'' []))
       | Inr message \<Rightarrow>
           if trim message = [] then to_caller (system_text (t_macro loc ''say.nothing'' []))
           else (let name = puppet_name_str (caller_name (cc_caller ctx));
                     heard = styled_role styled_new
                       (t_macro loc ''say.broadcast'' [(''name'', name), (''message'', message)]) role_SAY
                 in with_broadcast
                      (to_caller (styled_role styled_new
                         (t_macro loc ''say.speech'' [(''message'', message)]) role_SAY))
                      (to_place (cc_location ctx) (cc_entity ctx) heard))))"

section \<open>Items\<close>

definition inventory_run :: command_handler where
  "inventory_run ctx =
     (let loc = cc_locale ctx;
          items = List.map_filter (display_name (cc_world ctx)) (inventory_of (cc_world ctx) (cc_entity ctx))
      in if items = [] then to_caller (system_text (t_macro loc ''inventory.empty'' []))
         else to_caller (foldl (\<lambda>out i. styled_plain out ([10] @ lit ''  '' @ i))
                (styled_role styled_new (t_macro loc ''inventory.header'' []) role_SYSTEM) items))"

definition numbered :: "world \<Rightarrow> entity_id list \<Rightarrow> ustring" where
  "numbered w candidates =
     join comma (map (\<lambda>(index, e). show_nat (index + 1) @ lit '': '' @ name_or_default w e)
                   (enumerate 0 candidates))"

definition take_all :: "world \<Rightarrow> entity_id \<Rightarrow> entity_id list \<Rightarrow> locale_tag \<Rightarrow> command_reply" where
  "take_all w caller items loc =
     (let lines = map (\<lambda>i. t_macro loc ''get.taken'' [(''item'', name_or_default w i)]) items
      in foldl (\<lambda>r i. with_effect (with_effect r (ClearLocation i)) (InventoryAdd caller i))
           (to_caller (system_text (join [10] lines))) items)"

definition drop_line :: "world \<Rightarrow> entity_id \<Rightarrow> locale_tag \<Rightarrow> ustring" where
  "drop_line w i loc = t_macro loc ''drop.dropped'' [(''item'', name_or_default w i)]"

definition drop_all ::
  "world \<Rightarrow> entity_id \<Rightarrow> place_id \<Rightarrow> entity_id list \<Rightarrow> locale_tag \<Rightarrow> command_reply" where
  "drop_all w caller p items loc =
     (let lines = map (\<lambda>i. drop_line w i loc) items
      in foldl (\<lambda>r i. with_effect (with_effect r (InventoryRemove caller i)) (MoveTo i p))
           (to_caller (system_text (join [10] lines))) items)"

definition get_run :: "unicode \<Rightarrow> command_handler" where
  "get_run uni ctx =
     (let loc = cc_locale ctx; w = cc_world ctx; caller = cc_entity ctx;
          floor = filter (\<lambda>e. e \<noteq> caller) (occupants_of w (cc_location ctx))
      in (case resolve_among (uni_lower uni) w floor (cc_args ctx) of
            NoSuchObject \<Rightarrow> to_caller (system_text (t_macro loc ''object.not-here'' []))
          | AmbiguousObjects options \<Rightarrow>
              to_caller (system_text (t_macro loc ''object.ambiguous'' [(''options'', numbered w options)]))
          | One item \<Rightarrow> take_all w caller [item] loc
          | All items \<Rightarrow> take_all w caller items loc))"

definition drop_run :: "unicode \<Rightarrow> command_handler" where
  "drop_run uni ctx =
     (let loc = cc_locale ctx; w = cc_world ctx; caller = cc_entity ctx;
          carried = inventory_of w caller
      in (case resolve_among (uni_lower uni) w carried (cc_args ctx) of
            NoSuchObject \<Rightarrow> to_caller (system_text (t_macro loc ''object.not-carried'' []))
          | AmbiguousObjects options \<Rightarrow>
              to_caller (system_text (t_macro loc ''object.ambiguous'' [(''options'', numbered w options)]))
          | One item \<Rightarrow> drop_all w caller (cc_location ctx) [item] loc
          | All items \<Rightarrow> drop_all w caller (cc_location ctx) items loc))"

section \<open>Sessions\<close>

definition who_run :: command_handler where
  "who_run ctx =
     (let names = sort (map (\<lambda>p. puppet_name_str (presence_name p)) (connected (cc_roster ctx)))
      in to_caller (system_text (t_macro (cc_locale ctx) ''who.online'' [(''names'', join comma names)])))"

definition quit_run :: command_handler where
  "quit_run ctx = reply_closing (to_caller (system_text (t_macro (cc_locale ctx) ''quit.goodbye'' [])))"

section \<open>Registration\<close>

definition builtin_table :: "unicode \<Rightarrow> (string \<times> string list \<times> command_handler) list" where
  "builtin_table uni =
     [(''look'', [''l''], look_run),
      (''inventory'', [''i'', ''inv''], inventory_run),
      (''say'', [], say_run uni),
      (''who'', [], who_run),
      (''get'', [''take''], get_run uni),
      (''drop'', [], drop_run uni),
      (''north'', [''n''], move_run North),
      (''east'', [''e''], move_run East),
      (''south'', [''s''], move_run South),
      (''west'', [''w''], move_run West),
      (''up'', [''u''], move_run Up),
      (''down'', [''d''], move_run Down),
      (''quit'', [], quit_run)]"

definition add_alias :: "command \<Rightarrow> string \<Rightarrow> command" where
  "add_alias cmd alias = (case CommandName_parse (lit alias) of Inr a \<Rightarrow> with_alias cmd a | Inl _ \<Rightarrow> cmd)"

fun register_entry ::
  "dispatcher \<times> command list \<Rightarrow> string \<times> string list \<times> command_handler \<Rightarrow> dispatcher \<times> command list" where
  "register_entry (d, commands) (canonical, aliases, handler) =
     (case CommandName_parse (lit canonical) of
        Inl _ \<Rightarrow> (d, commands)
      | Inr name \<Rightarrow>
          (dispatcher_bind d name (binding_new handler),
           commands @ [foldl add_alias (command_def_new name) aliases]))"

definition register :: "unicode \<Rightarrow> dispatcher \<Rightarrow> dispatcher \<times> command list" where
  "register uni d = foldl register_entry (d, []) (builtin_table uni)"

section \<open>What a built-in may ask for\<close>

text \<open>
  The effects in reach of a caller: walking through an exit of its place to a place that exists,
  taking an entity that is in its place and is not itself, putting down an entity it carries.
\<close>

definition exit_from :: "places \<Rightarrow> place_id \<Rightarrow> place_id \<Rightarrow> bool" where
  "exit_from places p q \<longleftrightarrow> (\<exists>pl d. places p = Some pl \<and> neighbor pl d = Some q) \<and> places q \<noteq> None"

fun within_reach :: "world \<Rightarrow> places \<Rightarrow> caller_context \<Rightarrow> World.effect \<Rightarrow> bool" where
  "within_reach w places c Create = False"
| "within_reach w places c (Teardown e) = False"
| "within_reach w places c (MoveTo e p) =
     (e = caller_entity c \<and> exit_from places (caller_location c) p \<or>
      e \<in> set (inventory_of w (caller_entity c)) \<and> p = caller_location c)"
| "within_reach w places c (ClearLocation e) =
     (e \<in> set (occupants_of w (caller_location c)) \<and> e \<noteq> caller_entity c)"
| "within_reach w places c (InventoryAdd k i) =
     (k = caller_entity c \<and> i \<in> set (occupants_of w (caller_location c)) \<and> i \<noteq> caller_entity c)"
| "within_reach w places c (InventoryRemove k i) =
     (k = caller_entity c \<and> i \<in> set (inventory_of w (caller_entity c)))"

definition modest :: "world \<Rightarrow> places \<Rightarrow> caller_context \<Rightarrow> command_reply \<Rightarrow> bool" where
  "modest w places c r \<longleftrightarrow>
     (\<forall>e \<in> set (reply_effects r). within_reach w places c e) \<and>
     (\<forall>b \<in> set (reply_broadcasts r). bc_except b = caller_entity c \<and>
        (bc_place b = caller_location c \<or> exit_from places (caller_location c) (bc_place b)))"

lemma reply_simps [simp]:
  "reply_effects (to_caller t) = []" "reply_broadcasts (to_caller t) = []"
  "reply_disposition (to_caller t) = Remain" "reply_output (to_caller t) = t"
  "reply_effects (with_effect r e) = reply_effects r @ [e]"
  "reply_broadcasts (with_effect r e) = reply_broadcasts r"
  "reply_disposition (with_effect r e) = reply_disposition r" "reply_output (with_effect r e) = reply_output r"
  "reply_effects (with_broadcast r b) = reply_effects r"
  "reply_broadcasts (with_broadcast r b) = reply_broadcasts r @ [b]"
  "reply_disposition (with_broadcast r b) = reply_disposition r"
  "reply_output (with_broadcast r b) = reply_output r"
  "reply_effects (reply_closing r) = reply_effects r"
  "reply_broadcasts (reply_closing r) = reply_broadcasts r"
  "reply_disposition (reply_closing r) = Close" "reply_output (reply_closing r) = reply_output r"
  by (simp_all add: reply_defs)

lemma fold_effects:
  "reply_effects (foldl (\<lambda>r i. with_effect (with_effect r (f i)) (g i)) r items) =
     reply_effects r @ concat (map (\<lambda>i. [f i, g i]) items)"
  "reply_broadcasts (foldl (\<lambda>r i. with_effect (with_effect r (f i)) (g i)) r items) = reply_broadcasts r"
  "reply_disposition (foldl (\<lambda>r i. with_effect (with_effect r (f i)) (g i)) r items) = reply_disposition r"
  "reply_output (foldl (\<lambda>r i. with_effect (with_effect r (f i)) (g i)) r items) = reply_output r"
  by (induction items arbitrary: r) simp_all

lemma item_replies [simp]:
  "reply_effects (take_all w c items loc) = concat (map (\<lambda>i. [ClearLocation i, InventoryAdd c i]) items)"
  "reply_broadcasts (take_all w c items loc) = []" "reply_disposition (take_all w c items loc) = Remain"
  "reply_effects (drop_all w c p items loc) = concat (map (\<lambda>i. [InventoryRemove c i, MoveTo i p]) items)"
  "reply_broadcasts (drop_all w c p items loc) = []" "reply_disposition (drop_all w c p items loc) = Remain"
  by (simp_all add: take_all_def drop_all_def fold_effects)

lemma selected_candidates: "set (selected (resolve_among lower w cs arg)) \<subseteq> set cs"
proof -
  let ?pick = "\<lambda>ms. case ms of [] \<Rightarrow> NoSuchObject | [only] \<Rightarrow> One only | _ \<Rightarrow> AmbiguousObjects ms"
  have pick: "selected (?pick ms) = ms" for ms :: "entity_id list"
    by (cases ms rule: remdups_adj.cases) auto
  have get: "e \<in> set cs" if "vec_get (filter P cs) n = Some e" for P n e
    using that nth_mem [of n "filter P cs"] by (auto simp: vec_get_Some)
  show ?thesis
    unfolding resolve_among_def Let_def matching_filter
    by (auto simp: pick split: option.split prod.split bind_splits dest: get)
qed

lemma resolve_among_mem:
  "resolve_among lower w cs arg = One e \<Longrightarrow> e \<in> set cs"
  "resolve_among lower w cs arg = All es \<Longrightarrow> set es \<subseteq> set cs"
  using selected_candidates [of lower w cs arg] by simp_all

lemma builtin_modest:
  assumes "(n, al, h) \<in> set (builtin_table uni)"
  shows "modest (cc_world ctx) (cc_places ctx) (cc_caller ctx) (h ctx)"
    and "reply_disposition (h ctx) = Close \<Longrightarrow> n = ''quit''"
proof -
  let ?ok = "\<lambda>r. modest (cc_world ctx) (cc_places ctx) (cc_caller ctx) r"
  have look: "?ok (look_run ctx) \<and> reply_disposition (look_run ctx) = Remain"
    by (simp add: look_run_def modest_def split: option.split)
  have move: "?ok (move_run d ctx) \<and> reply_disposition (move_run d ctx) = Remain" for d
    by (auto simp: move_run_def modest_def to_place_def exit_from_def Let_def split: option.split bind_splits)
  have say: "?ok (say_run uni ctx) \<and> reply_disposition (say_run uni ctx) = Remain"
    by (simp add: say_run_def modest_def to_place_def Let_def split: sum.split)
  have inv: "?ok (inventory_run ctx) \<and> reply_disposition (inventory_run ctx) = Remain"
    by (simp add: inventory_run_def modest_def Let_def)
  have get: "?ok (get_run uni ctx) \<and> reply_disposition (get_run uni ctx) = Remain"
    by (auto simp: get_run_def modest_def Let_def split: resolution.split dest!: resolve_among_mem)
  have put: "?ok (drop_run uni ctx) \<and> reply_disposition (drop_run uni ctx) = Remain"
    by (auto simp: drop_run_def modest_def Let_def split: resolution.split dest!: resolve_among_mem)
  have session: "?ok (who_run ctx)" "?ok (quit_run ctx)" "reply_disposition (who_run ctx) = Remain"
    by (simp_all add: who_run_def quit_run_def modest_def Let_def)
  show "?ok (h ctx)"
    using assms look move say inv get put session by (auto simp: builtin_table_def)
  show "n = ''quit''" if "reply_disposition (h ctx) = Close"
    using assms that look move say inv get put session by (auto simp: builtin_table_def)
qed

section \<open>What registration binds\<close>

lemma names_parse:
  "(n, al, h) \<in> set (builtin_table uni) \<Longrightarrow> CommandName_parse (lit n) = Inr (CommandName (lit n))"
  by (auto simp: builtin_table_def CommandName_parse_def first_invalid_token_char_def find_char_def
      token_char_def is_ascii_lower_def is_ascii_digit_def lit_def)

definition entry_name :: "string \<times> string list \<times> command_handler \<Rightarrow> command_name" where
  "entry_name e = CommandName (lit (fst e))"

definition entry_command :: "string \<times> string list \<times> command_handler \<Rightarrow> command" where
  "entry_command e = foldl add_alias (command_def_new (entry_name e)) (fst (snd e))"

lemma register_fold:
  assumes "\<forall>(n, al, h) \<in> set tab. CommandName_parse (lit n) = Inr (CommandName (lit n))"
  shows "dis_bindings (fst (foldl register_entry (d, cs) tab)) =
      dis_bindings d ++ map_of (rev (map (\<lambda>e. (entry_name e, binding_new (snd (snd e)))) tab)) \<and>
    snd (foldl register_entry (d, cs) tab) = cs @ map entry_command tab"
  using assms
proof (induction tab arbitrary: d cs)
  case (Cons e tab)
  obtain n al h where e: "e = (n, al, h)" by (cases e)
  with Cons.prems have "register_entry (d, cs) e =
      (dispatcher_bind d (CommandName (lit n)) (binding_new h), cs @ [entry_command e])"
    by (simp add: entry_command_def entry_name_def)
  with Cons e show ?case
    by (auto simp: dispatcher_bind_def entry_name_def map_add_def fun_eq_iff split: option.split)
qed simp

lemma register_eq:
  "dis_bindings (fst (register uni dispatcher_new)) =
     map_of (map (\<lambda>e. (entry_name e, binding_new (snd (snd e)))) (builtin_table uni))"
  "snd (register uni dispatcher_new) = map entry_command (builtin_table uni)"
proof -
  have d: "distinct (map fst (map (\<lambda>e. (entry_name e, binding_new (snd (snd e)))) (builtin_table uni)))"
    by (simp add: builtin_table_def entry_name_def)
  have f: "\<forall>(n, al, h) \<in> set (builtin_table uni). CommandName_parse (lit n) = Inr (CommandName (lit n))"
    using names_parse by blast
  show "snd (register uni dispatcher_new) = map entry_command (builtin_table uni)"
    using register_fold [OF f] by (simp add: register_def)
  show "dis_bindings (fst (register uni dispatcher_new)) =
      map_of (map (\<lambda>e. (entry_name e, binding_new (snd (snd e)))) (builtin_table uni))"
    using register_fold [OF f, of dispatcher_new "[]"] map_of_rev_distinct [OF d]
    by (simp add: register_def dispatcher_new_def)
qed

lemma registered_binding:
  assumes "dispatcher_binding (fst (register uni dispatcher_new)) n = Some bd"
  shows "\<exists>m al h. (m, al, h) \<in> set (builtin_table uni) \<and> n = CommandName (lit m) \<and> bd = binding_new h"
  using assms by (auto simp: dispatcher_binding_def register_eq entry_name_def dest!: map_of_SomeD) blast

lemma add_alias_name: "cmd_name (foldl add_alias c al) = cmd_name c"
  by (induction al arbitrary: c) (auto simp: add_alias_def with_alias_def split: sum.split)

lemma entry_command_name [simp]: "cmd_name (entry_command e) = entry_name e"
  by (simp add: entry_command_def add_alias_name command_def_new_def)

text \<open>Every command of the built-in layer has a binding and every binding a command.\<close>

lemma register_complete:
  "dom (dis_bindings (fst (register uni dispatcher_new))) = cmd_name ` set (snd (register uni dispatcher_new))"
  unfolding register_eq by (simp add: dom_map_of_conv_image_fst image_image)

section \<open>The words that invoke a built-in\<close>

abbreviation builtin_layers :: "unicode \<Rightarrow> layer_commands" where
  "builtin_layers uni \<equiv> layers_default\<lparr>lay_builtins := snd (register uni dispatcher_new)\<rparr>"

lemma aliases_parse:
  "(n, al, h) \<in> set (builtin_table uni) \<Longrightarrow> a \<in> set al \<Longrightarrow> CommandName_parse (lit a) = Inr (CommandName (lit a))"
  by (auto simp: builtin_table_def CommandName_parse_def first_invalid_token_char_def find_char_def
      token_char_def is_ascii_lower_def is_ascii_digit_def lit_def)

lemma add_aliases:
  assumes "\<forall>a \<in> set al. CommandName_parse (lit a) = Inr (CommandName (lit a))"
  shows "command_names (foldl add_alias c al) = command_names c @ map (\<lambda>a. CommandName (lit a)) al"
  using assms
proof (induction al arbitrary: c)
  case (Cons a al)
  then have "command_names (add_alias c a) = command_names c @ [CommandName (lit a)]"
    by (simp add: add_alias_def with_alias_def command_names_def)
  with Cons show ?case by simp
qed simp

lemma entry_names:
  assumes "e \<in> set (builtin_table uni)"
  shows "command_names (entry_command e) = map (\<lambda>a. CommandName (lit a)) (fst e # fst (snd e))"
proof -
  obtain n al h where e: "e = (n, al, h)" by (cases e)
  then have "\<forall>a \<in> set al. CommandName_parse (lit a) = Inr (CommandName (lit a))"
    using assms aliases_parse by blast
  then show ?thesis
    by (simp add: e entry_command_def entry_name_def add_aliases)
      (simp add: command_names_def command_def_new_def)
qed

lemma words_distinct: "distinct (concat (map (\<lambda>e. fst e # fst (snd e)) (builtin_table uni)))"
  by (simp add: builtin_table_def)

lemma word_owner:
  assumes "distinct (concat (map f xs))" and "x \<in> set xs" and "y \<in> set xs" and "a \<in> set (f x)" and "a \<in> set (f y)"
  shows "f x = f y"
  using assms by (induction xs) auto

lemma builtin_word:
  assumes "(n, al, h) \<in> set (builtin_table uni)" and "word \<in> set (n # al)"
  shows "\<exists>c. resolve_token (merge_layers (builtin_layers uni)) (lit word) sw args = Matched c sw args \<and>
    cmd_name c = CommandName (lit n)"
proof -
  let ?cs = "map entry_command (builtin_table uni)" and ?f = "\<lambda>e. fst e # fst (snd e)"
  have ord: "layer_order (builtin_layers uni) = ?cs"
    by (simp add: layer_order_def layers_default_def register_eq)
  have "distinct (map cmd_name ?cs)"
    by (simp add: comp_def) (simp add: builtin_table_def entry_name_def)
  then have tab: "set (tab_commands (merge_layers (builtin_layers uni))) = set ?cs"
    using layers_commands_set [of "builtin_layers uni"] ord by simp
  have iff: "has_name (lit word) (entry_command e) \<longleftrightarrow> word \<in> set (?f e)" if "e \<in> set (builtin_table uni)" for e
    unfolding has_name_def entry_names [OF that] by auto
  have "has_name (lit word) (entry_command (n, al, h))" using iff [OF assms(1)] assms(2) by simp
  moreover have "entry_command (n, al, h) \<in> set (tab_commands (merge_layers (builtin_layers uni)))"
    using assms(1) unfolding tab by simp
  ultimately obtain c where c: "c \<in> set ?cs" "has_name (lit word) c"
      "resolve_token (merge_layers (builtin_layers uni)) (lit word) sw args = Matched c sw args"
    using resolve_token_exact [of _ "layer_sets (builtin_layers uni)" "lit word" sw args] tab
    unfolding merge_layers_def by metis
  then obtain e where e: "e \<in> set (builtin_table uni)" "c = entry_command e" by auto
  with c iff assms(2) have "?f e = ?f (n, al, h)"
    using word_owner [OF words_distinct e(1) assms(1), of word] by auto
  with c(3) e show ?thesis by (simp add: entry_name_def)
qed

end
