(* ===== verification/Pipeline.thy ===== *)
theory Pipeline
  imports Builtins
begin

text \<open>
  The command pipeline of crates/mud-engine/src/pipeline.rs: one input line becomes the outputs
  of its run, the effects to submit to the scheduler and whether the session closes. The span and
  the warnings are telemetry and left out.
\<close>

record pipeline =
  pipe_dispatcher :: dispatcher
  pipe_ids :: command_id_gen
  pipe_locale :: locale_tag

record dispatch_outcome =
  outc_outputs :: "session_output list"
  outc_disposition :: session_disposition
  outc_effects :: "World.effect list"

definition remain :: "session_output list \<Rightarrow> dispatch_outcome" where
  "remain outs = \<lparr>outc_outputs = outs, outc_disposition = Remain, outc_effects = []\<rparr>"

definition pipeline_new :: "dispatcher \<Rightarrow> pipeline" where
  "pipeline_new d = \<lparr>pipe_dispatcher = d, pipe_ids = id_gen_new, pipe_locale = EN\<rparr>"

definition with_locale :: "pipeline \<Rightarrow> locale_tag \<Rightarrow> pipeline" where
  "with_locale p loc = p\<lparr>pipe_locale := loc\<rparr>"

definition message_styled :: "session_id \<Rightarrow> styled_text \<Rightarrow> session_output list" where
  "message_styled sid t = [\<lparr>out_session = sid, out_text = OutputText t, out_kind = KindLine\<rparr>]"

definition message_text :: "session_id \<Rightarrow> ustring \<Rightarrow> session_output list" where
  "message_text sid s = message_styled sid (styled_from s)"

text \<open>The text of a malformed switch; \<open>{0:?}\<close> is the debug form of a character.\<close>

fun switch_error_text :: "unicode \<Rightarrow> token_error \<Rightarrow> ustring" where
  "switch_error_text uni TokenEmpty = lit ''switch must not be empty''"
| "switch_error_text uni (TokenInvalid c) =
     lit ''switch contains an invalid character '' @ uni_debug_char uni c @
     lit '' (allowed: a-z, 0-9, '' @ [39, 95, 39] @ lit '', '' @ [39, 45, 39] @ lit '')''"

definition run_handler ::
  "pipeline \<Rightarrow> world \<Rightarrow> places \<Rightarrow> roster \<Rightarrow> command_id \<Rightarrow> caller_context \<Rightarrow> switch list \<Rightarrow> ustring
    \<Rightarrow> command_handler \<Rightarrow> command_reply" where
  "run_handler pipe w places ros cid caller switches args h =
     h \<lparr>cc_command_id = cid, cc_caller = caller, cc_locale = pipe_locale pipe, cc_switches = switches,
        cc_args = args, cc_engine = \<lparr>ev_world = w, ev_places = places, ev_roster = ros\<rparr>\<rparr>"

definition deliver :: "world \<Rightarrow> roster \<Rightarrow> session_id \<Rightarrow> command_reply \<Rightarrow> dispatch_outcome" where
  "deliver w ros sid reply =
     \<lparr>outc_outputs = message_styled sid (reply_output reply) @
        concat (map (\<lambda>b. announce w ros (bc_place b) (bc_except b) (bc_message b)) (reply_broadcasts reply)),
      outc_disposition = reply_disposition reply, outc_effects = reply_effects reply\<rparr>"

definition run_matched ::
  "pipeline \<Rightarrow> world \<Rightarrow> places \<Rightarrow> roster \<Rightarrow> command_id \<Rightarrow> caller_context \<Rightarrow> command \<Rightarrow> switch list
    \<Rightarrow> ustring \<Rightarrow> dispatch_outcome" where
  "run_matched pipe w places ros cid caller cmd switches args =
     (let sid = caller_session caller; loc = pipe_locale pipe in
      case dispatcher_binding (pipe_dispatcher pipe) (cmd_name cmd) of
        None \<Rightarrow> remain (message_text sid (t_macro loc ''command.unbound'' []))
      | Some bd \<Rightarrow>
          if (case bind_lock bd of Some l \<Rightarrow> \<not> evaluate l (caller_access caller) | None \<Rightarrow> False)
          then remain (message_text sid (t_macro loc ''command.denied'' []))
          else deliver w ros sid (run_handler pipe w places ros cid caller switches args (bind_handler bd)))"

definition dispatch ::
  "unicode \<Rightarrow> pipeline \<Rightarrow> world \<Rightarrow> places \<Rightarrow> session_resolver \<Rightarrow> roster \<Rightarrow> session_input
    \<Rightarrow> (pipeline_error + dispatch_outcome) \<times> pipeline" where
  "dispatch uni pipe w places resolver ros input =
     (case next_id (pipe_ids pipe) of
        (Inl err, ids) \<Rightarrow> (Inl err, pipe\<lparr>pipe_ids := ids\<rparr>)
      | (Inr cid, ids) \<Rightarrow>
          (let pipe1 = pipe\<lparr>pipe_ids := ids\<rparr>; sid = in_session input; loc = pipe_locale pipe in
           (case resolver sid w of
              None \<Rightarrow> (Inl (UnknownSession sid), pipe1)
            | Some rs \<Rightarrow>
                (Inr (case parse_line (uni_lower uni) (merge_layers (rs_layers rs)) (line_str (in_line input)) of
                    Empty \<Rightarrow> remain []
                  | NotFound \<Rightarrow> remain (message_text sid (t_macro loc ''command.not-found'' []))
                  | Ambiguous names \<Rightarrow>
                      remain (message_text sid
                        (t_macro loc ''command.ambiguous'' [(''options'', join comma (map name_str names))]))
                  | BadSwitch e \<Rightarrow>
                      remain (message_text sid
                        (t_macro loc ''command.bad-switch'' [(''reason'', switch_error_text uni e)]))
                  | Matched cmd switches args \<Rightarrow>
                      run_matched pipe1 w places ros cid (rs_caller rs) cmd switches args), pipe1))))"

section \<open>Which runs reach a handler\<close>

text \<open>
  A run that changes anything beyond the one line it answers comes from a handler: its session
  resolved, its line named a bound command, and the lock of the binding let the caller in.
\<close>

definition lets_in :: "command_binding \<Rightarrow> lock_context \<Rightarrow> bool" where
  "lets_in bd access \<longleftrightarrow> (case bind_lock bd of Some l \<Rightarrow> evaluate l access | None \<Rightarrow> True)"

definition engine_line :: "session_id \<Rightarrow> dispatch_outcome \<Rightarrow> bool" where
  "engine_line sid out \<longleftrightarrow> out = remain [] \<or> (\<exists>s. out = remain (message_text sid s))"

lemma run_matched_cases:
  obtains (line) "engine_line (caller_session c) (run_matched pipe w places ros cid c cmd sw args)"
  | (run) bd where "dispatcher_binding (pipe_dispatcher pipe) (cmd_name cmd) = Some bd"
      "lets_in bd (caller_access c)"
      "run_matched pipe w places ros cid c cmd sw args =
         deliver w ros (caller_session c) (run_handler pipe w places ros cid c sw args (bind_handler bd))"
proof (cases "dispatcher_binding (pipe_dispatcher pipe) (cmd_name cmd)")
  case None
  then have "engine_line (caller_session c) (run_matched pipe w places ros cid c cmd sw args)"
    unfolding engine_line_def by (auto simp: run_matched_def Let_def)
  then show ?thesis by (rule line)
next
  case (Some bd)
  show ?thesis
  proof (cases "lets_in bd (caller_access c)")
    case True
    with Some show ?thesis
      by (intro run [of bd]) (auto simp: run_matched_def lets_in_def Let_def split: option.splits)
  next
    case False
    with Some have "engine_line (caller_session c) (run_matched pipe w places ros cid c cmd sw args)"
      unfolding engine_line_def by (auto simp: run_matched_def lets_in_def Let_def split: option.splits)
    then show ?thesis by (rule line)
  qed
qed

lemma dispatch_cases:
  assumes "dispatch uni pipe w places resolver ros inp = (Inr out, pipe')"
    and "\<forall>rs. resolver (in_session inp) w = Some rs \<longrightarrow> caller_session (rs_caller rs) = in_session inp"
  obtains (line) rs where "resolver (in_session inp) w = Some rs" "engine_line (in_session inp) out"
  | (run) rs cid cmd sw args bd pipe1 where "resolver (in_session inp) w = Some rs"
      "parse_line (uni_lower uni) (merge_layers (rs_layers rs)) (line_str (in_line inp)) = Matched cmd sw args"
      "dispatcher_binding (pipe_dispatcher pipe) (cmd_name cmd) = Some bd"
      "lets_in bd (caller_access (rs_caller rs))"
      "out = deliver w ros (in_session inp)
         (run_handler pipe1 w places ros cid (rs_caller rs) sw args (bind_handler bd))"
proof -
  obtain cid ids where ids: "next_id (pipe_ids pipe) = (Inr cid, ids)"
    using assms(1) by (auto simp: dispatch_def split: prod.splits sum.splits)
  obtain rs where rs: "resolver (in_session inp) w = Some rs"
    using assms(1) ids by (auto simp: dispatch_def Let_def split: option.splits)
  let ?p = "parse_line (uni_lower uni) (merge_layers (rs_layers rs)) (line_str (in_line inp))"
  let ?pipe = "pipe\<lparr>pipe_ids := ids\<rparr>"
  note sid = assms(2) [rule_format, OF rs]
  show ?thesis
  proof (cases "\<exists>cmd sw args. ?p = Matched cmd sw args")
    case False
    then have "engine_line (in_session inp) out"
      using assms(1) ids rs by (cases ?p) (auto simp: dispatch_def Let_def engine_line_def)
    with rs show ?thesis by (rule line)
  next
    case True
    then obtain cmd sw args where p: "?p = Matched cmd sw args" by blast
    then have out: "out = run_matched ?pipe w places ros cid (rs_caller rs) cmd sw args"
      using assms(1) ids rs by (auto simp: dispatch_def Let_def)
    show ?thesis
    proof (cases rule: run_matched_cases [of "rs_caller rs" ?pipe w places ros cid cmd sw args])
      case line
      with rs out sid that(1) show ?thesis by simp
    next
      case (run bd)
      with rs p out sid that(2) show ?thesis by fastforce
    qed
  qed
qed

section \<open>Locks come before handlers\<close>

text \<open>
  Two dispatchers that bind the same names behind the same locks, with handlers that agree
  wherever the lock lets the caller in.
\<close>

definition same_for :: "lock_context \<Rightarrow> dispatcher \<Rightarrow> dispatcher \<Rightarrow> bool" where
  "same_for access d d' \<longleftrightarrow>
     (\<forall>n. rel_option (\<lambda>b b'. bind_lock b = bind_lock b' \<and> (lets_in b access \<longrightarrow> bind_handler b = bind_handler b'))
        (dispatcher_binding d n) (dispatcher_binding d' n))"

lemma run_matched_same:
  assumes "same_for (caller_access c) (pipe_dispatcher p) (pipe_dispatcher p')" and "pipe_locale p = pipe_locale p'"
  shows "run_matched p w places ros cid c cmd sw args = run_matched p' w places ros cid c cmd sw args"
proof -
  have rel: "rel_option (\<lambda>b b'. bind_lock b = bind_lock b' \<and> (lets_in b (caller_access c) \<longrightarrow> bind_handler b = bind_handler b'))
      (dispatcher_binding (pipe_dispatcher p) (cmd_name cmd)) (dispatcher_binding (pipe_dispatcher p') (cmd_name cmd))"
    using assms(1) by (simp add: same_for_def)
  from rel show ?thesis
    by cases (use assms(2) in \<open>auto simp: run_matched_def run_handler_def lets_in_def Let_def split: option.splits\<close>)
qed

text \<open>
  C25. A denied command never runs: what a line does for a caller depends on a handler only if its
  lock lets the caller in. Two pipelines whose bindings carry the same locks, and the same
  handlers except behind locks that refuse this caller, give the same answer, effects and
  errors for every line.
\<close>

theorem denied_handler_invisible:
  assumes "\<forall>rs. resolver (in_session inp) w = Some rs \<longrightarrow>
      same_for (caller_access (rs_caller rs)) (pipe_dispatcher p) (pipe_dispatcher p')"
    and "pipe_ids p = pipe_ids p'" and "pipe_locale p = pipe_locale p'"
  shows "fst (dispatch uni p w places resolver ros inp) = fst (dispatch uni p' w places resolver ros inp)"
proof -
  have "run_matched (p\<lparr>pipe_ids := ids\<rparr>) w places ros cid (rs_caller rs) cmd sw args =
      run_matched (p'\<lparr>pipe_ids := ids\<rparr>) w places ros cid (rs_caller rs) cmd sw args"
    if "resolver (in_session inp) w = Some rs" for ids cid rs cmd sw args
    using assms that by (intro run_matched_same) auto
  then show ?thesis
    using assms(2,3)
    by (simp add: dispatch_def Let_def split: prod.split sum.split option.split parse_outcome.split)
qed

section \<open>Properties of a pipeline with the built-in commands\<close>

definition with_builtins :: "unicode \<Rightarrow> pipeline \<Rightarrow> bool" where
  "with_builtins uni pipe \<longleftrightarrow> pipe_dispatcher pipe = fst (register uni dispatcher_new)"

abbreviation in_world_caller :: "session_id \<Rightarrow> in_world_binding \<Rightarrow> place_id \<Rightarrow> caller_context" where
  "in_world_caller sid bd p \<equiv> caller_context_new sid (bind_puppet bd) p (bind_name bd) lock_context_new"

lemma registry_resolve_Some:
  assumes "registry_resolve svc cmds sid w = Some rs"
  shows "\<exists>bd p. ss_sessions svc sid = Some (InWorld bd) \<and> location_of w (bind_puppet bd) = Some p \<and>
    rs_caller rs = in_world_caller sid bd p \<and> rs_layers rs = layers_default\<lparr>lay_builtins := cmds\<rparr>"
  using assms by (auto simp: registry_resolve_def split: option.splits session_state.splits)

lemma caller_context_sel [simp]:
  "caller_session (caller_context_new sid e p n acc) = sid"
  "caller_entity (caller_context_new sid e p n acc) = e"
  "caller_location (caller_context_new sid e p n acc) = p"
  "caller_name (caller_context_new sid e p n acc) = n"
  "caller_access (caller_context_new sid e p n acc) = acc"
  by (simp_all add: caller_context_new_def)

lemma builtin_run:
  assumes "with_builtins uni pipe"
    and "dispatch uni pipe w places (registry_resolve svc cmds) ros inp = (Inr out, pipe')"
  shows "\<exists>bd p. ss_sessions svc (in_session inp) = Some (InWorld bd) \<and>
    location_of w (bind_puppet bd) = Some p \<and>
    (engine_line (in_session inp) out \<or>
     (\<exists>reply. out = deliver w ros (in_session inp) reply \<and>
        modest w places (in_world_caller (in_session inp) bd p) reply))"
proof -
  have own: "\<forall>rs. registry_resolve svc cmds (in_session inp) w = Some rs \<longrightarrow>
      caller_session (rs_caller rs) = in_session inp"
    using registry_resolve_Some by fastforce
  show ?thesis
  proof (cases rule: dispatch_cases [OF assms(2) own])
    case (1 rs)
    with registry_resolve_Some [OF 1(1)] show ?thesis by blast
  next
    case (2 rs cid cmd sw args bnd pipe1)
    obtain bd p where s: "ss_sessions svc (in_session inp) = Some (InWorld bd)"
        "location_of w (bind_puppet bd) = Some p" "rs_caller rs = in_world_caller (in_session inp) bd p"
      using registry_resolve_Some [OF 2(1)] by blast
    have "dispatcher_binding (fst (register uni dispatcher_new)) (cmd_name cmd) = Some bnd"
      using 2(3) assms(1) by (simp add: with_builtins_def)
    then obtain n al h where h: "(n, al, h) \<in> set (builtin_table uni)" "bnd = binding_new h"
      using registered_binding by blast
    let ?ctx = "\<lparr>cc_command_id = cid, cc_caller = rs_caller rs, cc_locale = pipe_locale pipe1, cc_switches = sw,
      cc_args = args, cc_engine = \<lparr>ev_world = w, ev_places = places, ev_roster = ros\<rparr>\<rparr>"
    have "modest (cc_world ?ctx) (cc_places ?ctx) (cc_caller ?ctx) (h ?ctx)"
      by (rule builtin_modest(1) [OF h(1)])
    then have "modest w places (in_world_caller (in_session inp) bd p)
        (run_handler pipe1 w places ros cid (rs_caller rs) sw args (bind_handler bnd))"
      using h(2) s(3) by (simp add: run_handler_def binding_new_def)
    with 2(5) s show ?thesis by blast
  qed
qed

text \<open>
  C3. Commands act only within reach: whatever line a session types, each effect of its run moves
  its own puppet through an exit of its place to a place that exists, takes an entity that is in
  that place and is not the puppet itself, or puts down in that place an entity the puppet
  carries. No command creates or tears down an entity, or moves anybody else.
\<close>

theorem commands_act_within_reach:
  assumes "with_builtins uni pipe"
    and "dispatch uni pipe w places (registry_resolve svc cmds) ros inp = (Inr out, pipe')"
    and "eff \<in> set (outc_effects out)"
  shows "\<exists>bd p. ss_sessions svc (in_session inp) = Some (InWorld bd) \<and>
    location_of w (bind_puppet bd) = Some p \<and>
    within_reach w places (in_world_caller (in_session inp) bd p) eff"
proof -
  obtain bd p where b: "ss_sessions svc (in_session inp) = Some (InWorld bd)"
      "location_of w (bind_puppet bd) = Some p"
    and run: "engine_line (in_session inp) out \<or>
      (\<exists>reply. out = deliver w ros (in_session inp) reply \<and>
        modest w places (in_world_caller (in_session inp) bd p) reply)"
    using builtin_run [OF assms(1,2)] by blast
  from run assms(3) have "within_reach w places (in_world_caller (in_session inp) bd p) eff"
    by (auto simp: engine_line_def remain_def deliver_def modest_def)
  with b show ?thesis by blast
qed

lemma broadcast_nearby:
  assumes "enumerates order svc" and "ss_sessions svc sid = Some (InWorld bd)"
    and "modest w places (in_world_caller sid bd p) reply" and "bc \<in> set (reply_broadcasts reply)"
    and heard: "o' \<in> set (announce w (registry_roster order svc) (bc_place bc) (bc_except bc) (bc_message bc))"
  shows "out_session o' \<noteq> sid \<and> (\<exists>e q. in_world svc (out_session o') e \<and> e \<noteq> bind_puppet bd \<and>
    e \<in> set (occupants_of w q) \<and> (q = p \<or> exit_from places p q))"
proof -
  have bc: "bc_except bc = bind_puppet bd" "bc_place bc = p \<or> exit_from places p (bc_place bc)"
    using assms(3,4) by (auto simp: modest_def)
  obtain e where e: "e \<in> set (occupants_of w (bc_place bc))" "e \<noteq> bc_except bc" "in_world svc (out_session o') e"
    using registry.audience [of "(order, svc)", simplified, OF assms(1) heard] by blast
  have "out_session o' \<noteq> sid"
  proof
    assume "out_session o' = sid"
    with e(3) assms(2) have "e = bind_puppet bd" by (simp add: in_world_def)
    with e(2) bc(1) show False by simp
  qed
  with bc e show ?thesis by metis
qed

lemma delivery_nearby:
  assumes "enumerates order svc" and "ss_sessions svc sid = Some (InWorld bd)"
    and "modest w places (in_world_caller sid bd p) reply"
  shows "\<exists>first others. outc_outputs (deliver w (registry_roster order svc) sid reply) = first # others \<and> out_session first = sid \<and>
    (\<forall>o' \<in> set others. out_session o' \<noteq> sid \<and>
       (\<exists>e q. in_world svc (out_session o') e \<and> e \<noteq> bind_puppet bd \<and> e \<in> set (occupants_of w q) \<and>
          (q = p \<or> exit_from places p q)))"
proof -
  let ?others = "concat (map (\<lambda>bc. announce w (registry_roster order svc) (bc_place bc) (bc_except bc)
      (bc_message bc)) (reply_broadcasts reply))"
  have outs: "outc_outputs (deliver w (registry_roster order svc) sid reply) =
      \<lparr>out_session = sid, out_text = OutputText (reply_output reply), out_kind = KindLine\<rparr> # ?others"
    by (simp add: deliver_def message_styled_def)
  have others: "out_session o' \<noteq> sid \<and> (\<exists>e q. in_world svc (out_session o') e \<and> e \<noteq> bind_puppet bd \<and>
      e \<in> set (occupants_of w q) \<and> (q = p \<or> exit_from places p q))" if o: "o' \<in> set ?others" for o'
  proof -
    obtain bc where "bc \<in> set (reply_broadcasts reply)"
        "o' \<in> set (announce w (registry_roster order svc) (bc_place bc) (bc_except bc) (bc_message bc))"
      using o by auto
    then show ?thesis by (rule broadcast_nearby [OF assms])
  qed
  show ?thesis
    by (rule exI, rule exI, rule conjI, rule outs, rule conjI, simp, rule ballI, rule others)
qed


lemma builtin_dispatch:
  assumes "with_builtins uni pipe" and "(n, al, h) \<in> set (builtin_table uni)" and "word \<in> set (n # al)"
    and "uni_lower uni (fst (split_head (trim line))) = lit word" and "fst (split_head (trim line)) \<noteq> []"
    and "ss_sessions svc sid = Some (InWorld bd)" and "location_of w (bind_puppet bd) = Some p"
    and "next_id (pipe_ids pipe) = (Inr cid, ids)"
  shows "dispatch uni pipe w places (registry_resolve svc (snd (register uni dispatcher_new))) ros
      \<lparr>in_session = sid, in_line = InputLine line\<rparr> =
    (Inr (deliver w ros sid (run_handler (pipe\<lparr>pipe_ids := ids\<rparr>) w places ros cid (in_world_caller sid bd p) []
            (trim (snd (split_head (trim line)))) h)),
     pipe\<lparr>pipe_ids := ids\<rparr>)"
proof -
  let ?args = "trim (snd (split_head (trim line)))"
  obtain c where c: "resolve_token (merge_layers (builtin_layers uni)) (lit word) [] ?args = Matched c [] ?args"
    and name: "cmd_name c = CommandName (lit n)"
    using builtin_word [OF assms(2,3)] by blast
  have chars: "lit word \<noteq> [] \<and> 47 \<notin> set (lit word)"
    using assms(2,3) by (auto simp: builtin_table_def lit_def)
  then have "split_on (ch CHR ''/'') (lit word) = [lit word]"
    using split_on_no_sep [of "ch CHR ''/''" "lit word"] by simp
  then have "parse_line (uni_lower uni) (merge_layers (builtin_layers uni)) line = Matched c [] ?args"
    using assms(4,5) chars c by (simp add: parse_line_def Let_def del: of_char_of)
  moreover have "dispatcher_binding (pipe_dispatcher pipe) (CommandName (lit n)) = Some (binding_new h)"
  proof -
    have "distinct (map fst (map (\<lambda>e. (entry_name e, binding_new (snd (snd e)))) (builtin_table uni)))"
      by (simp add: builtin_table_def entry_name_def)
    moreover have "(CommandName (lit n), binding_new h) \<in> set (map (\<lambda>e. (entry_name e, binding_new (snd (snd e)))) (builtin_table uni))"
      using assms(2) by (force simp: entry_name_def)
    ultimately show ?thesis
      using assms(1) by (simp add: with_builtins_def dispatcher_binding_def register_eq)
  qed
  ultimately show ?thesis
    using assms(6-8) name
    by (simp add: dispatch_def registry_resolve_def run_matched_def binding_new_def Let_def)
qed

text \<open>
  Every built-in answers to its name and to each of its aliases: a line whose first word is
  one of them, in whatever case, runs exactly that command's handler with the trimmed rest of the
  line as arguments, and delivers its reply; no word of the table is shadowed, ambiguous or
  unbound.
\<close>

theorem builtin_invocation:
  assumes "with_builtins uni pipe" and "(n, al, h) \<in> set (builtin_table uni)" and "word \<in> set (n # al)"
    and "uni_lower uni (fst (split_head (trim line))) = lit word" and "fst (split_head (trim line)) \<noteq> []"
    and "ss_sessions svc sid = Some (InWorld bd)" and "location_of w (bind_puppet bd) = Some p"
    and "next_id (pipe_ids pipe) = (Inr cid, ids)"
  shows "dispatch uni pipe w places (registry_resolve svc (snd (register uni dispatcher_new))) ros
      \<lparr>in_session = sid, in_line = InputLine line\<rparr> =
    (Inr (deliver w ros sid (run_handler (pipe\<lparr>pipe_ids := ids\<rparr>) w places ros cid (in_world_caller sid bd p) []
            (trim (snd (split_head (trim line)))) h)),
     pipe\<lparr>pipe_ids := ids\<rparr>)"
  using assms by (rule builtin_dispatch)

text \<open>The sample pipeline: two players in a hall with a garden to the north.\<close>

abbreviation hall_uni :: unicode where
  "hall_uni \<equiv> \<lparr>uni_lower = to_ascii_lowercase, uni_nfc = (\<lambda>s. s), uni_debug_char = (\<lambda>c. [39, c, 39])\<rparr>"

definition hall_pipe :: pipeline where
  "hall_pipe = pipeline_new (fst (register hall_uni dispatcher_new))"

definition hall_places :: places where
  "hall_places = [PlaceId 1 \<mapsto> Room (with_exit (room_new (PlaceId 1) (RegionId 1) (Description styled_new)) North (PlaceId 2)),
     PlaceId 2 \<mapsto> Room (room_new (PlaceId 2) (RegionId 1) (Description styled_new))]"

abbreviation hall_roster :: roster where
  "hall_roster \<equiv> registry_roster [SessionId 2, SessionId 1] hall_service"

abbreviation ann :: in_world_binding where
  "ann \<equiv> \<lparr>bind_account = AccountId 1, bind_puppet = sample_handle 0 0, bind_name = PuppetName (lit ''ann'')\<rparr>"

lemma hall_facts:
  "with_builtins hall_uni hall_pipe"
  "next_id (pipe_ids hall_pipe) = (Inr (CommandId 1), CommandIdGen (Some 2))"
  "location_of hall_world (sample_handle 0 0) = Some (PlaceId 1)"
  "location_of hall_world (sample_handle 1 0) = Some (PlaceId 1)"
proof -
  show "location_of hall_world (sample_handle 0 0) = Some (PlaceId 1)"
    "location_of hall_world (sample_handle 1 0) = Some (PlaceId 1)"
    unfolding occupants_of_iff [OF world_inv_hall, symmetric] hall_occupants by simp_all
qed (simp_all add: with_builtins_def hall_pipe_def pipeline_new_def id_gen_new_def checked_add_u64_def)

lemma hall_word:
  "uni_lower hall_uni (fst (split_head (trim (lit ''N'')))) = lit ''n''"
  "fst (split_head (trim (lit ''N''))) \<noteq> []" "trim (snd (split_head (trim (lit ''N'')))) = []"
  "(''north'', [''n''], move_run North) \<in> set (builtin_table hall_uni)"
  by (simp_all add: text_eval builtin_table_def)

abbreviation hall_line :: "string \<Rightarrow> session_input" where
  "hall_line s \<equiv> \<lparr>in_session = SessionId 1, in_line = InputLine (lit s)\<rparr>"

abbreviation hall_dispatch :: "string \<Rightarrow> (pipeline_error + dispatch_outcome) \<times> pipeline" where
  "hall_dispatch s \<equiv> dispatch hall_uni hall_pipe hall_world hall_places
     (registry_resolve hall_service (snd (register hall_uni dispatcher_new))) hall_roster (hall_line s)"

lemma builtin_invocation_witness:
  "hall_dispatch ''N'' =
    (Inr (deliver hall_world hall_roster (SessionId 1)
       (run_handler (hall_pipe\<lparr>pipe_ids := CommandIdGen (Some 2)\<rparr>) hall_world hall_places hall_roster (CommandId 1)
         (in_world_caller (SessionId 1) ann (PlaceId 1)) [] [] (move_run North))),
     hall_pipe\<lparr>pipe_ids := CommandIdGen (Some 2)\<rparr>)"
  using builtin_invocation [OF hall_facts(1) hall_word(4) _ hall_word(1,2), of
      hall_service "SessionId 1" ann hall_world "PlaceId 1" "CommandId 1" "CommandIdGen (Some 2)"]
    hall_word(3) hall_facts by simp

lemma hall_north:
  obtains out pipe' where "hall_dispatch ''N'' = (Inr out, pipe')"
    and "outc_effects out = [MoveTo (sample_handle 0 0) (PlaceId 2)]"
    and "SessionId 2 \<in> out_session ` set (outc_outputs out)"
proof -
  let ?ctx = "\<lparr>cc_command_id = CommandId 1, cc_caller = in_world_caller (SessionId 1) ann (PlaceId 1),
    cc_locale = pipe_locale (hall_pipe\<lparr>pipe_ids := CommandIdGen (Some 2)\<rparr>), cc_switches = [], cc_args = [],
    cc_engine = \<lparr>ev_world = hall_world, ev_places = hall_places, ev_roster = hall_roster\<rparr>\<rparr>"
  have eff: "reply_effects (move_run North ?ctx) = [MoveTo (sample_handle 0 0) (PlaceId 2)]"
    by (simp add: move_run_def hall_places_def Let_def room_new_def)
  obtain m bs where bc: "reply_broadcasts (move_run North ?ctx) = to_place (PlaceId 1) (sample_handle 0 0) m # bs"
    by (simp add: move_run_def hall_places_def Let_def room_new_def)
  have "session_of hall_roster (sample_handle 1 0) = Some (SessionId 2)"
    by (simp add: registry_roster_def registry_session_of_def)
  then have "SessionId 2 \<in> out_session ` set (announce hall_world hall_roster (PlaceId 1) (sample_handle 0 0) m)"
    by (force simp: announce_def hall_occupants mem_map_filter image_image)
  with eff bc builtin_dispatch [OF hall_facts(1) hall_word(4) _ hall_word(1,2), of
      hall_service "SessionId 1" ann hall_world "PlaceId 1" "CommandId 1" "CommandIdGen (Some 2)" hall_places hall_roster]
    hall_word(3) hall_facts
  show thesis
    by (intro that) (auto simp: deliver_def run_handler_def to_place_def)
qed

lemma commands_act_within_reach_witness:
  "\<exists>out pipe'. hall_dispatch ''N'' = (Inr out, pipe') \<and> outc_effects out = [MoveTo (sample_handle 0 0) (PlaceId 2)] \<and>
     within_reach hall_world hall_places (in_world_caller (SessionId 1) ann (PlaceId 1)) (MoveTo (sample_handle 0 0) (PlaceId 2))"
proof -
  obtain out pipe' where d: "hall_dispatch ''N'' = (Inr out, pipe')"
      "outc_effects out = [MoveTo (sample_handle 0 0) (PlaceId 2)]"
    by (rule hall_north)
  then show ?thesis
    using commands_act_within_reach [OF hall_facts(1) d(1), of "MoveTo (sample_handle 0 0) (PlaceId 2)"] hall_facts(3)
    by (intro exI [of _ out] exI [of _ pipe']) (auto simp: exit_from_def)
qed


lemma denied_handler_invisible_witness:
  "fst (dispatch hall_uni (hall_pipe\<lparr>pipe_dispatcher := dispatcher_bind dispatcher_new (CommandName (lit ''look''))
        (gated_by (binding_new look_run) \<lparr>lock_access = AccessType [], lock_expr = Fn (Perm (LockArg (lit ''admin'')))\<rparr>)\<rparr>)
      hall_world hall_places (registry_resolve hall_service (snd (register hall_uni dispatcher_new))) hall_roster (hall_line ''look'')) =
   fst (dispatch hall_uni (hall_pipe\<lparr>pipe_dispatcher := dispatcher_bind dispatcher_new (CommandName (lit ''look''))
        (gated_by (binding_new quit_run) \<lparr>lock_access = AccessType [], lock_expr = Fn (Perm (LockArg (lit ''admin'')))\<rparr>)\<rparr>)
      hall_world hall_places (registry_resolve hall_service (snd (register hall_uni dispatcher_new))) hall_roster (hall_line ''look''))"
proof (rule denied_handler_invisible)
  show "\<forall>rs. registry_resolve hall_service (snd (register hall_uni dispatcher_new)) (in_session (hall_line ''look'')) hall_world = Some rs \<longrightarrow>
      same_for (caller_access (rs_caller rs))
        (pipe_dispatcher (hall_pipe\<lparr>pipe_dispatcher := dispatcher_bind dispatcher_new (CommandName (lit ''look''))
          (gated_by (binding_new look_run) \<lparr>lock_access = AccessType [], lock_expr = Fn (Perm (LockArg (lit ''admin'')))\<rparr>)\<rparr>))
        (pipe_dispatcher (hall_pipe\<lparr>pipe_dispatcher := dispatcher_bind dispatcher_new (CommandName (lit ''look''))
          (gated_by (binding_new quit_run) \<lparr>lock_access = AccessType [], lock_expr = Fn (Perm (LockArg (lit ''admin'')))\<rparr>)\<rparr>))"
    using registry_resolve_Some [of hall_service "snd (register hall_uni dispatcher_new)" "SessionId 1" hall_world]
    by (fastforce simp: same_for_def dispatcher_binding_def dispatcher_bind_def dispatcher_new_def gated_by_def
        binding_new_def lets_in_def evaluate_def lock_context_new_def)
qed simp_all

end
