(* ===== verification/Items.thy ===== *)
theory Items
  imports Pipeline Scheduler
begin

text \<open>
  The item commands and the tick together: a handler reads one world and its effects are queued
  (crates/mudd/src/world_loop.rs submits them without a precondition), and the next tick applies
  them. What one player's commands do in one tick, and what two players' commands do.
\<close>

section \<open>Properties\<close>

text \<open>
  Taking an item and dropping it again changes nothing: when a get names one entity of the
  room, the tick after it lifts that entity out of the room to the end of the caller's inventory;
  a drop that names it then, issued from the same place, leaves every entity where it was and
  every inventory as it was before the get.
\<close>

theorem get_then_drop:
  assumes "world_inv w" and "live w c" and "cc_world g = w" and "cc_entity g = c" and "cc_location g = p"
    and get: "resolve_among (uni_lower uni) w (filter (\<lambda>e. e \<noteq> c) (occupants_of w p)) (cc_args g) = One i"
    and free: "id_slot i \<notin> id_slot ` set (inventory_of w c)"
  shows "\<exists>w1. apply_commands w (map command_new (reply_effects (get_run uni g))) = Some (w1, []) \<and>
    location_of w1 i = None \<and> inventory_of w1 c = inventory_of w c @ [i] \<and>
    (\<forall>d. cc_world d = w1 \<and> cc_entity d = c \<and> cc_location d = p \<and>
         resolve_among (uni_lower uni) w1 (inventory_of w1 c) (cc_args d) = One i \<longrightarrow>
       (\<exists>w2. apply_commands w1 (map command_new (reply_effects (drop_run uni d))) = Some (w2, []) \<and>
          world_view w2 = world_view w))"
proof -
  have "i \<in> set (filter (\<lambda>e. e \<noteq> c) (occupants_of w p))" using resolve_among_mem(1) [OF get] .
  then have i: "i \<in> set (occupants_of w p)" "i \<noteq> c" by simp_all
  have li: "live w i" using world_invD(3) [OF assms(1) i(1)] .
  have here: "location_of w i = Some p" using occupants_of_iff [OF assms(1)] i(1) by blast
  have es: "reply_effects (get_run uni g) = [ClearLocation i, InventoryAdd c i]"
    using assms(3-5) get by (simp add: get_run_def Let_def)
  obtain w1 where w1: "apply_commands w (map command_new (reply_effects (get_run uni g))) = Some (w1, [])"
      "world_inv w1" "world_view w1 = foldl view_apply (world_view w) [ClearLocation i, InventoryAdd c i]"
    using run_live [OF assms(1), of "[ClearLocation i, InventoryAdd c i]"] assms(2) li unfolding es by auto
  then have v1: "world_view w1 = (world_view w)\<lparr>k_at := (location_of w)(i := None),
      k_items := (inventory_of w)(c := inventory_of w c @ [i])\<rparr>"
    using free by simp
  have live1: "live w1 e \<longleftrightarrow> live w e" for e
    using arg_cong [OF v1, of k_live] by auto
  have read1: "location_of w1 = (location_of w)(i := None)" "inventory_of w1 = (inventory_of w)(c := inventory_of w c @ [i])"
    using arg_cong [OF v1, of k_at] arg_cong [OF v1, of k_items] by simp_all
  have undo: "\<exists>w2. apply_commands w1 (map command_new (reply_effects (drop_run uni d))) = Some (w2, []) \<and>
      world_view w2 = world_view w"
    if "cc_world d = w1 \<and> cc_entity d = c \<and> cc_location d = p \<and>
      resolve_among (uni_lower uni) w1 (inventory_of w1 c) (cc_args d) = One i" for d
  proof -
    have es2: "reply_effects (drop_run uni d) = [InventoryRemove c i, MoveTo i p]"
      using that by (simp add: drop_run_def Let_def)
    obtain w2 where w2: "apply_commands w1 (map command_new (reply_effects (drop_run uni d))) = Some (w2, [])"
        "world_view w2 = foldl view_apply (world_view w1) [InventoryRemove c i, MoveTo i p]"
      using run_live [OF w1(2), of "[InventoryRemove c i, MoveTo i p]"] assms(2) li live1 unfolding es2 by auto
    have "filter (\<lambda>h. id_slot h \<noteq> id_slot i) (inventory_of w c) = inventory_of w c"
      using free by (intro filter_True) (auto simp: image_iff)
    then have "world_view w2 = (world_view w)\<lparr>k_at := (location_of w)(i := Some p)\<rparr>"
      using w2(2) v1 by simp
    also have "\<dots> = world_view w" using here by (simp add: world_view_def fun_upd_idem)
    finally show ?thesis using w2(1) by blast
  qed
  show ?thesis using w1(1) read1 undo by (intro exI [of _ w1]) auto
qed

text \<open>
  C34. Two players who take the same item in the same tick both get it: each handler sees the item
  on the floor, the queued effects carry no precondition, and after the tick the item is in both
  inventories.
\<close>

theorem simultaneous_get_duplicates:
  assumes "world_inv w" and "live w a" and "live w b" and "a \<noteq> b"
    and "cc_world ga = w" and "cc_entity ga = a" and "cc_location ga = p"
    and "cc_world gb = w" and "cc_entity gb = b" and "cc_location gb = p"
    and "resolve_among (uni_lower uni) w (filter (\<lambda>e. e \<noteq> a) (occupants_of w p)) (cc_args ga) = One i"
    and "resolve_among (uni_lower uni) w (filter (\<lambda>e. e \<noteq> b) (occupants_of w p)) (cc_args gb) = One i"
    and "id_slot i \<notin> id_slot ` set (inventory_of w a)" and "id_slot i \<notin> id_slot ` set (inventory_of w b)"
  shows "\<exists>s' w'. tick \<lparr>queue = map command_new (reply_effects (get_run uni ga) @ reply_effects (get_run uni gb)),
        tick_number = n\<rparr> w = Some (s', w', []) \<and> holds_item w' a i \<and> holds_item w' b i"
proof -
  have "i \<in> set (occupants_of w p)" using resolve_among_mem(1) [OF assms(11)] by simp
  then have li: "live w i" by (rule world_invD(3) [OF assms(1)])
  let ?effs = "[ClearLocation i, InventoryAdd a i, ClearLocation i, InventoryAdd b i]"
  have es: "reply_effects (get_run uni ga) @ reply_effects (get_run uni gb) = ?effs"
    using assms(5-12) by (simp add: get_run_def Let_def)
  obtain w' where w': "apply_commands w (map command_new ?effs) = Some (w', [])"
      "world_view w' = foldl view_apply (world_view w) ?effs"
    using run_live [OF assms(1), of ?effs] assms(2,3) li by auto
  then have "k_items (world_view w') = (inventory_of w)(a := inventory_of w a @ [i], b := inventory_of w b @ [i])"
    using assms(4,13,14) by simp
  then have "i \<in> set (inventory_of w' a)" "i \<in> set (inventory_of w' b)" using assms(4) by auto
  then show ?thesis using w'(1) unfolding es by (simp add: tick_def drain_def world_views(5))
qed

text \<open>The sample: the sword of the hall.\<close>

lemma hall_keywords: "keywords_of hall_world (sample_handle 0 0) = []" "keywords_of hall_world (sample_handle 1 0) = []"
  "keywords_of hall_world (sample_handle 2 0) = [Keyword (lit ''sword'')]"
  using hall_live by (simp_all add: world_views(3) keywords_dense dense_def)

lemma hall_sword:
  assumes "sample_handle 2 0 \<in> set es" and "set es \<subseteq> {sample_handle 0 0, sample_handle 1 0, sample_handle 2 0}"
    and "distinct es"
  shows "resolve_among (\<lambda>s. s) hall_world es (lit ''sword'') = One (sample_handle 2 0)"
proof -
  have sw: "trim (lit ''sword'') = lit ''sword''" "lit ''sword'' \<noteq> []"
    using plain_sword by (simp_all add: plain_token_def)
  have ans: "answers_to (\<lambda>s. s) hall_world (lit ''sword'') e \<longleftrightarrow> e = sample_handle 2 0"
    if "e \<in> {sample_handle 0 0, sample_handle 1 0, sample_handle 2 0}" for e
    using that sw hall_keywords by (auto simp: answers_to_def)
  then have "filter (answers_to (\<lambda>s. s) hall_world (lit ''sword'')) es = filter (\<lambda>e. e = sample_handle 2 0) es"
    using assms(2) by (intro filter_cong) auto
  also have "\<dots> = [sample_handle 2 0]" using assms(1,3) by (induction es) (auto simp: filter_empty_conv)
  finally show ?thesis by (simp add: resolve_plain [OF plain_sword])
qed

abbreviation sword_uni :: unicode where
  "sword_uni \<equiv> hall_uni\<lparr>uni_lower := (\<lambda>s. s)\<rparr>"

abbreviation sword_context :: "in_world_binding \<Rightarrow> session_id \<Rightarrow> world \<Rightarrow> command_context" where
  "sword_context bd sid w \<equiv> \<lparr>cc_command_id = CommandId 1, cc_caller = in_world_caller sid bd (PlaceId 1),
     cc_locale = EN, cc_switches = [], cc_args = lit ''sword'',
     cc_engine = \<lparr>ev_world = w, ev_places = hall_places, ev_roster = hall_roster\<rparr>\<rparr>"

abbreviation bob :: in_world_binding where
  "bob \<equiv> \<lparr>bind_account = AccountId 2, bind_puppet = sample_handle 1 0, bind_name = PuppetName (lit ''bob'')\<rparr>"

lemma hall_empty: "inventory_of hall_world e = []"
  by (simp add: world_views(2) contents_dense inventory_new_def)

lemma hall_finds:
  "resolve_among (\<lambda>s. s) hall_world (filter (\<lambda>e. e \<noteq> sample_handle 0 0) (occupants_of hall_world (PlaceId 1)))
     (lit ''sword'') = One (sample_handle 2 0)"
  "resolve_among (\<lambda>s. s) hall_world (filter (\<lambda>e. e \<noteq> sample_handle 1 0) (occupants_of hall_world (PlaceId 1)))
     (lit ''sword'') = One (sample_handle 2 0)"
  unfolding hall_occupants using hall_sword by simp_all

lemma get_then_drop_witness:
  "\<exists>w1. apply_commands hall_world (map command_new (reply_effects (get_run sword_uni
       (sword_context ann (SessionId 1) hall_world)))) = Some (w1, []) \<and>
     inventory_of w1 (sample_handle 0 0) = [sample_handle 2 0]"
  using get_then_drop [OF world_inv_hall hall_live(1), of "sword_context ann (SessionId 1) hall_world" "PlaceId 1" sword_uni
      "sample_handle 2 0"] hall_finds(1) hall_empty by auto

lemma simultaneous_get_duplicates_witness:
  "\<exists>s' w'. tick \<lparr>queue = map command_new
        (reply_effects (get_run sword_uni (sword_context ann (SessionId 1) hall_world)) @
         reply_effects (get_run sword_uni (sword_context bob (SessionId 2) hall_world))), tick_number = 0\<rparr> hall_world =
      Some (s', w', []) \<and>
    holds_item w' (sample_handle 0 0) (sample_handle 2 0) \<and> holds_item w' (sample_handle 1 0) (sample_handle 2 0)"
  by (rule simultaneous_get_duplicates [OF world_inv_hall hall_live(1,2), where p = "PlaceId 1"])
    (simp_all add: hall_finds hall_empty)

end
