(* ===== verification/Speech.thy ===== *)
theory Speech
  imports Pipeline
begin

text \<open>
  What a player hears of a player: the say command (crates/mud-engine/src/builtins/say.rs) with
  the message templates of crates/mud-i18n. Text without braces arrives as it was sanitized;
  text that spells a placeholder is expanded again.
\<close>

section \<open>Templates with two placeholders\<close>

lemma replace_miss:
  "strip_prefix p s = None \<Longrightarrow> 123 \<notin> set s \<Longrightarrow> replace_all (123 # p) v (123 # s) = 123 # s"
  by (simp add: replace_none)

lemma say_templates:
  "map_of ENTRIES ''say.speech'' = Some ((lit ''You say, '' @ [34]) @ lit ''{ $message }'' @ [34])"
  "map_of ENTRIES ''say.broadcast'' =
     Some (lit ''{ $name }'' @ (lit '' says, '' @ [34]) @ lit ''{ $message }'' @ [34])"
  by (simp_all add: ENTRIES_def) (simp add: lit_def)

lemma no_brace: "123 \<notin> set (lit ''You say, '')" "123 \<notin> set (lit '' says, '')"
  by (simp_all add: lit_def)

lemma placeholder: "lit ''{ $'' @ lit n @ lit '' }'' = lit (''{ $'' @ n @ '' }'')"
  by (simp add: lit_def)

lemma speech_text:
  assumes "123 \<notin> set m"
  shows "t_macro loc ''say.speech'' [(''message'', m)] = lit ''You say, '' @ [34] @ m @ [34]"
  using interpolate_one [of "lit ''You say, '' @ [34]" "[34]" m "''message''"] assms no_brace
  by (simp add: t_macro_eq say_templates placeholder)

lemma broadcast_text:
  assumes "123 \<notin> set m" and "123 \<notin> set n"
  shows "t_macro loc ''say.broadcast'' [(''name'', n), (''message'', m)] =
    n @ lit '' says, '' @ [34] @ m @ [34]"
proof -
  let ?mid = "lit '' says, '' @ [34]" and ?msg = "lit ''{ $message }''"
  have msg: "?msg = 123 # lit '' $message }''" "123 \<notin> set (lit '' $message }'')" by (simp_all add: lit_def)
  have mid: "123 \<notin> set ?mid" using no_brace by simp
  have name: "lit ''{ $name }'' = 123 # lit '' $name }''" by (simp add: lit_def)
  have miss: "replace_all (123 # lit '' $name }'') n (?msg @ [34]) = ?msg @ [34]"
      "replace_all (123 # lit ''$name}'') n (?msg @ [34]) = ?msg @ [34]"
    unfolding msg(1) append_Cons using msg(2) by (simp_all add: replace_none) (simp_all add: lit_def)
  have first: "replace_all (lit ''{$name}'') n (replace_all (lit ''{ $name }'') n
      (lit ''{ $name }'' @ ?mid @ ?msg @ [34])) = n @ ?mid @ ?msg @ [34]"
  proof -
    have "replace_all (lit ''{ $name }'') n (lit ''{ $name }'' @ ?mid @ ?msg @ [34]) = n @ ?mid @ ?msg @ [34]"
      unfolding name replace_hit replace_skip [OF mid] miss(1) by (rule refl)
    moreover have "lit ''{$name}'' = 123 # lit ''$name}''" by (simp add: lit_def)
    ultimately show ?thesis
      using miss(2) mid assms(2) replace_skip [of "n @ ?mid" "lit ''$name}''" n "?msg @ [34]"] by simp
  qed
  have hit: "replace_all (123 # lit '' $message }'') m ((123 # lit '' $message }'') @ [34]) = m @ [34]"
    unfolding replace_hit by (simp add: replace_none)
  have "123 \<notin> set (n @ ?mid)" using assms(2) mid by simp
  then have "replace_all ?msg m (n @ ?mid @ ?msg @ [34]) = n @ ?mid @ m @ [34]"
    using replace_skip [of "n @ ?mid" "lit '' $message }''" m "?msg @ [34]"] hit unfolding msg(1) by simp
  moreover have "replace_all (lit ''{$message}'') m (n @ ?mid @ m @ [34]) = n @ ?mid @ m @ [34]"
    using assms mid replace_none [of "n @ ?mid @ m @ [34]" "lit ''$message}''" m] by (simp add: lit_def)
  ultimately show ?thesis
    using first by (simp add: t_macro_eq say_templates interpolate_def placeholder) (simp add: lit_def)
qed

section \<open>Properties\<close>

text \<open>
  Speech arrives verbatim: when the text that sanitizing leaves has no brace, the speaker
  reads it in quotes after You say, everybody else in the place reads it in quotes after the
  speaker's name, and saying it changes nothing in the world.
\<close>

theorem say_verbatim:
  assumes "sanitize (uni_nfc uni) (cc_args ctx) = Inr m" and "trim m \<noteq> []" and "123 \<notin> set m"
    and "123 \<notin> set (puppet_name_str (caller_name (cc_caller ctx)))"
  shows "to_plain_string (reply_output (say_run uni ctx)) = lit ''You say, '' @ [34] @ m @ [34] \<and>
    (\<exists>b. reply_broadcasts (say_run uni ctx) = [b] \<and> bc_place b = cc_location ctx \<and> bc_except b = cc_entity ctx \<and>
       to_plain_string (bc_message b) =
         puppet_name_str (caller_name (cc_caller ctx)) @ lit '' says, '' @ [34] @ m @ [34]) \<and>
    reply_effects (say_run uni ctx) = [] \<and> reply_disposition (say_run uni ctx) = Remain"
  using assms
  by (simp add: say_run_def speech_text broadcast_text to_place_def to_plain_string_def styled_role_def
      push_span_def span_role_def styled_new_def)

lemma plain_text_kept:
  assumes "\<forall>c \<in> set s. 32 \<le> c \<and> c < 127" and "length s \<le> MAX_CONTENT_BYTES" and "nfc s = s"
  shows "sanitize nfc s = Inr s"
proof -
  have "str_len s = length s"
    using assms(1) by (induction s) (auto simp: str_len_Cons encode_char_def str_len_def utf8_nats_def)
  moreover have "list_all harmless s" using assms(1) by (auto simp: list_all_iff is_control_def)
  ultimately show ?thesis using assms(2,3) by (simp add: sanitize_def strip_clean)
qed

lemma sanitize_hi: "sanitize (\<lambda>s. s) (lit ''hi'') = Inr (lit ''hi'')"
  by (rule plain_text_kept) (simp_all add: lit_def MAX_CONTENT_BYTES_def)

lemma say_verbatim_witness:
  "to_plain_string (reply_output (say_run hall_uni
      \<lparr>cc_command_id = CommandId 1, cc_caller = in_world_caller (SessionId 1) ann (PlaceId 1), cc_locale = EN,
       cc_switches = [], cc_args = lit ''hi'',
       cc_engine = \<lparr>ev_world = hall_world, ev_places = hall_places, ev_roster = hall_roster\<rparr>\<rparr>)) =
    lit ''You say, '' @ [34] @ lit ''hi'' @ [34]"
proof -
  have "trim (lit ''hi'') \<noteq> []" by (simp add: text_eval)
  moreover have "123 \<notin> set (lit ''hi'')" "123 \<notin> set (lit ''ann'')" by (simp_all add: lit_def)
  ultimately show ?thesis
    using say_verbatim [of hall_uni "\<lparr>cc_command_id = CommandId 1,
       cc_caller = in_world_caller (SessionId 1) ann (PlaceId 1), cc_locale = EN,
       cc_switches = [], cc_args = lit ''hi'',
       cc_engine = \<lparr>ev_world = hall_world, ev_places = hall_places, ev_roster = hall_roster\<rparr>\<rparr>" "lit ''hi''"]
      sanitize_hi by simp
qed

section \<open>Text that spells a placeholder\<close>

definition echo_bomb :: "nat \<Rightarrow> ustring" where
  "echo_bomb k = concat (replicate k (lit ''{$message}''))"

lemma length_echo_bomb: "length (echo_bomb k) = 10 * k"
  by (simp add: echo_bomb_def length_concat sum_list_replicate lit_def)

lemma replace_pieces: "replace_all (123 # p) v (concat (replicate k (123 # p)) @ b) =
    concat (replicate k v) @ replace_all (123 # p) v b"
proof (induction k)
  case (Suc k)
  then show ?case using replace_hit [of p v "concat (replicate k (123 # p)) @ b"] by simp
qed simp

lemma bomb_miss:
  "replace_all (lit ''{ $message }'') v (echo_bomb k @ b) = echo_bomb k @ replace_all (lit ''{ $message }'') v b"
proof (induction k)
  case (Suc k)
  have hd: "lit ''{ $message }'' = 123 # lit '' $message }''" "lit ''{$message}'' = 123 # lit ''$message}''"
    by (simp_all add: lit_def)
  have "replace_all (123 # lit '' $message }'') v (123 # lit ''$message}'' @ s) =
      123 # replace_all (123 # lit '' $message }'') v (lit ''$message}'' @ s)" for s
    by (simp add: lit_def)
  moreover have "123 \<notin> set (lit ''$message}'')" by (simp add: lit_def)
  ultimately have "replace_all (lit ''{ $message }'') v (lit ''{$message}'' @ s) =
      lit ''{$message}'' @ replace_all (lit ''{ $message }'') v s" for s
    unfolding hd using replace_skip [of "lit ''$message}''" "lit '' $message }''" v s] by simp
  with Suc show ?case by (simp add: echo_bomb_def)
qed (simp add: echo_bomb_def)

lemma speech_bomb:
  "t_macro loc ''say.speech'' [(''message'', echo_bomb k)] =
     lit ''You say, '' @ [34] @ concat (replicate k (echo_bomb k)) @ [34]"
proof -
  have hd: "lit ''{ $message }'' = 123 # lit '' $message }''" "lit ''{$message}'' = 123 # lit ''$message}''"
    by (simp_all add: lit_def)
  have pre: "123 \<notin> set (lit ''You say, '' @ [34])" using no_brace by simp
  have one: "replace_all (lit ''{ $message }'') v ((lit ''You say, '' @ [34]) @ lit ''{ $message }'' @ [34]) =
      (lit ''You say, '' @ [34]) @ v @ [34]" for v
    unfolding hd replace_skip [OF pre] replace_hit by (simp add: replace_none)
  have two: "replace_all (lit ''{$message}'') v ((lit ''You say, '' @ [34]) @ echo_bomb k @ [34]) =
      (lit ''You say, '' @ [34]) @ concat (replicate k v) @ [34]" for v
    unfolding hd(2) replace_skip [OF pre] echo_bomb_def replace_pieces by (simp add: replace_none)
  show ?thesis
    using one [of "echo_bomb k"] two [of "echo_bomb k"]
    by (simp add: t_macro_eq say_templates interpolate_def) (simp add: lit_def)
qed

text \<open>
  The content cap does not bound what a say sends: a message made of k copies of the message
  placeholder has 10 k characters, is accepted up to 4096 bytes, and is expanded again inside its
  own expansion, so the answer has 10 k^2 + 11 characters.
\<close>

theorem say_amplifies:
  assumes "cc_args ctx = echo_bomb k" and "uni_nfc uni (echo_bomb k) = echo_bomb k" and "1 \<le> k" and "k \<le> 409"
  shows "length (cc_args ctx) = 10 * k \<and>
    length (to_plain_string (reply_output (say_run uni ctx))) = 10 * k * k + 11"
proof -
  have "\<forall>c \<in> set (echo_bomb k). 32 \<le> c \<and> c < 127"
    by (auto simp: echo_bomb_def lit_def)
  then have s: "sanitize (uni_nfc uni) (echo_bomb k) = Inr (echo_bomb k)"
    using assms(2,4) by (intro plain_text_kept) (simp_all add: length_echo_bomb MAX_CONTENT_BYTES_def)
  have "trim (echo_bomb k) \<noteq> []"
  proof -
    obtain j where "k = Suc j" using assms(3) by (cases k) auto
    then have "echo_bomb k = 123 # (lit ''$message}'' @ echo_bomb j)"
      by (simp add: echo_bomb_def) (simp add: lit_def)
    moreover have "\<not> is_whitespace 123" by (simp add: is_whitespace_def)
    ultimately show ?thesis
      by (auto simp: trim_def trim_start_def trim_end_def dropWhile_eq_Nil_conv)
  qed
  with s assms(1) show ?thesis
    by (simp add: say_run_def speech_bomb to_plain_string_def styled_role_def push_span_def span_role_def
        styled_new_def length_concat sum_list_replicate length_echo_bomb) (simp add: lit_def)
qed

lemma say_amplifies_witness:
  "\<exists>ctx. length (cc_args ctx) = 4090 \<and>
     length (to_plain_string (reply_output (say_run hall_uni ctx))) = 1672821"
proof -
  let ?ctx = "\<lparr>cc_command_id = CommandId 1, cc_caller = in_world_caller (SessionId 1) ann (PlaceId 1), cc_locale = EN,
    cc_switches = [], cc_args = echo_bomb 409,
    cc_engine = \<lparr>ev_world = hall_world, ev_places = hall_places, ev_roster = hall_roster\<rparr>\<rparr>"
  show ?thesis using say_amplifies [of ?ctx 409 hall_uni] by (intro exI [of _ ?ctx]) simp
qed

end
