(* ===== verification/Database.thy ===== *)
theory Database
  imports Account Place Scheduler Frames "HOL-Library.AList"
begin

text \<open>
  One tenant's database: the tables of crates/mud-db/migrations/sqlite/0001_initial.sql, what each
  SQL statement of crates/mud-db/src/sqlite does to them, the conversions of its integer columns
  (keys.rs), the errors (error.rs), and the account repository (accounts.rs). The engine itself is
  third-party: a statement either has its documented effect or fails and changes nothing, and
  \<open>db_faults\<close> says, for the n-th statement, which of the two happens. The text of a corrupt-value
  error is kept as its label and the offending value. Rows of a table are listed
  in the order an unordered query returns them, which nothing below relies on.
\<close>

section \<open>Errors and column conversions\<close>

datatype db_error =
    Sqlx
  | Migrate
  | BlockingTask
  | InvalidId int
  | CorruptValue string ustring
  | KeyOutOfRange u64
  | EntityNotMapped
  | UnknownPlaceKey ustring
  | PlaceNotMapped
  | DanglingReference int
  | LoadArenaExhausted entity_key arena_error
  | UnsupportedEffect

definition i64_max :: int where
  "i64_max = 2 ^ 63 - 1"

definition nonzero_from_db :: "int \<Rightarrow> db_error + u64" where
  "nonzero_from_db v = (if 0 < v then Inr (word_of_int v) else Inl (InvalidId v))"

definition nonzero_to_db :: "u64 \<Rightarrow> db_error + int" where
  "nonzero_to_db v = (if uint v \<le> i64_max then Inr (uint v) else Inl (KeyOutOfRange v))"

definition entity_key_from_db :: "int \<Rightarrow> db_error + entity_key" where
  "entity_key_from_db v = bindE (nonzero_from_db v) (\<lambda>n. Inr (EntityKey n))"

definition entity_key_to_db :: "entity_key \<Rightarrow> db_error + int" where
  "entity_key_to_db k = nonzero_to_db (ekey_get k)"

definition account_id_from_db :: "int \<Rightarrow> db_error + account_id" where
  "account_id_from_db v = bindE (nonzero_from_db v) (\<lambda>n. Inr (AccountId n))"

definition account_id_to_db :: "account_id \<Rightarrow> db_error + int" where
  "account_id_to_db a = nonzero_to_db (account_id_get a)"

section \<open>Tables and statements\<close>

record account_row =
  ar_id :: int
  ar_username :: ustring
  ar_password_hash :: ustring
  ar_state :: ustring

record puppet_row =
  pr_entity_key :: int
  pr_account_id :: int
  pr_name :: ustring

record tenant_db =
  db_entities :: "int list"
  db_entity_seq :: int
  db_accounts :: "account_row list"
  db_account_seq :: int
  db_puppets :: "puppet_row list"
  db_location :: "(int \<times> ustring) list"
  db_inventory :: "(int \<times> int) list"
  db_server :: "int option"
  db_faults :: "nat \<Rightarrow> bool"
  db_clock :: nat

type_synonym 'a statement = "tenant_db \<Rightarrow> (db_error + 'a) \<times> tenant_db"

definition run_statement :: "'a statement \<Rightarrow> tenant_db \<Rightarrow> (db_error + 'a) \<times> tenant_db" where
  "run_statement st db =
     (let db1 = db\<lparr>db_clock := Suc (db_clock db)\<rparr>
      in if db_faults db (db_clock db) then (Inl Sqlx, db1) else st db1)"

text \<open>\<open>INSERT INTO entities DEFAULT VALUES RETURNING entity_key\<close>: AUTOINCREMENT never reuses a key.\<close>

definition insert_entity :: "int statement" where
  "insert_entity db =
     (if i64_max \<le> db_entity_seq db then (Inl Sqlx, db)
      else (let k = db_entity_seq db + 1
            in (Inr k, db\<lparr>db_entities := db_entities db @ [k], db_entity_seq := k\<rparr>)))"

definition select_entities :: "int list statement" where
  "select_entities db = (Inr (sort (db_entities db)), db)"

definition select_entity :: "int \<Rightarrow> bool statement" where
  "select_entity k db = (Inr (k \<in> set (db_entities db)), db)"

text \<open>\<open>DELETE FROM entities\<close> with the cascades of the schema.\<close>

definition delete_entity :: "int \<Rightarrow> unit statement" where
  "delete_entity k db =
     (Inr (), db\<lparr>db_entities := filter (\<lambda>e. e \<noteq> k) (db_entities db),
        db_puppets := filter (\<lambda>r. pr_entity_key r \<noteq> k) (db_puppets db),
        db_location := AList.delete k (db_location db),
        db_inventory := filter (\<lambda>(item, container). item \<noteq> k \<and> container \<noteq> k) (db_inventory db)\<rparr>)"

definition select_locations :: "(int \<times> ustring) list statement" where
  "select_locations db = (Inr (db_location db), db)"

definition select_location :: "int \<Rightarrow> ustring option statement" where
  "select_location k db = (Inr (map_of (db_location db) k), db)"

definition upsert_location :: "int \<Rightarrow> ustring \<Rightarrow> unit statement" where
  "upsert_location k slug db =
     (if k \<notin> set (db_entities db) then (Inl Sqlx, db)
      else (Inr (), db\<lparr>db_location := AList.update k slug (db_location db)\<rparr>))"

definition insert_location :: "int \<Rightarrow> ustring \<Rightarrow> unit statement" where
  "insert_location k slug db =
     (if k \<notin> set (db_entities db) \<or> map_of (db_location db) k \<noteq> None then (Inl Sqlx, db)
      else (Inr (), db\<lparr>db_location := AList.update k slug (db_location db)\<rparr>))"

definition delete_location :: "int \<Rightarrow> unit statement" where
  "delete_location k db = (Inr (), db\<lparr>db_location := AList.delete k (db_location db)\<rparr>)"

definition select_inventory :: "(int \<times> int) list statement" where
  "select_inventory db = (Inr (db_inventory db), db)"

definition upsert_inventory :: "int \<Rightarrow> int \<Rightarrow> unit statement" where
  "upsert_inventory item container db =
     (if item \<notin> set (db_entities db) \<or> container \<notin> set (db_entities db) then (Inl Sqlx, db)
      else (Inr (), db\<lparr>db_inventory := AList.update item container (db_inventory db)\<rparr>))"

definition delete_inventory :: "int \<Rightarrow> int \<Rightarrow> unit statement" where
  "delete_inventory item container db =
     (Inr (), db\<lparr>db_inventory := filter (\<lambda>(i, c). \<not> (i = item \<and> c = container)) (db_inventory db)\<rparr>)"

text \<open>The single row that holds the server's world id.\<close>

definition insert_server :: "int \<Rightarrow> unit statement" where
  "insert_server fresh db =
     (Inr (), case db_server db of None \<Rightarrow> db\<lparr>db_server := Some fresh\<rparr> | Some _ \<Rightarrow> db)"

definition select_server :: "int statement" where
  "select_server db = (case db_server db of None \<Rightarrow> Inl Sqlx | Some v \<Rightarrow> Inr v, db)"

text \<open>\<open>draw\<close> is the random 32-bit number the call draws.\<close>

definition world_id :: "u32 \<Rightarrow> world_id statement" where
  "world_id draw db =
     (case run_statement (insert_server (uint draw + 1)) db of
        (Inl e, db1) \<Rightarrow> (Inl e, db1)
      | (Inr _, db1) \<Rightarrow>
          (case run_statement select_server db1 of
             (Inl e, db2) \<Rightarrow> (Inl e, db2)
           | (Inr v, db2) \<Rightarrow> (bindE (nonzero_from_db v) (\<lambda>n. Inr (WorldId n)), db2)))"

section \<open>Transactions\<close>

text \<open>Begin, commit and rollback change no table; a transaction that ends otherwise is undone.\<close>

definition tx_mark :: "unit statement" where
  "tx_mark db = (Inr (), db)"

definition undone :: "tenant_db \<Rightarrow> tenant_db \<Rightarrow> tenant_db" where
  "undone before db = before\<lparr>db_clock := db_clock db\<rparr>"

fun andThen :: "'a statement \<Rightarrow> ('a \<Rightarrow> 'b statement) \<Rightarrow> 'b statement" where
  "andThen st f db = (case st db of (Inl e, db1) \<Rightarrow> (Inl e, db1) | (Inr x, db1) \<Rightarrow> f x db1)"

definition transaction :: "'a statement \<Rightarrow> 'a statement" where
  "transaction body db =
     (case run_statement tx_mark db of
        (Inl e, db1) \<Rightarrow> (Inl e, db1)
      | (Inr _, db1) \<Rightarrow>
          (case andThen body (\<lambda>x. andThen (run_statement tx_mark) (\<lambda>_ db2. (Inr x, db2))) db1 of
             (Inl e, db2) \<Rightarrow> (Inl e, undone db1 db2)
           | (Inr x, db2) \<Rightarrow> (Inr x, db2)))"

section \<open>The account repository\<close>

definition find_account :: "ustring \<Rightarrow> account_row option statement" where
  "find_account name db = (Inr (List.find (\<lambda>r. ar_username r = name) (db_accounts db)), db)"

text \<open>The insert of an account: \<open>None\<close> is the violation of UNIQUE on the username.\<close>

definition insert_account :: "ustring \<Rightarrow> ustring \<Rightarrow> int option statement" where
  "insert_account name hash db =
     (if list_ex (\<lambda>r. ar_username r = name) (db_accounts db) then (Inr None, db)
      else if i64_max \<le> db_account_seq db then (Inl Sqlx, db)
      else (let n = db_account_seq db + 1
            in (Inr (Some n), db\<lparr>db_account_seq := n, db_accounts := db_accounts db @
                  [\<lparr>ar_id = n, ar_username = name, ar_password_hash = hash, ar_state = lit ''active''\<rparr>]\<rparr>)))"

definition insert_puppet :: "int \<Rightarrow> int \<Rightarrow> ustring \<Rightarrow> unit statement" where
  "insert_puppet k account name db =
     (if k \<notin> set (db_entities db) \<or> \<not> list_ex (\<lambda>r. ar_id r = account) (db_accounts db)
          \<or> list_ex (\<lambda>r. pr_entity_key r = k) (db_puppets db) then (Inl Sqlx, db)
      else (Inr (), db\<lparr>db_puppets := db_puppets db @
              [\<lparr>pr_entity_key = k, pr_account_id = account, pr_name = name\<rparr>]\<rparr>))"

definition select_puppets :: "int \<Rightarrow> puppet_row list statement" where
  "select_puppets account db =
     (Inr (sort_key pr_entity_key (filter (\<lambda>r. pr_account_id r = account) (db_puppets db))), db)"

definition parse_state :: "ustring \<Rightarrow> db_error + account_state" where
  "parse_state raw = map_err (\<lambda>_. CorruptValue ''account state'' raw) (AccountState_from_str raw)"

definition parse_puppet_name :: "ustring \<Rightarrow> db_error + puppet_name" where
  "parse_puppet_name raw = map_err (\<lambda>_. CorruptValue ''puppet name'' raw) (PuppetName_parse raw)"

definition accounts_register :: "username \<Rightarrow> credential \<Rightarrow> (register_error + account) statement" where
  "accounts_register name cred db =
     (case run_statement (insert_account (username_str name) (phc cred)) db of
        (Inl e, db1) \<Rightarrow> (Inl e, db1)
      | (Inr None, db1) \<Rightarrow> (Inr (Inl RegisterUsernameTaken), db1)
      | (Inr (Some n), db1) \<Rightarrow>
          (bindE (account_id_from_db n) (\<lambda>a. Inr (Inr \<lparr>acc_id = a, acc_username = name, acc_state = Active\<rparr>)), db1))"

text \<open>
  \<open>verify\<close> is the check of a password against a stored hash (\<open>verify_phc\<close>); \<open>None\<close> is a failure of
  the blocking task it runs on.
\<close>

definition accounts_authenticate ::
  "(ustring \<Rightarrow> ustring \<Rightarrow> bool option) \<Rightarrow> username \<Rightarrow> ustring \<Rightarrow> (login_error + account) statement" where
  "accounts_authenticate verify name password db =
     (case run_statement (find_account (username_str name)) db of
        (Inl e, db1) \<Rightarrow> (Inl e, db1)
      | (Inr None, db1) \<Rightarrow> (Inr (Inl UnknownUser), db1)
      | (Inr (Some row), db1) \<Rightarrow>
          ((case verify (ar_password_hash row) password of
              None \<Rightarrow> Inl BlockingTask
            | Some False \<Rightarrow> Inr (Inl BadPassword)
            | Some True \<Rightarrow>
                bindE (parse_state (ar_state row)) (\<lambda>st.
                  case login_rejection st of
                    Some refused \<Rightarrow> Inr (Inl refused)
                  | None \<Rightarrow> bindE (account_id_from_db (ar_id row)) (\<lambda>a.
                      Inr (Inr \<lparr>acc_id = a, acc_username = name, acc_state = st\<rparr>)))), db1))"

definition create_puppet_rows :: "int \<Rightarrow> puppet_name \<Rightarrow> place_key \<Rightarrow> int statement" where
  "create_puppet_rows account name start =
     andThen (run_statement insert_entity) (\<lambda>k.
     andThen (run_statement (insert_puppet k account (puppet_name_str name))) (\<lambda>_.
     andThen (run_statement (insert_location k (place_key_str start))) (\<lambda>_ db. (Inr k, db))))"

definition accounts_create_puppet :: "account_id \<Rightarrow> puppet_name \<Rightarrow> place_key \<Rightarrow> puppet statement" where
  "accounts_create_puppet account name start db =
     (case account_id_to_db account of
        Inl e \<Rightarrow> (Inl e, db)
      | Inr a \<Rightarrow>
          (case transaction (create_puppet_rows a name start) db of
             (Inl e, db1) \<Rightarrow> (Inl e, db1)
           | (Inr k, db1) \<Rightarrow>
               (bindE (entity_key_from_db k) (\<lambda>key. Inr \<lparr>puppet_key = key, puppet_name = name\<rparr>), db1)))"

fun puppets_of_rows :: "puppet_row list \<Rightarrow> db_error + puppet list" where
  "puppets_of_rows [] = Inr []"
| "puppets_of_rows (r # rs) =
     bindE (entity_key_from_db (pr_entity_key r)) (\<lambda>k.
     bindE (parse_puppet_name (pr_name r)) (\<lambda>n.
     bindE (puppets_of_rows rs) (\<lambda>ps. Inr (\<lparr>puppet_key = k, puppet_name = n\<rparr> # ps))))"

definition accounts_puppets_of :: "account_id \<Rightarrow> puppet list statement" where
  "accounts_puppets_of account db =
     (case account_id_to_db account of
        Inl e \<Rightarrow> (Inl e, db)
      | Inr a \<Rightarrow>
          (case run_statement (select_puppets a) db of
             (Inl e, db1) \<Rightarrow> (Inl e, db1)
           | (Inr rows, db1) \<Rightarrow> (puppets_of_rows rows, db1)))"

end
