(* ===== verification/Repository.thy ===== *)
theory Repository
  imports Database
begin

text \<open>
  What the account repository of Database guarantees: a registered account can log in, and only
  with a password its hash verifies; a puppet is created whole or not at all; and what it does not
  guarantee, that a puppet's name is its own.
\<close>

section \<open>Registration and login\<close>

lemma find_some: "List.find P xs = Some x \<Longrightarrow> P x \<and> x \<in> set xs"
  by (induction xs) (auto split: if_splits)

lemma find_append: "\<not> list_ex P xs \<Longrightarrow> List.find P (xs @ ys) = List.find P ys"
  by (induction xs) auto

lemma accounts_register_done:
  assumes "accounts_register name cred db = (Inr (Inr acc), db')"
  obtains n where "\<not> list_ex (\<lambda>r. ar_username r = username_str name) (db_accounts db)"
    "account_id_from_db n = Inr (acc_id acc)" "acc = \<lparr>acc_id = acc_id acc, acc_username = name, acc_state = Active\<rparr>"
    "db_accounts db' = db_accounts db @
       [\<lparr>ar_id = n, ar_username = username_str name, ar_password_hash = phc cred, ar_state = lit ''active''\<rparr>]"
  using assms
  by (auto simp: accounts_register_def run_statement_def insert_account_def Let_def
      split: if_splits prod.splits sum.splits option.splits)

lemma parse_active: "parse_state (lit ''active'') = Inr Active"
  using AccountState_roundtrip [of Active] by (simp add: parse_state_def)

text \<open>
  C35. A new account can log in at once: after a registration succeeds, logging in with a
  password that the stored hash verifies yields the account the registration returned, and a
  password it does not verify is refused as a bad password.
\<close>

theorem registered_account_logs_in:
  assumes "accounts_register name cred db = (Inr (Inr acc), db1)" and "\<not> db_faults db1 (db_clock db1)"
    and "verify (phc cred) password = Some ok"
  shows "fst (accounts_authenticate verify name password db1) = Inr (if ok then Inr acc else Inl BadPassword)"
proof -
  obtain n where n: "\<not> list_ex (\<lambda>r. ar_username r = username_str name) (db_accounts db)"
      "account_id_from_db n = Inr (acc_id acc)" "acc = \<lparr>acc_id = acc_id acc, acc_username = name, acc_state = Active\<rparr>"
      "db_accounts db1 = db_accounts db @
         [\<lparr>ar_id = n, ar_username = username_str name, ar_password_hash = phc cred, ar_state = lit ''active''\<rparr>]"
    using assms(1) by (rule accounts_register_done)
  with assms(2,3) show ?thesis
    by (auto simp: accounts_authenticate_def run_statement_def find_account_def find_append parse_active)
qed

definition ann_db :: tenant_db where
  "ann_db = \<lparr>db_entities = [1], db_entity_seq = 1,
     db_accounts = [\<lparr>ar_id = 1, ar_username = lit ''ann'', ar_password_hash = lit ''h'', ar_state = lit ''active''\<rparr>],
     db_account_seq = 1, db_puppets = [\<lparr>pr_entity_key = 1, pr_account_id = 1, pr_name = lit ''Ann''\<rparr>],
     db_location = [(1, lit ''hall'')], db_inventory = [], db_server = None, db_faults = (\<lambda>_. False), db_clock = 0\<rparr>"

lemma registered_account_logs_in_witness:
  "\<exists>acc db1. accounts_register (Username (lit ''bob'')) (Credential (lit ''x'')) ann_db = (Inr (Inr acc), db1) \<and>
     fst (accounts_authenticate (\<lambda>h p. Some (h = p)) (Username (lit ''bob'')) (lit ''x'') db1) = Inr (Inr acc)"
proof -
  let ?db = "snd (accounts_register (Username (lit ''bob'')) (Credential (lit ''x'')) ann_db)"
  have r: "accounts_register (Username (lit ''bob'')) (Credential (lit ''x'')) ann_db =
      (Inr (Inr \<lparr>acc_id = AccountId 2, acc_username = Username (lit ''bob''), acc_state = Active\<rparr>), ?db)"
    "\<not> db_faults ?db (db_clock ?db)"
    by (simp_all add: accounts_register_def ann_db_def run_statement_def insert_account_def i64_max_def
        account_id_from_db_def nonzero_from_db_def lit_def)
  from registered_account_logs_in [OF r, of "\<lambda>h p. Some (h = p)" "lit ''x''" True] r(1) show ?thesis by auto
qed

section \<open>Puppets\<close>

definition puppet_added :: "int \<Rightarrow> puppet_name \<Rightarrow> place_key \<Rightarrow> tenant_db \<Rightarrow> tenant_db \<Rightarrow> bool" where
  "puppet_added a name start db db' \<longleftrightarrow>
     (let k = db_entity_seq db + 1
      in db' = db\<lparr>db_entities := db_entities db @ [k], db_entity_seq := k,
           db_puppets := db_puppets db @ [\<lparr>pr_entity_key = k, pr_account_id = a, pr_name = puppet_name_str name\<rparr>],
           db_location := AList.update k (place_key_str start) (db_location db), db_clock := db_clock db'\<rparr>)"

lemma create_puppet_cases:
  assumes "accounts_create_puppet account name start db = (r, db')" and "0 \<le> db_entity_seq db"
  obtains (failed) e where "r = Inl e" "db' = db\<lparr>db_clock := db_clock db'\<rparr>"
  | (created) p where "r = Inr p" "puppet_key p = EntityKey (word_of_int (db_entity_seq db + 1))"
      "puppet_added (uint (account_id_get account)) name start db db'" "db_entity_seq db < i64_max"
proof (cases "account_id_to_db account")
  case (Inl e)
  with assms show thesis by (intro failed) (auto simp: accounts_create_puppet_def)
next
  case (Inr a)
  then have a: "a = uint (account_id_get account)"
    by (auto simp: account_id_to_db_def nonzero_to_db_def split: if_splits)
  obtain r1 db1 where t: "transaction (create_puppet_rows a name start) db = (r1, db1)" by fastforce
  have k: "(\<exists>e. r1 = Inl e) \<and> db1 = db\<lparr>db_clock := db_clock db1\<rparr> \<or>
      r1 = Inr (db_entity_seq db + 1) \<and> puppet_added a name start db db1 \<and> db_entity_seq db < i64_max"
    using t
    by (auto simp: transaction_def create_puppet_rows_def run_statement_def tx_mark_def insert_entity_def
        insert_puppet_def insert_location_def undone_def puppet_added_def Let_def
        split: if_splits prod.splits sum.splits)
  have "entity_key_from_db (db_entity_seq db + 1) = Inr (EntityKey (word_of_int (db_entity_seq db + 1)))"
    using assms(2) by (simp add: entity_key_from_db_def nonzero_from_db_def)
  with assms(1) Inr t k a that show thesis
    by (cases r1) (auto simp: accounts_create_puppet_def)
qed

text \<open>
  C30. A puppet is created whole or not at all, whatever statement fails, the commit included: an
  error leaves every table as it was, and a success has added exactly the entity, its puppet row
  and its location row.
\<close>

theorem puppet_creation_atomic:
  assumes "accounts_create_puppet account name start db = (r, db')" and "0 \<le> db_entity_seq db"
  shows "(\<exists>e. r = Inl e) \<and> db' = db\<lparr>db_clock := db_clock db'\<rparr> \<or>
    (\<exists>p. r = Inr p) \<and> puppet_added (uint (account_id_get account)) name start db db'"
  using assms by (rule create_puppet_cases) auto

lemma puppet_creation_atomic_witness:
  "\<exists>p db'. accounts_create_puppet (AccountId 1) (PuppetName (lit ''Bo'')) (PlaceKey (lit ''hall'')) ann_db = (Inr p, db') \<and>
     puppet_added 1 (PuppetName (lit ''Bo'')) (PlaceKey (lit ''hall'')) ann_db db'"
proof -
  let ?r = "accounts_create_puppet (AccountId 1) (PuppetName (lit ''Bo'')) (PlaceKey (lit ''hall'')) ann_db"
  have "\<exists>p db'. ?r = (Inr p, db')"
    by (simp add: accounts_create_puppet_def account_id_to_db_def nonzero_to_db_def i64_max_def transaction_def
        create_puppet_rows_def run_statement_def tx_mark_def insert_entity_def insert_puppet_def
        insert_location_def ann_db_def Let_def entity_key_from_db_def nonzero_from_db_def)
  then obtain p db' where r: "?r = (Inr p, db')" by blast
  with puppet_creation_atomic [OF r] show ?thesis by (auto simp: ann_db_def)
qed

text \<open>
  A puppet's name is not its own: creating a puppet never looks at the names in use, so for an
  account that exists it succeeds also when a puppet of any account has the very same name, and
  the table then holds both.
\<close>

theorem taken_puppet_name_accepted:
  assumes "r \<in> set (db_puppets db)" and "pr_name r = puppet_name_str name"
    and "list_ex (\<lambda>q. ar_id q = uint (account_id_get account)) (db_accounts db)" and "\<forall>n. \<not> db_faults db n"
    and "uint (account_id_get account) \<le> i64_max" and "0 \<le> db_entity_seq db" and "db_entity_seq db < i64_max"
    and "\<forall>q \<in> set (db_puppets db). pr_entity_key q \<le> db_entity_seq db"
    and "\<forall>k \<in> fst ` set (db_location db). k \<le> db_entity_seq db"
  shows "\<exists>p db' q. accounts_create_puppet account name start db = (Inr p, db') \<and>
    {r, q} \<subseteq> set (db_puppets db') \<and> r \<noteq> q \<and> pr_name q = pr_name r"
proof -
  let ?k = "db_entity_seq db + 1" and ?a = "uint (account_id_get account)"
  have new: "\<not> list_ex (\<lambda>r. pr_entity_key r = ?k) (db_puppets db)" "map_of (db_location db) ?k = None"
    using assms(8,9) by (force simp: list_ex_iff map_of_eq_None_iff)+
  have a: "account_id_to_db account = Inr ?a"
    using assms(5) by (simp add: account_id_to_db_def nonzero_to_db_def)
  define q where "q = \<lparr>pr_entity_key = ?k, pr_account_id = ?a, pr_name = puppet_name_str name\<rparr>"
  have key: "entity_key_from_db ?k = Inr (EntityKey (word_of_int ?k))"
    using assms(6) by (simp add: entity_key_from_db_def nonzero_from_db_def)
  obtain db' where "transaction (create_puppet_rows ?a name start) db = (Inr ?k, db')"
      "db_puppets db' = db_puppets db @ [q]"
    using assms(3,4,7) new
    by (simp add: transaction_def create_puppet_rows_def run_statement_def tx_mark_def insert_entity_def
        insert_puppet_def insert_location_def Let_def q_def)
  then have "accounts_create_puppet account name start db = (Inr \<lparr>puppet_key = EntityKey (word_of_int ?k),
      puppet_name = name\<rparr>, db')" "{r, q} \<subseteq> set (db_puppets db')"
    using a key assms(1) by (simp_all add: accounts_create_puppet_def)
  moreover have "r \<noteq> q" using assms(1,8) by (auto simp: q_def)
  moreover have "pr_name q = pr_name r" using assms(2) by (simp add: q_def)
  ultimately show ?thesis by blast
qed

lemma taken_puppet_name_accepted_witness:
  "\<exists>p db' q. accounts_create_puppet (AccountId 1) (PuppetName (lit ''Ann'')) (PlaceKey (lit ''hall'')) ann_db = (Inr p, db') \<and>
     \<lparr>pr_entity_key = 1, pr_account_id = 1, pr_name = lit ''Ann''\<rparr> \<in> set (db_puppets db') \<and> q \<in> set (db_puppets db') \<and>
     q \<noteq> \<lparr>pr_entity_key = 1, pr_account_id = 1, pr_name = lit ''Ann''\<rparr> \<and> pr_name q = lit ''Ann''"
  using taken_puppet_name_accepted [of "\<lparr>pr_entity_key = 1, pr_account_id = 1, pr_name = lit ''Ann''\<rparr>" ann_db
      "PuppetName (lit ''Ann'')" "AccountId 1" "PlaceKey (lit ''hall'')"]
  by (simp add: ann_db_def i64_max_def) blast

section \<open>The world's identity\<close>

text \<open>
  The world id is drawn once: after one call has succeeded, every later one returns the same
  id whatever number it draws, as long as its statements do not fail.
\<close>

theorem world_id_is_stable:
  assumes "world_id d db = (Inr w, db1)" and "\<not> db_faults db1 (db_clock db1)" and "\<not> db_faults db1 (Suc (db_clock db1))"
  shows "\<exists>db2. world_id d' db1 = (Inr w, db2) \<and> db_server db2 = db_server db1"
  using assms
  by (auto simp: world_id_def run_statement_def insert_server_def select_server_def Let_def
      split: if_splits prod.splits sum.splits option.splits)

lemma world_id_is_stable_witness:
  "\<exists>db1 db2. world_id 6 ann_db = (Inr (WorldId 7), db1) \<and> world_id 9 db1 = (Inr (WorldId 7), db2)"
proof -
  have w: "world_id 6 ann_db = (Inr (WorldId 7), ann_db\<lparr>db_server := Some 7, db_clock := 2\<rparr>)"
    by (simp add: world_id_def run_statement_def insert_server_def select_server_def nonzero_from_db_def ann_db_def)
  from world_id_is_stable [OF w, of 9] w show ?thesis by (auto simp: ann_db_def)
qed

end
