(* ===== verification/Persistent.thy ===== *)
theory Persistent
  imports Database
begin

text \<open>
  The write-through world of crates/mud-db/src/sqlite/persistent_world.rs and the map between
  durable slugs and place handles (place_map.rs): the boot load from the tables, the apply of one
  command to memory and then to the database, the tick that stops at the first failed write, and
  the hydration of an entity created after boot. A panic of the in-memory world is \<open>None\<close>.
\<close>

section \<open>The place map\<close>

record place_map =
  pm_by_id :: "place_id \<rightharpoonup> place_key"
  pm_by_key :: "place_key \<rightharpoonup> place_id"

definition place_map_from_pairs :: "(place_id \<times> place_key) list \<Rightarrow> place_map" where
  "place_map_from_pairs pairs =
     foldl (\<lambda>m (i, k). m\<lparr>pm_by_id := (pm_by_id m)(i \<mapsto> k), pm_by_key := (pm_by_key m)(k \<mapsto> i)\<rparr>)
       \<lparr>pm_by_id = Map.empty, pm_by_key = Map.empty\<rparr> pairs"

definition place_id_for_slug :: "place_map \<Rightarrow> ustring \<Rightarrow> db_error + place_id" where
  "place_id_for_slug m slug =
     (case PlaceKey_parse slug of
        Inl _ \<Rightarrow> Inl (UnknownPlaceKey slug)
      | Inr k \<Rightarrow> ok_or (pm_by_key m k) (UnknownPlaceKey slug))"

section \<open>The world and its database\<close>

record persistent_world =
  pw_db :: tenant_db
  pw_world :: world
  pw_by_key :: "entity_key \<rightharpoonup> entity_id"
  pw_by_id :: "entity_id \<rightharpoonup> entity_key"
  pw_places :: place_map
  pw_scheduler :: scheduler

definition key_of :: "persistent_world \<Rightarrow> entity_id \<Rightarrow> db_error + entity_key" where
  "key_of pw e = ok_or (pw_by_id pw e) EntityNotMapped"

definition stored_key :: "persistent_world \<Rightarrow> entity_id \<Rightarrow> db_error + int" where
  "stored_key pw e = bindE (key_of pw e) entity_key_to_db"

definition map_resident :: "persistent_world \<Rightarrow> entity_key \<Rightarrow> entity_id \<Rightarrow> persistent_world" where
  "map_resident pw k e = pw\<lparr>pw_by_key := (pw_by_key pw)(k \<mapsto> e), pw_by_id := (pw_by_id pw)(e \<mapsto> k)\<rparr>"

section \<open>Applying a command\<close>

type_synonym 'a pw_result = "((db_error + 'a) \<times> persistent_world)"

definition apply_create :: "persistent_world \<Rightarrow> World.effect \<Rightarrow> tick_event option pw_result option" where
  "apply_create pw eff =
     (case run_statement tx_mark (pw_db pw) of
        (Inl e, db1) \<Rightarrow> Some (Inl e, pw\<lparr>pw_db := db1\<rparr>)
      | (Inr _, db1) \<Rightarrow>
     (case run_statement insert_entity db1 of
        (Inl e, db2) \<Rightarrow> Some (Inl e, pw\<lparr>pw_db := undone db1 db2\<rparr>)
      | (Inr row, db2) \<Rightarrow>
     (case entity_key_from_db row of
        Inl e \<Rightarrow> Some (Inl e, pw\<lparr>pw_db := undone db1 db2\<rparr>)
      | Inr key \<Rightarrow>
     (case create (pw_world pw) of
        None \<Rightarrow> None
      | Some (w, Inr e) \<Rightarrow>
          (case run_statement tx_mark db2 of
             (Inl err, db3) \<Rightarrow> Some (Inl err, pw\<lparr>pw_world := w, pw_db := undone db1 db3\<rparr>)
           | (Inr _, db3) \<Rightarrow>
               Some (Inr (Some (Created e)), map_resident (pw\<lparr>pw_world := w, pw_db := db3\<rparr>) key e))
      | Some (w, Inl refused) \<Rightarrow>
          (case run_statement tx_mark db2 of
             (Inl err, db3) \<Rightarrow> Some (Inl err, pw\<lparr>pw_world := w, pw_db := undone db1 db3\<rparr>)
           | (Inr _, db3) \<Rightarrow>
               Some (Inr (Some (Rejected eff refused)), pw\<lparr>pw_world := w, pw_db := undone db1 db3\<rparr>))))))"

definition persist :: "persistent_world \<Rightarrow> db_error + unit statement \<Rightarrow> tick_event option pw_result" where
  "persist pw r =
     (case r of
        Inl e \<Rightarrow> (Inl e, pw)
      | Inr st \<Rightarrow>
          (case run_statement st (pw_db pw) of
             (Inl e, db) \<Rightarrow> (Inl e, pw\<lparr>pw_db := db\<rparr>)
           | (Inr _, db) \<Rightarrow> (Inr None, pw\<lparr>pw_db := db\<rparr>)))"

definition persist_move :: "persistent_world \<Rightarrow> entity_id \<Rightarrow> place_id \<Rightarrow> tick_event option pw_result" where
  "persist_move pw e p =
     persist pw (bindE (stored_key pw e) (\<lambda>k.
       bindE (ok_or (pm_by_id (pw_places pw) p) PlaceNotMapped) (\<lambda>slug.
       Inr (upsert_location k (place_key_str slug)))))"

definition persist_clear_location :: "persistent_world \<Rightarrow> entity_id \<Rightarrow> tick_event option pw_result" where
  "persist_clear_location pw e =
     persist pw (bindE (stored_key pw e) (\<lambda>k. Inr (delete_location k)))"

definition persist_inventory_add ::
  "persistent_world \<Rightarrow> entity_id \<Rightarrow> entity_id \<Rightarrow> tick_event option pw_result" where
  "persist_inventory_add pw c i =
     persist pw (bindE (stored_key pw i) (\<lambda>item. bindE (stored_key pw c) (\<lambda>container.
       Inr (upsert_inventory item container))))"

definition persist_inventory_remove ::
  "persistent_world \<Rightarrow> entity_id \<Rightarrow> entity_id \<Rightarrow> tick_event option pw_result" where
  "persist_inventory_remove pw c i =
     persist pw (bindE (stored_key pw i) (\<lambda>item. bindE (stored_key pw c) (\<lambda>container.
       Inr (delete_inventory item container))))"

definition persist_teardown :: "persistent_world \<Rightarrow> entity_id \<Rightarrow> tick_event option pw_result" where
  "persist_teardown pw e =
     (case key_of pw e of
        Inl err \<Rightarrow> (Inl err, pw)
      | Inr key \<Rightarrow>
          (case persist pw (bindE (entity_key_to_db key) (\<lambda>k. Inr (delete_entity k))) of
             (Inl err, pw1) \<Rightarrow> (Inl err, pw1)
           | (Inr ev, pw1) \<Rightarrow>
               (Inr ev, pw1\<lparr>pw_by_key := (pw_by_key pw1)(key := None), pw_by_id := (pw_by_id pw1)(e := None)\<rparr>)))"

fun persist_effect :: "persistent_world \<Rightarrow> World.effect \<Rightarrow> tick_event option pw_result" where
  "persist_effect pw (MoveTo e p) = persist_move pw e p"
| "persist_effect pw (ClearLocation e) = persist_clear_location pw e"
| "persist_effect pw (InventoryAdd c i) = persist_inventory_add pw c i"
| "persist_effect pw (InventoryRemove c i) = persist_inventory_remove pw c i"
| "persist_effect pw (Teardown e) = persist_teardown pw e"
| "persist_effect pw Create = (Inl UnsupportedEffect, pw)"

definition apply_durable :: "persistent_world \<Rightarrow> mutation_command \<Rightarrow> tick_event option pw_result option" where
  "apply_durable pw c =
     (case (case cmd_precondition c of
              Some p \<Rightarrow> if satisfies (pw_world pw) p then None else Some p | None \<Rightarrow> None) of
        Some p \<Rightarrow> Some (Inr (Some (PreconditionFailed p (cmd_effect c))), pw)
      | None \<Rightarrow>
          if cmd_effect c = Create then apply_create pw (cmd_effect c)
          else (case apply_effect (pw_world pw) (cmd_effect c) of
                  None \<Rightarrow> None
                | Some (w, Some ev) \<Rightarrow> Some (Inr (Some ev), pw\<lparr>pw_world := w\<rparr>)
                | Some (w, None) \<Rightarrow> Some (persist_effect (pw\<lparr>pw_world := w\<rparr>) (cmd_effect c))))"

section \<open>Ticks\<close>

definition submit_durable :: "persistent_world \<Rightarrow> mutation_command \<Rightarrow> persistent_world" where
  "submit_durable pw c = pw\<lparr>pw_scheduler := submit (pw_scheduler pw) c\<rparr>"

fun apply_all :: "persistent_world \<Rightarrow> mutation_command list \<Rightarrow> tick_event list pw_result option" where
  "apply_all pw [] = Some (Inr [], pw)"
| "apply_all pw (c # cs) =
     (case apply_durable pw c of
        None \<Rightarrow> None
      | Some (Inl e, pw1) \<Rightarrow> Some (Inl e, pw1)
      | Some (Inr ev, pw1) \<Rightarrow>
          map_option (\<lambda>(r, pw2). (bindE r (\<lambda>evs. Inr ((case ev of None \<Rightarrow> [] | Some x \<Rightarrow> [x]) @ evs)), pw2))
            (apply_all pw1 cs))"

definition tick_durable :: "persistent_world \<Rightarrow> tick_event list pw_result option" where
  "tick_durable pw =
     (case drain (pw_scheduler pw) of (s, cs) \<Rightarrow> apply_all (pw\<lparr>pw_scheduler := s\<rparr>) cs)"

section \<open>Boot load and hydration\<close>

definition resolve_loaded :: "(entity_key \<rightharpoonup> entity_id) \<Rightarrow> int \<Rightarrow> db_error + entity_id" where
  "resolve_loaded by_key v =
     bindE (entity_key_from_db v) (\<lambda>k. ok_or (by_key k) (DanglingReference v))"

record loading =
  ld_world :: world
  ld_by_key :: "entity_key \<rightharpoonup> entity_id"
  ld_by_id :: "entity_id \<rightharpoonup> entity_key"

text \<open>The three loops of \<open>load\<close>; the outer option is a panic.\<close>

fun load_entities :: "loading \<Rightarrow> int list \<Rightarrow> (db_error + loading) option" where
  "load_entities l [] = Some (Inr l)"
| "load_entities l (row # rows) =
     (case entity_key_from_db row of
        Inl e \<Rightarrow> Some (Inl e)
      | Inr key \<Rightarrow>
          (case create (ld_world l) of
             None \<Rightarrow> None
           | Some (w, Inl refused) \<Rightarrow> Some (Inl (LoadArenaExhausted key refused))
           | Some (w, Inr e) \<Rightarrow>
               load_entities \<lparr>ld_world = w, ld_by_key = (ld_by_key l)(key \<mapsto> e), ld_by_id = (ld_by_id l)(e \<mapsto> key)\<rparr> rows))"

fun load_locations :: "place_map \<Rightarrow> loading \<Rightarrow> (int \<times> ustring) list \<Rightarrow> (db_error + loading) option" where
  "load_locations places l [] = Some (Inr l)"
| "load_locations places l ((k, slug) # rows) =
     (case bindE (resolve_loaded (ld_by_key l) k) (\<lambda>e. bindE (place_id_for_slug places slug) (\<lambda>p. Inr (e, p))) of
        Inl err \<Rightarrow> Some (Inl err)
      | Inr (e, p) \<Rightarrow>
          (case move_to (ld_world l) e p of
             None \<Rightarrow> None
           | Some (w, Inl _) \<Rightarrow> Some (Inl (DanglingReference k))
           | Some (w, Inr _) \<Rightarrow> load_locations places (l\<lparr>ld_world := w\<rparr>) rows))"

fun load_inventory :: "loading \<Rightarrow> (int \<times> int) list \<Rightarrow> (db_error + loading) option" where
  "load_inventory l [] = Some (Inr l)"
| "load_inventory l ((item, container) # rows) =
     (case bindE (resolve_loaded (ld_by_key l) item) (\<lambda>i. bindE (resolve_loaded (ld_by_key l) container) (\<lambda>c. Inr (i, c))) of
        Inl err \<Rightarrow> Some (Inl err)
      | Inr (i, c) \<Rightarrow>
          (case inventory_add (ld_world l) c i of
             None \<Rightarrow> None
           | Some (w, Inl _) \<Rightarrow> Some (Inl (DanglingReference item))
           | Some (w, Inr _) \<Rightarrow> load_inventory (l\<lparr>ld_world := w\<rparr>) rows))"

text \<open>The database is shared with its other users, so its state after the load is returned too.\<close>

definition load :: "tenant_db \<Rightarrow> tenant_tag \<Rightarrow> place_map \<Rightarrow> ((db_error + persistent_world) \<times> tenant_db) option" where
  "load db0 t places =
     (case run_statement select_entities db0 of
        (Inl e, db1) \<Rightarrow> Some (Inl e, db1)
      | (Inr rows, db1) \<Rightarrow>
     (case load_entities \<lparr>ld_world = world_new t, ld_by_key = Map.empty, ld_by_id = Map.empty\<rparr> rows of
        None \<Rightarrow> None
      | Some (Inl e) \<Rightarrow> Some (Inl e, db1)
      | Some (Inr l1) \<Rightarrow>
     (case run_statement select_locations db1 of
        (Inl e, db2) \<Rightarrow> Some (Inl e, db2)
      | (Inr locs, db2) \<Rightarrow>
     (case load_locations places l1 locs of
        None \<Rightarrow> None
      | Some (Inl e) \<Rightarrow> Some (Inl e, db2)
      | Some (Inr l2) \<Rightarrow>
     (case run_statement select_inventory db2 of
        (Inl e, db3) \<Rightarrow> Some (Inl e, db3)
      | (Inr items, db3) \<Rightarrow>
     (case load_inventory l2 items of
        None \<Rightarrow> None
      | Some (Inl e) \<Rightarrow> Some (Inl e, db3)
      | Some (Inr l3) \<Rightarrow>
          Some (Inr \<lparr>pw_db = db3, pw_world = ld_world l3, pw_by_key = ld_by_key l3, pw_by_id = ld_by_id l3,
                     pw_places = places, pw_scheduler = scheduler_new\<rparr>, db3)))))))"

definition hydrate :: "persistent_world \<Rightarrow> entity_key \<Rightarrow> entity_id pw_result option" where
  "hydrate pw key =
     (case pw_by_key pw key of
        Some e \<Rightarrow> Some (Inr e, pw)
      | None \<Rightarrow>
     (case entity_key_to_db key of
        Inl err \<Rightarrow> Some (Inl err, pw)
      | Inr k \<Rightarrow>
     (case run_statement (select_entity k) (pw_db pw) of
        (Inl err, db1) \<Rightarrow> Some (Inl err, pw\<lparr>pw_db := db1\<rparr>)
      | (Inr False, db1) \<Rightarrow> Some (Inl (DanglingReference k), pw\<lparr>pw_db := db1\<rparr>)
      | (Inr True, db1) \<Rightarrow>
     (case create (pw_world pw) of
        None \<Rightarrow> None
      | Some (w, Inl refused) \<Rightarrow> Some (Inl (LoadArenaExhausted key refused), pw\<lparr>pw_world := w, pw_db := db1\<rparr>)
      | Some (w, Inr e) \<Rightarrow>
          (let pw1 = map_resident (pw\<lparr>pw_world := w, pw_db := db1\<rparr>) key e in
           (case run_statement (select_location k) db1 of
              (Inl err, db2) \<Rightarrow> Some (Inl err, pw1\<lparr>pw_db := db2\<rparr>)
            | (Inr None, db2) \<Rightarrow> Some (Inr e, pw1\<lparr>pw_db := db2\<rparr>)
            | (Inr (Some slug), db2) \<Rightarrow>
                (case place_id_for_slug (pw_places pw) slug of
                   Inl err \<Rightarrow> Some (Inl err, pw1\<lparr>pw_db := db2\<rparr>)
                 | Inr p \<Rightarrow>
                     (case move_to w e p of
                        None \<Rightarrow> None
                      | Some (w2, Inl _) \<Rightarrow> Some (Inl (DanglingReference k), pw1\<lparr>pw_db := db2, pw_world := w2\<rparr>)
                      | Some (w2, Inr _) \<Rightarrow> Some (Inr e, pw1\<lparr>pw_db := db2, pw_world := w2\<rparr>)))))))))"

end
