(* ===== verification/Durable.thy ===== *)
theory Durable
  imports Persistent
begin

text \<open>
  What the persistent world guarantees: the tables stay consistent whatever statements fail; while
  none fails, the database mirrors the world in memory, and a world loaded from it has the same
  entities at the same places.
\<close>

section \<open>Consistent tables\<close>

definition db_ok :: "tenant_db \<Rightarrow> bool" where
  "db_ok db \<longleftrightarrow>
     distinct (db_entities db) \<and> (\<forall>k \<in> set (db_entities db). 0 < k \<and> k \<le> db_entity_seq db) \<and>
     0 \<le> db_entity_seq db \<and> db_entity_seq db \<le> i64_max \<and>
     distinct (map fst (db_location db)) \<and> fst ` set (db_location db) \<subseteq> set (db_entities db) \<and>
     distinct (map fst (db_inventory db)) \<and> fst ` set (db_inventory db) \<subseteq> set (db_entities db) \<and>
     snd ` set (db_inventory db) \<subseteq> set (db_entities db)"

lemma db_okD:
  assumes "db_ok db"
  shows "distinct (db_entities db)" and "k \<in> set (db_entities db) \<Longrightarrow> 0 < k"
    and "k \<in> set (db_entities db) \<Longrightarrow> k \<le> db_entity_seq db" and "k \<in> set (db_entities db) \<Longrightarrow> k \<le> i64_max"
    and "distinct (map fst (db_location db))" and "fst ` set (db_location db) \<subseteq> set (db_entities db)"
    and "distinct (map fst (db_inventory db))" and "fst ` set (db_inventory db) \<subseteq> set (db_entities db)"
    and "snd ` set (db_inventory db) \<subseteq> set (db_entities db)" and "0 \<le> db_entity_seq db"
  using assms by (auto simp: db_ok_def dest: order_trans)

lemma db_ok_clock [simp]: "db_ok (db\<lparr>db_clock := n\<rparr>) = db_ok db"
  by (simp add: db_ok_def)

lemma db_ok_undone [simp]: "db_ok (undone db db') = db_ok db"
  by (simp add: undone_def)

definition keeps_tables :: "'a statement \<Rightarrow> bool" where
  "keeps_tables st \<longleftrightarrow> (\<forall>db. db_ok db \<longrightarrow> db_ok (snd (st db)))"

lemma keeps_run: "keeps_tables st \<Longrightarrow> db_ok db \<Longrightarrow> run_statement st db = (r, db') \<Longrightarrow> db_ok db'"
  by (auto simp: keeps_tables_def run_statement_def Let_def split: if_splits)
    (metis db_ok_clock snd_conv)

lemma alist_update_values:
  "(a, b) \<in> set (AList.update k v xs) \<Longrightarrow> v \<in> E \<Longrightarrow> snd ` set xs \<subseteq> E \<Longrightarrow> b \<in> E"
  by (induction xs) (auto split: if_splits)

lemma keeps_statements:
  "keeps_tables insert_entity" "keeps_tables (delete_entity k)" "keeps_tables (upsert_location k slug)"
  "keeps_tables (delete_location k)" "keeps_tables (upsert_inventory i c)"
  "keeps_tables (delete_inventory i c)" "keeps_tables tx_mark" "keeps_tables (select_entity k)"
  "keeps_tables (select_location k)"
proof -
  show "keeps_tables insert_entity"
    by (force simp: keeps_tables_def insert_entity_def db_ok_def Let_def)
  show "keeps_tables (delete_entity k)"
    by (auto simp: keeps_tables_def delete_entity_def db_ok_def distinct_map_filter delete_keys
        distinct_removeAll AList.delete_eq image_iff)
  show "keeps_tables (upsert_location k slug)"
    by (auto simp: keeps_tables_def upsert_location_def db_ok_def distinct_update dom_update)
  show "keeps_tables (delete_location k)"
    by (auto simp: keeps_tables_def delete_location_def db_ok_def distinct_map_filter AList.delete_eq)
  show "keeps_tables (upsert_inventory i c)"
    by (auto simp: keeps_tables_def upsert_inventory_def db_ok_def distinct_update dom_update
        intro: alist_update_values)
  show "keeps_tables (delete_inventory i c)"
    by (auto simp: keeps_tables_def delete_inventory_def db_ok_def distinct_map_filter)
qed (auto simp: keeps_tables_def tx_mark_def select_entity_def select_location_def)

text \<open>The row keys of an entity key, and the statements when nothing fails.\<close>

abbreviation row_of :: "entity_key \<Rightarrow> int" where
  "row_of k \<equiv> uint (ekey_get k)"

lemma row_of_inj: "row_of k = row_of k' \<longleftrightarrow> k = k'"
  by (cases k; cases k') (simp add: word_uint_eq_iff)

lemma entity_key_from_db_ok: "entity_key_from_db v = Inr k \<longleftrightarrow> 0 < v \<and> k = EntityKey (word_of_int v)"
  by (auto simp: entity_key_from_db_def nonzero_from_db_def)

lemma entity_key_from_row [simp]: "0 < row_of k \<Longrightarrow> entity_key_from_db (row_of k) = Inr k"
  by (cases k) (simp add: entity_key_from_db_ok)

lemma entity_key_to_row [simp]: "row_of k \<le> i64_max \<Longrightarrow> entity_key_to_db k = Inr (row_of k)"
  by (simp add: entity_key_to_db_def nonzero_to_db_def)

lemma row_of_word: "0 < v \<Longrightarrow> v \<le> i64_max \<Longrightarrow> row_of (EntityKey (word_of_int v)) = v"
  by (simp add: i64_max_def uint_word_of_int_eq take_bit_int_eq_self)

definition fault_free :: "tenant_db \<Rightarrow> bool" where
  "fault_free db \<longleftrightarrow> (\<forall>n. \<not> db_faults db n)"

lemma run_fault_free: "fault_free db \<Longrightarrow> run_statement st db = st (db\<lparr>db_clock := Suc (db_clock db)\<rparr>)"
  by (simp add: run_statement_def fault_free_def)

lemma fault_free_simps [simp]:
  "fault_free (db\<lparr>db_clock := n\<rparr>) = fault_free db"
  "fault_free (db\<lparr>db_entities := es\<rparr>) = fault_free db"
  "fault_free (db\<lparr>db_entity_seq := q\<rparr>) = fault_free db"
  "fault_free (db\<lparr>db_location := ls\<rparr>) = fault_free db"
  "fault_free (db\<lparr>db_inventory := is\<rparr>) = fault_free db"
  "fault_free (db\<lparr>db_puppets := ps\<rparr>) = fault_free db"
  "fault_free (undone db db') = fault_free db"
  by (simp_all add: fault_free_def undone_def)

section \<open>A failure never damages the tables\<close>

lemma apply_create_tables:
  assumes "db_ok (pw_db pw)" and "apply_create pw eff = Some (r, pw')"
  shows "db_ok (pw_db pw')"
proof -
  obtain r1 db1 where s1: "run_statement tx_mark (pw_db pw) = (r1, db1)" by fastforce
  have ok1: "db_ok db1" using keeps_run [OF keeps_statements(7) assms(1) s1] .
  obtain r2 db2 where s2: "run_statement insert_entity db1 = (r2, db2)" by fastforce
  have ok2: "db_ok db2" using keeps_run [OF keeps_statements(1) ok1 s2] .
  obtain r3 db3 where s3: "run_statement tx_mark db2 = (r3, db3)" by fastforce
  have ok3: "db_ok db3" using keeps_run [OF keeps_statements(7) ok2 s3] .
  from assms(2) show ?thesis using ok1 ok2 ok3
    by (auto simp: apply_create_def s1 s2 s3 map_resident_def split: sum.splits option.splits)
qed

lemma persist_tables:
  assumes "db_ok (pw_db pw)" and "\<And>st. r = Inr st \<Longrightarrow> keeps_tables st" and "persist pw r = (r', pw')"
  shows "db_ok (pw_db pw')"
proof (cases r)
  case (Inr st)
  obtain r2 db where s: "run_statement st (pw_db pw) = (r2, db)" by fastforce
  with assms keeps_run [OF assms(2) [OF Inr] assms(1) s] Inr show ?thesis
    by (auto simp: persist_def split: sum.splits)
qed (use assms in \<open>simp add: persist_def\<close>)

lemma persist_effect_tables:
  assumes "db_ok (pw_db pw)" and "persist_effect pw eff = (r, pw')"
  shows "db_ok (pw_db pw')"
proof (cases eff)
  case (Teardown e)
  have keep: "db_ok (pw_db pw1)" if "persist pw (bindE (entity_key_to_db key) (\<lambda>k. Inr (delete_entity k))) = (r1, pw1)"
    for key r1 pw1
    using assms(1) _ that by (rule persist_tables) (auto simp: keeps_statements)
  with Teardown assms show ?thesis by (auto simp: persist_teardown_def split: sum.splits prod.splits)
next
  case (MoveTo e p)
  show ?thesis
    by (rule persist_tables [OF assms(1) _ assms(2) [unfolded MoveTo persist_effect.simps persist_move_def]])
      (auto simp: keeps_statements)
next
  case (ClearLocation e)
  show ?thesis
    by (rule persist_tables [OF assms(1) _ assms(2) [unfolded ClearLocation persist_effect.simps persist_clear_location_def]])
      (auto simp: keeps_statements)
next
  case (InventoryAdd c i)
  show ?thesis
    by (rule persist_tables [OF assms(1) _ assms(2) [unfolded InventoryAdd persist_effect.simps persist_inventory_add_def]])
      (auto simp: keeps_statements)
next
  case (InventoryRemove c i)
  show ?thesis
    by (rule persist_tables [OF assms(1) _ assms(2) [unfolded InventoryRemove persist_effect.simps persist_inventory_remove_def]])
      (auto simp: keeps_statements)
qed (use assms in simp)

lemma apply_durable_tables:
  assumes "db_ok (pw_db pw)" and "apply_durable pw c = Some (r, pw')"
  shows "db_ok (pw_db pw')"
  using assms(2) apply_create_tables [OF assms(1)] persist_effect_tables [of "pw\<lparr>pw_world := w\<rparr>" for w] assms(1)
  by (auto simp: apply_durable_def split: option.splits if_splits)

lemma apply_all_tables:
  "db_ok (pw_db pw) \<Longrightarrow> apply_all pw cs = Some (r, pw') \<Longrightarrow> db_ok (pw_db pw')"
proof (induction cs arbitrary: pw r)
  case (Cons c cs)
  obtain r1 pw1 where s: "apply_durable pw c = Some (r1, pw1)"
    using Cons.prems(2) by (auto split: option.splits)
  have "db_ok (pw_db pw1)" using apply_durable_tables [OF Cons.prems(1) s] .
  with Cons s show ?case by (cases r1) auto
qed simp

section \<open>The database mirrors memory\<close>

definition places_ok :: "place_map \<Rightarrow> bool" where
  "places_ok m \<longleftrightarrow>
     (\<forall>p s. pm_by_id m p = Some s \<longleftrightarrow> pm_by_key m s = Some p) \<and>
     (\<forall>p s. pm_by_id m p = Some s \<longrightarrow> PlaceKey_parse (place_key_str s) = Inr s)"

definition slug_of :: "place_map \<Rightarrow> place_id \<Rightarrow> ustring" where
  "slug_of m p = place_key_str (the (pm_by_id m p))"

definition resident :: "persistent_world \<Rightarrow> entity_id \<Rightarrow> entity_key \<Rightarrow> bool" where
  "resident pw e k \<longleftrightarrow> pw_by_id pw e = Some k"

text \<open>
  The live handles and the keys they are mapped to are in bijection, each key has its row, and the
  location row of each key is the place of its handle. The inventory rows are between resident
  entities, and each is a containment in memory, up to the slot by which memory knows an item.
\<close>

definition mirrors :: "persistent_world \<Rightarrow> bool" where
  "mirrors pw \<longleftrightarrow>
     world_inv (pw_world pw) \<and> db_ok (pw_db pw) \<and> places_ok (pw_places pw) \<and>
     (\<forall>k e. pw_by_key pw k = Some e \<longleftrightarrow> resident pw e k) \<and>
     (\<forall>e. live (pw_world pw) e \<longleftrightarrow> pw_by_id pw e \<noteq> None) \<and>
     (\<forall>e k. resident pw e k \<longrightarrow> row_of k \<in> set (db_entities (pw_db pw)) \<and>
        map_of (db_location (pw_db pw)) (row_of k) = map_option (slug_of (pw_places pw)) (location_of (pw_world pw) e)) \<and>
     (\<forall>e p. location_of (pw_world pw) e = Some p \<longrightarrow> pm_by_id (pw_places pw) p \<noteq> None) \<and>
     (\<forall>k s. (k, s) \<in> set (db_location (pw_db pw)) \<longrightarrow> (\<exists>p. place_id_for_slug (pw_places pw) s = Inr p)) \<and>
     (\<forall>i c. (i, c) \<in> set (db_inventory (pw_db pw)) \<longrightarrow>
        (\<exists>ei ec ki kc. resident pw ei ki \<and> resident pw ec kc \<and> row_of ki = i \<and> row_of kc = c \<and>
           id_slot ei \<in> id_slot ` set (inventory_of (pw_world pw) ec)))"

lemma mirrorsD:
  assumes "mirrors pw"
  shows "world_inv (pw_world pw)" and "db_ok (pw_db pw)" and "places_ok (pw_places pw)"
    and "pw_by_key pw k = Some e \<longleftrightarrow> resident pw e k"
    and "live (pw_world pw) e \<longleftrightarrow> pw_by_id pw e \<noteq> None"
    and "resident pw e k \<Longrightarrow> row_of k \<in> set (db_entities (pw_db pw))"
    and "resident pw e k \<Longrightarrow> map_of (db_location (pw_db pw)) (row_of k) =
      map_option (slug_of (pw_places pw)) (location_of (pw_world pw) e)"
    and "location_of (pw_world pw) e = Some p \<Longrightarrow> pm_by_id (pw_places pw) p \<noteq> None"
    and "(r, s) \<in> set (db_location (pw_db pw)) \<Longrightarrow> \<exists>p. place_id_for_slug (pw_places pw) s = Inr p"
    and "(i, c) \<in> set (db_inventory (pw_db pw)) \<Longrightarrow>
      \<exists>ei ec ki kc. resident pw ei ki \<and> resident pw ec kc \<and> row_of ki = i \<and> row_of kc = c \<and>
        id_slot ei \<in> id_slot ` set (inventory_of (pw_world pw) ec)"
  using assms unfolding mirrors_def by blast+

lemma resident_unique: "mirrors pw \<Longrightarrow> resident pw e k \<Longrightarrow> resident pw e' k \<longleftrightarrow> e' = e"
  using mirrorsD(4) [of pw k] by (metis option.inject)

lemma slug_for_place:
  assumes "places_ok m" and "pm_by_id m p = Some s"
  shows "place_id_for_slug m (slug_of m p) = Inr p"
proof -
  have "PlaceKey_parse (place_key_str s) = Inr s" "pm_by_key m s = Some p"
    using assms by (auto simp: places_ok_def)
  then show ?thesis by (simp add: place_id_for_slug_def slug_of_def assms(2))
qed

text \<open>What a live handle's key gives the statements.\<close>

lemma live_key:
  assumes "mirrors pw" and "live (pw_world pw) e"
  obtains k where "resident pw e k" "key_of pw e = Inr k" "stored_key pw e = Inr (row_of k)"
    "row_of k \<in> set (db_entities (pw_db pw))" "entity_key_to_db k = Inr (row_of k)"
proof -
  obtain k where k: "pw_by_id pw e = Some k" using assms mirrorsD(5) by blast
  have r: "row_of k \<in> set (db_entities (pw_db pw))"
    using mirrorsD(6) [OF assms(1), of e k] k by (simp add: resident_def)
  have "row_of k \<le> i64_max" using db_okD(4) [OF mirrorsD(2) [OF assms(1)] r] .
  with k r show thesis by (intro that [of k]) (simp_all add: resident_def key_of_def stored_key_def)
qed

text \<open>The effects that a fault-free database can always record.\<close>

fun storable :: "persistent_world \<Rightarrow> World.effect \<Rightarrow> bool" where
  "storable pw Create = (db_entity_seq (pw_db pw) < i64_max)"
| "storable pw (MoveTo e p) = (pm_by_id (pw_places pw) p \<noteq> None)"
| "storable pw (InventoryRemove c i) = live (pw_world pw) i"
| "storable pw _ = True"

lemma effect_live:
  assumes "world_inv w" and "eff \<noteq> Create" and "effect_handles eff \<subseteq> {e. live w e}"
  obtains w' where "apply_effect w eff = Some (w', None)" "world_inv w'"
    "world_view w' = view_apply (world_view w) eff"
proof -
  obtain w' ev where ap: "apply_effect w eff = Some (w', ev)" "world_inv w'"
    using apply_effect_ok [OF assms(1)] by blast
  have "ev = None \<and> world_view w' = view_apply (world_view w) eff"
    using step_view_apply [OF effect_refines_contract [OF assms(1) ap(1)] assms(2)] assms(3) by simp
  with ap show thesis by (intro that [of w']) auto
qed

lemma view_sels:
  assumes "world_view w' = k"
  shows "live w' e \<longleftrightarrow> e \<in> k_live k" "location_of w' = k_at k" "inventory_of w' = k_items k"
  using assms by (auto simp: world_view_def)

lemma keys_of_world [simp]:
  "stored_key (pw\<lparr>pw_world := w\<rparr>) e = stored_key pw e" "key_of (pw\<lparr>pw_world := w\<rparr>) e = key_of pw e"
  by (simp_all add: stored_key_def key_of_def)

lemma persist_done:
  assumes "fault_free (pw_db pw)" and "st (pw_db pw\<lparr>db_clock := Suc (db_clock (pw_db pw))\<rparr>) = (Inr (), db)"
  shows "persist pw (Inr st) = (Inr None, pw\<lparr>pw_db := db\<rparr>)"
  using assms by (simp add: persist_def run_fault_free)

text \<open>A change of the world and of the tables that leaves the handles and the entity rows alone.\<close>

lemma mirrors_update:
  assumes m: "mirrors pw" and w: "world_inv w" "\<And>e. live w e \<longleftrightarrow> live (pw_world pw) e"
    and db: "db_ok db" "db_entities db = db_entities (pw_db pw)"
    and loc: "\<And>e k. resident pw e k \<Longrightarrow>
      map_of (db_location db) (row_of k) = map_option (slug_of (pw_places pw)) (location_of w e)"
    and mapped: "\<And>e p. location_of w e = Some p \<Longrightarrow> pm_by_id (pw_places pw) p \<noteq> None"
    and known: "\<And>r s. (r, s) \<in> set (db_location db) \<Longrightarrow> \<exists>p. place_id_for_slug (pw_places pw) s = Inr p"
    and inv: "\<And>i c. (i, c) \<in> set (db_inventory db) \<Longrightarrow>
      \<exists>ei ec ki kc. resident pw ei ki \<and> resident pw ec kc \<and> row_of ki = i \<and> row_of kc = c \<and>
        id_slot ei \<in> id_slot ` set (inventory_of w ec)"
  shows "mirrors (pw\<lparr>pw_world := w, pw_db := db\<rparr>)"
proof -
  have r: "resident (pw\<lparr>pw_world := w, pw_db := db\<rparr>) = resident pw"
    by (intro ext) (simp add: resident_def)
  show ?thesis
    unfolding mirrors_def r
    using w db(1) mirrorsD(3,4,5,6) [OF m] loc mapped known inv by (simp add: db(2))
qed

lemma move_mirrors:
  assumes m: "mirrors pw" and ff: "fault_free (pw_db pw)" and l: "live (pw_world pw) e"
    and p: "pm_by_id (pw_places pw) p = Some s"
    and w: "world_inv w" "world_view w = view_apply (world_view (pw_world pw)) (MoveTo e p)"
  obtains db where "persist_move (pw\<lparr>pw_world := w\<rparr>) e p = (Inr None, pw\<lparr>pw_world := w, pw_db := db\<rparr>)"
    and "mirrors (pw\<lparr>pw_world := w, pw_db := db\<rparr>)" and "fault_free db"
proof -
  obtain k where k: "resident pw e k" "stored_key pw e = Inr (row_of k)" "row_of k \<in> set (db_entities (pw_db pw))"
    using live_key [OF m l] by metis
  define db where "db = (pw_db pw)\<lparr>db_clock := Suc (db_clock (pw_db pw)),
    db_location := AList.update (row_of k) (place_key_str s) (db_location (pw_db pw))\<rparr>"
  have st: "upsert_location (row_of k) (place_key_str s) (pw_db pw\<lparr>db_clock := Suc (db_clock (pw_db pw))\<rparr>) = (Inr (), db)"
    using k(3) by (simp add: upsert_location_def db_def)
  have ok: "db_ok db"
    using keeps_statements(3) mirrorsD(2) [OF m] st unfolding keeps_tables_def by (metis db_ok_clock snd_conv)
  have views: "live w e' \<longleftrightarrow> live (pw_world pw) e'" "location_of w = (location_of (pw_world pw))(e := Some p)"
      "inventory_of w = inventory_of (pw_world pw)" for e'
    using view_sels [OF w(2)] by simp_all
  have known: "\<exists>q. place_id_for_slug (pw_places pw) u = Inr q" if "(r, u) \<in> set (db_location db)" for r u
  proof (cases "(r, u) \<in> set (db_location (pw_db pw))")
    case False
    have "map_of (db_location db) r = Some u" using db_okD(5) [OF ok] that by simp
    moreover have "map_of (db_location (pw_db pw)) r \<noteq> Some u" using False db_okD(5) [OF mirrorsD(2) [OF m]] by simp
    ultimately have "u = slug_of (pw_places pw) p" by (auto simp: db_def update_conv' slug_of_def p split: if_splits)
    then show ?thesis using slug_for_place [OF mirrorsD(3) [OF m] p] by blast
  qed (use mirrorsD(9) [OF m] in blast)
  have "mirrors (pw\<lparr>pw_world := w, pw_db := db\<rparr>)"
  proof (rule mirrors_update [OF m w(1) views(1) ok])
    fix e' k' assume r: "resident pw e' k'"
    then show "map_of (db_location db) (row_of k') = map_option (slug_of (pw_places pw)) (location_of w e')"
      using mirrorsD(7) [OF m r] k(1) resident_unique [OF m] p
      by (auto simp: db_def update_conv' views slug_of_def row_of_inj resident_def)
  qed (use mirrorsD(8,10) [OF m] known p in \<open>auto simp: views db_def split: if_splits\<close>)
  moreover have "persist_move (pw\<lparr>pw_world := w\<rparr>) e p = (Inr None, pw\<lparr>pw_world := w, pw_db := db\<rparr>)"
    using ff st by (simp add: persist_move_def k(2) p persist_done)
  ultimately show thesis using that [of db] ff by (simp add: db_def)
qed

lemma clear_mirrors:
  assumes m: "mirrors pw" and ff: "fault_free (pw_db pw)" and l: "live (pw_world pw) e"
    and w: "world_inv w" "world_view w = view_apply (world_view (pw_world pw)) (ClearLocation e)"
  obtains db where "persist_clear_location (pw\<lparr>pw_world := w\<rparr>) e = (Inr None, pw\<lparr>pw_world := w, pw_db := db\<rparr>)"
    and "mirrors (pw\<lparr>pw_world := w, pw_db := db\<rparr>)" and "fault_free db"
proof -
  obtain k where k: "resident pw e k" "stored_key pw e = Inr (row_of k)"
    using live_key [OF m l] by metis
  define db where "db = (pw_db pw)\<lparr>db_clock := Suc (db_clock (pw_db pw)),
    db_location := AList.delete (row_of k) (db_location (pw_db pw))\<rparr>"
  have st: "delete_location (row_of k) (pw_db pw\<lparr>db_clock := Suc (db_clock (pw_db pw))\<rparr>) = (Inr (), db)"
    by (simp add: delete_location_def db_def)
  have ok: "db_ok db"
    using keeps_statements(4) mirrorsD(2) [OF m] st unfolding keeps_tables_def by (metis db_ok_clock snd_conv)
  have views: "live w e' \<longleftrightarrow> live (pw_world pw) e'" "location_of w = (location_of (pw_world pw))(e := None)"
      "inventory_of w = inventory_of (pw_world pw)" for e'
    using view_sels [OF w(2)] by simp_all
  have "mirrors (pw\<lparr>pw_world := w, pw_db := db\<rparr>)"
  proof (rule mirrors_update [OF m w(1) views(1) ok])
    fix e' k' assume r: "resident pw e' k'"
    then show "map_of (db_location db) (row_of k') = map_option (slug_of (pw_places pw)) (location_of w e')"
      using mirrorsD(7) [OF m r] k(1) resident_unique [OF m]
      by (auto simp: db_def delete_conv' views row_of_inj resident_def)
  qed (use mirrorsD(8,9,10) [OF m] in \<open>auto simp: views db_def AList.delete_eq split: if_splits\<close>)
  moreover have "persist_clear_location (pw\<lparr>pw_world := w\<rparr>) e = (Inr None, pw\<lparr>pw_world := w, pw_db := db\<rparr>)"
    using ff st by (simp add: persist_clear_location_def k(2) persist_done)
  ultimately show thesis using that [of db] ff by (simp add: db_def)
qed

lemma add_mirrors:
  assumes m: "mirrors pw" and ff: "fault_free (pw_db pw)" and l: "live (pw_world pw) c" "live (pw_world pw) i"
    and w: "world_inv w" "world_view w = view_apply (world_view (pw_world pw)) (InventoryAdd c i)"
  obtains db where "persist_inventory_add (pw\<lparr>pw_world := w\<rparr>) c i = (Inr None, pw\<lparr>pw_world := w, pw_db := db\<rparr>)"
    and "mirrors (pw\<lparr>pw_world := w, pw_db := db\<rparr>)" and "fault_free db"
proof -
  obtain kc where kc: "resident pw c kc" "stored_key pw c = Inr (row_of kc)" "row_of kc \<in> set (db_entities (pw_db pw))"
    using live_key [OF m l(1)] by metis
  obtain ki where ki: "resident pw i ki" "stored_key pw i = Inr (row_of ki)" "row_of ki \<in> set (db_entities (pw_db pw))"
    using live_key [OF m l(2)] by metis
  define db where "db = (pw_db pw)\<lparr>db_clock := Suc (db_clock (pw_db pw)),
    db_inventory := AList.update (row_of ki) (row_of kc) (db_inventory (pw_db pw))\<rparr>"
  have st: "upsert_inventory (row_of ki) (row_of kc) (pw_db pw\<lparr>db_clock := Suc (db_clock (pw_db pw))\<rparr>) = (Inr (), db)"
    using kc(3) ki(3) by (simp add: upsert_inventory_def db_def)
  have ok: "db_ok db"
    using keeps_statements(5) mirrorsD(2) [OF m] st unfolding keeps_tables_def by (metis db_ok_clock snd_conv)
  have views: "live w e' \<longleftrightarrow> live (pw_world pw) e'" "location_of w = location_of (pw_world pw)"
      "id_slot i \<in> id_slot ` set (inventory_of w c)" for e'
    using view_sels [OF w(2)] by (simp_all split: if_splits)
  have grows: "id_slot ` set (inventory_of (pw_world pw) c') \<subseteq> id_slot ` set (inventory_of w c')" for c'
    using view_sels(3) [OF w(2)] by (auto split: if_splits)
  have held: "\<exists>ei ec ki kc. resident pw ei ki \<and> resident pw ec kc \<and> row_of ki = r \<and> row_of kc = q \<and>
      id_slot ei \<in> id_slot ` set (inventory_of w ec)" if "(r, q) \<in> set (db_inventory db)" for r q
  proof (cases "(r, q) \<in> set (db_inventory (pw_db pw))")
    case True
    from mirrorsD(10) [OF m this] grows show ?thesis by (metis subsetD)
  next
    case False
    have "map_of (db_inventory db) r = Some q" using db_okD(7) [OF ok] that by simp
    moreover have "map_of (db_inventory (pw_db pw)) r \<noteq> Some q" using False db_okD(7) [OF mirrorsD(2) [OF m]] by simp
    ultimately have "r = row_of ki \<and> q = row_of kc" by (auto simp: db_def update_conv' split: if_splits)
    with ki(1) kc(1) views(3) show ?thesis by blast
  qed
  have "mirrors (pw\<lparr>pw_world := w, pw_db := db\<rparr>)"
    by (rule mirrors_update [OF m w(1) views(1) ok])
      (use mirrorsD(7,8,9) [OF m] held in \<open>auto simp: views(2) db_def\<close>)
  moreover have "persist_inventory_add (pw\<lparr>pw_world := w\<rparr>) c i = (Inr None, pw\<lparr>pw_world := w, pw_db := db\<rparr>)"
    using ff st by (simp add: persist_inventory_add_def kc(2) ki(2) persist_done)
  ultimately show thesis using that [of db] ff by (simp add: db_def)
qed

lemma remove_mirrors:
  assumes m: "mirrors pw" and ff: "fault_free (pw_db pw)" and l: "live (pw_world pw) c" "live (pw_world pw) i"
    and w: "world_inv w" "world_view w = view_apply (world_view (pw_world pw)) (InventoryRemove c i)"
  obtains db where "persist_inventory_remove (pw\<lparr>pw_world := w\<rparr>) c i = (Inr None, pw\<lparr>pw_world := w, pw_db := db\<rparr>)"
    and "mirrors (pw\<lparr>pw_world := w, pw_db := db\<rparr>)" and "fault_free db"
proof -
  obtain kc where kc: "resident pw c kc" "stored_key pw c = Inr (row_of kc)" using live_key [OF m l(1)] by metis
  obtain ki where ki: "resident pw i ki" "stored_key pw i = Inr (row_of ki)" using live_key [OF m l(2)] by metis
  define db where "db = (pw_db pw)\<lparr>db_clock := Suc (db_clock (pw_db pw)),
    db_inventory := filter (\<lambda>(x, y). \<not> (x = row_of ki \<and> y = row_of kc)) (db_inventory (pw_db pw))\<rparr>"
  have st: "delete_inventory (row_of ki) (row_of kc) (pw_db pw\<lparr>db_clock := Suc (db_clock (pw_db pw))\<rparr>) = (Inr (), db)"
    by (simp add: delete_inventory_def db_def)
  have ok: "db_ok db"
    using keeps_statements(6) mirrorsD(2) [OF m] st unfolding keeps_tables_def by (metis db_ok_clock snd_conv)
  have views: "live w e' \<longleftrightarrow> live (pw_world pw) e'" "location_of w = location_of (pw_world pw)"
      "inventory_of w = (inventory_of (pw_world pw))(c := filter (\<lambda>h. id_slot h \<noteq> id_slot i) (inventory_of (pw_world pw) c))" for e'
    using view_sels [OF w(2)] by simp_all
  have held: "\<exists>ei ec ki kc. resident pw ei ki \<and> resident pw ec kc \<and> row_of ki = r \<and> row_of kc = q \<and>
      id_slot ei \<in> id_slot ` set (inventory_of w ec)" if rq: "(r, q) \<in> set (db_inventory db)" for r q
  proof -
    from rq have old: "(r, q) \<in> set (db_inventory (pw_db pw))" "\<not> (r = row_of ki \<and> q = row_of kc)" by (auto simp: db_def)
    obtain ei ec kei kec where h: "resident pw ei kei" "resident pw ec kec" "row_of kei = r" "row_of kec = q"
        "id_slot ei \<in> id_slot ` set (inventory_of (pw_world pw) ec)"
      using mirrorsD(10) [OF m old(1)] by blast
    have "live (pw_world pw) ei" using h(1) mirrorsD(5) [OF m] by (simp add: resident_def)
    moreover have "\<not> (ei = i \<and> ec = c)" using h ki(1) kc(1) old(2) by (auto simp: resident_def)
    ultimately have "id_slot ei \<in> id_slot ` set (inventory_of w ec)"
      using h(5) alive_unique [OF _ l(2), of ei] by (auto simp: views(3))
    with h show ?thesis by blast
  qed
  have "mirrors (pw\<lparr>pw_world := w, pw_db := db\<rparr>)"
    by (rule mirrors_update [OF m w(1) views(1) ok])
      (use mirrorsD(7,8,9) [OF m] held in \<open>auto simp: views(2) db_def\<close>)
  moreover have "persist_inventory_remove (pw\<lparr>pw_world := w\<rparr>) c i = (Inr None, pw\<lparr>pw_world := w, pw_db := db\<rparr>)"
    using ff st by (simp add: persist_inventory_remove_def kc(2) ki(2) persist_done)
  ultimately show thesis using that [of db] ff by (simp add: db_def)
qed

lemma teardown_mirrors:
  assumes m: "mirrors pw" and ff: "fault_free (pw_db pw)" and l: "live (pw_world pw) e"
    and w: "world_inv w" "world_view w = view_apply (world_view (pw_world pw)) (Teardown e)"
  obtains pw' where "persist_teardown (pw\<lparr>pw_world := w\<rparr>) e = (Inr None, pw')"
    and "mirrors pw'" and "fault_free (pw_db pw')" and "pw_world pw' = w" and "pw_places pw' = pw_places pw"
proof -
  obtain k where k: "resident pw e k" "key_of pw e = Inr k" "entity_key_to_db k = Inr (row_of k)"
    using live_key [OF m l] by metis
  define db where "db = snd (delete_entity (row_of k) (pw_db pw\<lparr>db_clock := Suc (db_clock (pw_db pw))\<rparr>))"
  have st: "delete_entity (row_of k) (pw_db pw\<lparr>db_clock := Suc (db_clock (pw_db pw))\<rparr>) = (Inr (), db)"
    by (simp add: delete_entity_def db_def)
  have ok: "db_ok db"
    using keeps_statements(2) mirrorsD(2) [OF m] st unfolding keeps_tables_def by (metis db_ok_clock snd_conv)
  have tables: "db_entities db = filter (\<lambda>x. x \<noteq> row_of k) (db_entities (pw_db pw))"
      "db_location db = AList.delete (row_of k) (db_location (pw_db pw))"
      "db_inventory db = filter (\<lambda>(i, c). i \<noteq> row_of k \<and> c \<noteq> row_of k) (db_inventory (pw_db pw))"
    by (simp_all add: db_def delete_entity_def)
  have views: "live w e' \<longleftrightarrow> live (pw_world pw) e' \<and> e' \<noteq> e" "location_of w = (location_of (pw_world pw))(e := None)"
      "inventory_of w = (inventory_of (pw_world pw))(e := [])" for e'
    using view_sels [OF w(2)] by simp_all
  define pw' where "pw' = pw\<lparr>pw_world := w, pw_db := db, pw_by_key := (pw_by_key pw)(k := None),
    pw_by_id := (pw_by_id pw)(e := None)\<rparr>"
  have res: "resident pw' e' k' \<longleftrightarrow> resident pw e' k' \<and> e' \<noteq> e" for e' k'
    by (simp add: pw'_def resident_def)
  have other: "k' \<noteq> k" if "resident pw e' k'" "e' \<noteq> e" for e' k'
    using that resident_unique [OF m] k(1) by metis
  have same: "k' = k" if "resident pw e k'" for k' using that k(1) by (simp add: resident_def)
  have held: "\<exists>ei ec ki kc. resident pw' ei ki \<and> resident pw' ec kc \<and> row_of ki = r \<and> row_of kc = q \<and>
      id_slot ei \<in> id_slot ` set (inventory_of w ec)" if rq: "(r, q) \<in> set (db_inventory db)" for r q
  proof -
    from rq have old: "(r, q) \<in> set (db_inventory (pw_db pw))" "r \<noteq> row_of k" "q \<noteq> row_of k" by (auto simp: tables)
    obtain ei ec kei kec where h: "resident pw ei kei" "resident pw ec kec" "row_of kei = r" "row_of kec = q"
        "id_slot ei \<in> id_slot ` set (inventory_of (pw_world pw) ec)"
      using mirrorsD(10) [OF m old(1)] by blast
    have "ei \<noteq> e" "ec \<noteq> e" using h old(2,3) k(1) by (auto simp: resident_def)
    with h have "resident pw' ei kei" "resident pw' ec kec" "id_slot ei \<in> id_slot ` set (inventory_of w ec)"
      by (simp_all add: res views)
    with h(3,4) show ?thesis by blast
  qed
  have "mirrors pw'"
    unfolding mirrors_def
  proof (intro conjI allI impI)
    show "world_inv (pw_world pw')" "db_ok (pw_db pw')" "places_ok (pw_places pw')"
      using w(1) ok mirrorsD(3) [OF m] by (simp_all add: pw'_def)
    fix e' k' p r u
    show "pw_by_key pw' k' = Some e' \<longleftrightarrow> resident pw' e' k'"
      using mirrorsD(4) [OF m] k(1) resident_unique [OF m k(1)] other same unfolding res
      by (auto simp: pw'_def)
    show "live (pw_world pw') e' \<longleftrightarrow> pw_by_id pw' e' \<noteq> None"
      using mirrorsD(5) [OF m] by (auto simp: pw'_def views)
    show "row_of k' \<in> set (db_entities (pw_db pw'))" if "resident pw' e' k'"
      using that other mirrorsD(6) [OF m] unfolding res by (auto simp: pw'_def tables row_of_inj)
    show "map_of (db_location (pw_db pw')) (row_of k') = map_option (slug_of (pw_places pw')) (location_of (pw_world pw') e')"
      if "resident pw' e' k'"
      using that other mirrorsD(7) [OF m] unfolding res by (auto simp: pw'_def tables row_of_inj delete_conv' views)
    show "pm_by_id (pw_places pw') p \<noteq> None" if "location_of (pw_world pw') e' = Some p"
      using that mirrorsD(8) [OF m] by (auto simp: pw'_def views split: if_splits)
    show "\<exists>p. place_id_for_slug (pw_places pw') u = Inr p" if "(r, u) \<in> set (db_location (pw_db pw'))"
      using that mirrorsD(9) [OF m] by (auto simp: pw'_def tables AList.delete_eq)
  next
    fix r q assume "(r, q) \<in> set (db_inventory (pw_db pw'))"
    then show "\<exists>ei ec ki kc. resident pw' ei ki \<and> resident pw' ec kc \<and> row_of ki = r \<and> row_of kc = q \<and>
        id_slot ei \<in> id_slot ` set (inventory_of (pw_world pw') ec)"
      using held [of r q] by (simp add: pw'_def)
  qed
  moreover have "persist_teardown (pw\<lparr>pw_world := w\<rparr>) e = (Inr None, pw')"
    using ff st by (simp add: persist_teardown_def k persist_done pw'_def)
  ultimately show thesis using that [of pw'] ff by (simp add: pw'_def db_def delete_entity_def)
qed

lemma create_mirrors:
  assumes m: "mirrors pw" and ff: "fault_free (pw_db pw)" and seq: "db_entity_seq (pw_db pw) < i64_max"
  obtains ev pw' where "apply_create pw eff = Some (Inr (Some ev), pw')" "mirrors pw'" "fault_free (pw_db pw')"
    "pw_places pw' = pw_places pw"
    "create (pw_world pw) = Some (pw_world pw', case ev of Created e \<Rightarrow> Inr e | _ \<Rightarrow> Inl Exhausted)"
    "ev = Rejected eff Exhausted \<or> (\<exists>e. ev = Created e)"
proof -
  define q where "q = db_entity_seq (pw_db pw) + 1"
  define key where "key = EntityKey (word_of_int q)"
  have q: "0 < q" "q \<le> i64_max" using db_okD(10) [OF mirrorsD(2) [OF m]] seq by (simp_all add: q_def)
  have row: "row_of key = q" using row_of_word [OF q] by (simp add: key_def)
  have fresh: "q \<notin> set (db_entities (pw_db pw))" using db_okD(3) [OF mirrorsD(2) [OF m], of q] by (auto simp: q_def)
  define n where "n = db_clock (pw_db pw)"
  define db2 where "db2 = (pw_db pw)\<lparr>db_entities := db_entities (pw_db pw) @ [q], db_entity_seq := q,
    db_clock := Suc (Suc (Suc n))\<rparr>"
  have run: "apply_create pw eff = (case create (pw_world pw) of
        None \<Rightarrow> None
      | Some (w, Inr e) \<Rightarrow> Some (Inr (Some (Created e)), map_resident (pw\<lparr>pw_world := w, pw_db := db2\<rparr>) key e)
      | Some (w, Inl refused) \<Rightarrow> Some (Inr (Some (Rejected eff refused)),
          pw\<lparr>pw_world := w, pw_db := (pw_db pw)\<lparr>db_clock := Suc (Suc (Suc n))\<rparr>\<rparr>))"
    using ff q seq
    by (simp add: apply_create_def run_fault_free tx_mark_def insert_entity_def Let_def n_def db2_def key_def
        entity_key_from_db_ok undone_def q_def [symmetric] entity_key_from_db_def nonzero_from_db_def
        split: option.split sum.split prod.split)
  show thesis
    using mirrorsD(1) [OF m]
  proof (cases rule: create_cases)
    case full
    have "mirrors (pw\<lparr>pw_world := pw_world pw, pw_db := (pw_db pw)\<lparr>db_clock := Suc (Suc (Suc n))\<rparr>\<rparr>)"
      using mirrorsD [OF m] by (intro mirrors_update) (simp_all add: m)
    with full run ff show thesis
      by (intro that [of "Rejected eff Exhausted"
            "pw\<lparr>pw_world := pw_world pw, pw_db := (pw_db pw)\<lparr>db_clock := Suc (Suc (Suc n))\<rparr>\<rparr>"]) simp_all
  next
    case (fresh a e)
    let ?w = "pw_world pw\<lparr>w_arena := a\<rparr>"
    let ?pw = "map_resident (pw\<lparr>pw_world := ?w, pw_db := db2\<rparr>) key e"
    have views: "alive a e' \<longleftrightarrow> e' = e \<or> live (pw_world pw) e'" "location_of ?w = location_of (pw_world pw)"
        "inventory_of ?w = inventory_of (pw_world pw)" for e'
      using view_sels [OF create_view(1) [OF mirrorsD(1) [OF m] fresh(1)]] by simp_all
    have dead: "\<not> live (pw_world pw) e" using create_view(2) [OF mirrorsD(1) [OF m] fresh(1)] by auto
    then have unmapped: "pw_by_id pw e = None" "location_of (pw_world pw) e = None"
      using mirrorsD(5) [OF m, of e] by (simp_all add: world_views)
    have new_key: "\<not> resident pw e' key" for e'
      using mirrorsD(6) [OF m, of e' key] \<open>q \<notin> set (db_entities (pw_db pw))\<close> row by auto
    have res: "resident ?pw e' k' \<longleftrightarrow> (if e' = e then k' = key else resident pw e' k')" for e' k'
      by (auto simp: resident_def map_resident_def)
    have sel: "pw_world ?pw = ?w" "pw_db ?pw = db2" "pw_places ?pw = pw_places pw"
        "pw_by_key ?pw = (pw_by_key pw)(key \<mapsto> e)" "pw_by_id ?pw = (pw_by_id pw)(e \<mapsto> key)"
      by (simp_all add: map_resident_def)
    have "mirrors ?pw"
      unfolding mirrors_def res sel
    proof (intro conjI allI impI)
      show "world_inv ?w" using world_inv_create [OF mirrorsD(1) [OF m] fresh(2)] .
      show "db_ok db2" using mirrorsD(2) [OF m] q fresh \<open>q \<notin> set (db_entities (pw_db pw))\<close>
        by (auto simp: db_ok_def db2_def q_def)
      show "places_ok (pw_places pw)" using mirrorsD(3) [OF m] .
      fix e' k' p r u
      show "((pw_by_key pw)(key \<mapsto> e)) k' = Some e' \<longleftrightarrow> (if e' = e then k' = key else resident pw e' k')"
        using mirrorsD(4) [OF m] new_key unmapped(1) by (auto simp: resident_def)
      show "live ?w e' \<longleftrightarrow> ((pw_by_id pw)(e \<mapsto> key)) e' \<noteq> None"
        using mirrorsD(5) [OF m] by (auto simp: views)
      show "row_of k' \<in> set (db_entities db2)" if "if e' = e then k' = key else resident pw e' k'"
        using that mirrorsD(6) [OF m, of e' k'] row by (auto simp: db2_def split: if_splits)
      show "map_of (db_location db2) (row_of k') = map_option (slug_of (pw_places pw)) (location_of ?w e')"
        if "if e' = e then k' = key else resident pw e' k'"
        using that mirrorsD(7) [OF m, of e' k'] row unmapped(2) db_okD(6) [OF mirrorsD(2) [OF m]]
          \<open>q \<notin> set (db_entities (pw_db pw))\<close>
        by (auto simp: db2_def views map_of_eq_None_iff split: if_splits)
      show "pm_by_id (pw_places pw) p \<noteq> None" if "location_of ?w e' = Some p"
        using that mirrorsD(8) [OF m] by (simp add: views)
      show "\<exists>p. place_id_for_slug (pw_places pw) u = Inr p" if "(r, u) \<in> set (db_location db2)"
        using that mirrorsD(9) [OF m] by (auto simp: db2_def)
    next
      fix r s assume "(r, s) \<in> set (db_inventory db2)"
      then obtain ei ec ki kc where "resident pw ei ki" "resident pw ec kc" "row_of ki = r" "row_of kc = s"
          "id_slot ei \<in> id_slot ` set (inventory_of (pw_world pw) ec)"
        using mirrorsD(10) [OF m, of r s] by (auto simp: db2_def)
      moreover from this(1,2) have "ei \<noteq> e" "ec \<noteq> e" using unmapped(1) by (auto simp: resident_def)
      ultimately show "\<exists>ei ec ki kc. (if ei = e then ki = key else resident pw ei ki) \<and>
          (if ec = e then kc = key else resident pw ec kc) \<and> row_of ki = r \<and> row_of kc = s \<and>
          id_slot ei \<in> id_slot ` set (inventory_of ?w ec)"
        unfolding views by metis
    qed
    with run fresh ff sel show thesis by (intro that [of "Created e" ?pw]) (simp_all add: db2_def)
  qed
qed

text \<open>One command: memory does what the scheduler of the core does, and the database follows.\<close>

lemma durable_step:
  assumes m: "mirrors pw" and ff: "fault_free (pw_db pw)" and st: "storable pw (cmd_effect c)"
  obtains ev pw' where "apply_durable pw c = Some (Inr ev, pw')" "mirrors pw'" "fault_free (pw_db pw')"
    "pw_places pw' = pw_places pw"
    "apply_command (pw_world pw) c = Some (pw_world pw', case ev of None \<Rightarrow> [] | Some x \<Rightarrow> [x])"
proof (cases "\<exists>p. cmd_precondition c = Some p \<and> \<not> satisfies (pw_world pw) p")
  case True
  then show thesis using m ff
    by (intro that [of "Some (PreconditionFailed (the (cmd_precondition c)) (cmd_effect c))" pw])
      (auto simp: apply_durable_def apply_command_def)
next
  case False
  define eff where "eff = cmd_effect c"
  have ap: "apply_command (pw_world pw) c =
      map_option (\<lambda>(w, ev). (w, case ev of None \<Rightarrow> [] | Some x \<Rightarrow> [x])) (apply_effect (pw_world pw) eff)"
    using False by (auto simp: apply_command_def eff_def split: option.splits)
  have run: "apply_durable pw c = (if eff = Create then apply_create pw eff
      else (case apply_effect (pw_world pw) eff of
              None \<Rightarrow> None
            | Some (w, Some ev) \<Rightarrow> Some (Inr (Some ev), pw\<lparr>pw_world := w\<rparr>)
            | Some (w, None) \<Rightarrow> Some (persist_effect (pw\<lparr>pw_world := w\<rparr>) eff)))"
    using False by (auto simp: apply_durable_def eff_def split: option.splits)
  show thesis
  proof (cases "eff = Create")
    case True
    with st have seq: "db_entity_seq (pw_db pw) < i64_max" by (simp add: eff_def)
    obtain ev pw' where c: "apply_create pw eff = Some (Inr (Some ev), pw')" "mirrors pw'" "fault_free (pw_db pw')"
        "pw_places pw' = pw_places pw"
        "create (pw_world pw) = Some (pw_world pw', case ev of Created e \<Rightarrow> Inr e | _ \<Rightarrow> Inl Exhausted)"
        "ev = Rejected eff Exhausted \<or> (\<exists>e. ev = Created e)"
      using create_mirrors [OF m ff seq, of eff] by metis
    with True show thesis by (intro that [of "Some ev" pw']) (auto simp: run ap)
  next
    case no_create: False
    show thesis
    proof (cases "effect_handles eff \<subseteq> {e. live (pw_world pw) e}")
      case False
      obtain err where "apply_effect (pw_world pw) eff = Some (pw_world pw, Some (Rejected eff err))"
        using apply_effect_dead [OF False] by blast
      with no_create show thesis
        by (intro that [of "Some (Rejected eff err)" pw]) (auto simp: run ap m ff)
    next
      case True
      obtain w where w: "apply_effect (pw_world pw) eff = Some (w, None)" "world_inv w"
          "world_view w = view_apply (world_view (pw_world pw)) eff"
        using effect_live [OF mirrorsD(1) [OF m] no_create True] by metis
      have rw: "apply_durable pw c = Some (persist_effect (pw\<lparr>pw_world := w\<rparr>) eff)"
        "apply_command (pw_world pw) c = Some (w, [])"
        using no_create w(1) by (simp_all add: run ap)
      show thesis
      proof (cases eff)
        case Create with no_create show thesis by simp
      next
        case (Teardown e)
        have l0: "live (pw_world pw) e" using st True Teardown by (simp add: eff_def [symmetric])
        from teardown_mirrors [OF m ff l0 w(2) w(3) [unfolded Teardown]] obtain pw' where
          "persist_teardown (pw\<lparr>pw_world := w\<rparr>) e = (Inr None, pw')" "mirrors pw'" "fault_free (pw_db pw')"
          "pw_world pw' = w" "pw_places pw' = pw_places pw" .
        with rw Teardown show thesis by (intro that [of None pw']) simp_all
      next
        case (MoveTo e p)
        have l0: "live (pw_world pw) e" using st True MoveTo by (simp add: eff_def [symmetric])
        obtain s where s: "pm_by_id (pw_places pw) p = Some s" using st MoveTo by (auto simp: eff_def [symmetric])
        from move_mirrors [OF m ff l0 s w(2) w(3) [unfolded MoveTo]] obtain db where
          "persist_move (pw\<lparr>pw_world := w\<rparr>) e p = (Inr None, pw\<lparr>pw_world := w, pw_db := db\<rparr>)"
          "mirrors (pw\<lparr>pw_world := w, pw_db := db\<rparr>)" "fault_free db" .
        with rw MoveTo show thesis by (intro that [of None "pw\<lparr>pw_world := w, pw_db := db\<rparr>"]) simp_all
      next
        case (ClearLocation e)
        have l0: "live (pw_world pw) e" using st True ClearLocation by (simp add: eff_def [symmetric])
        from clear_mirrors [OF m ff l0 w(2) w(3) [unfolded ClearLocation]] obtain db where
          "persist_clear_location (pw\<lparr>pw_world := w\<rparr>) e = (Inr None, pw\<lparr>pw_world := w, pw_db := db\<rparr>)"
          "mirrors (pw\<lparr>pw_world := w, pw_db := db\<rparr>)" "fault_free db" .
        with rw ClearLocation show thesis by (intro that [of None "pw\<lparr>pw_world := w, pw_db := db\<rparr>"]) simp_all
      next
        case (InventoryAdd d i)
        have l0: "live (pw_world pw) d" using st True InventoryAdd by (simp add: eff_def [symmetric])
        have l1: "live (pw_world pw) i" using st True InventoryAdd by (simp add: eff_def [symmetric])
        from add_mirrors [OF m ff l0 l1 w(2) w(3) [unfolded InventoryAdd]] obtain db where
          "persist_inventory_add (pw\<lparr>pw_world := w\<rparr>) d i = (Inr None, pw\<lparr>pw_world := w, pw_db := db\<rparr>)"
          "mirrors (pw\<lparr>pw_world := w, pw_db := db\<rparr>)" "fault_free db" .
        with rw InventoryAdd show thesis by (intro that [of None "pw\<lparr>pw_world := w, pw_db := db\<rparr>"]) simp_all
      next
        case (InventoryRemove d i)
        have l0: "live (pw_world pw) d" using st True InventoryRemove by (simp add: eff_def [symmetric])
        have l1: "live (pw_world pw) i" using st True InventoryRemove by (simp add: eff_def [symmetric])
        from remove_mirrors [OF m ff l0 l1 w(2) w(3) [unfolded InventoryRemove]] obtain db where
          "persist_inventory_remove (pw\<lparr>pw_world := w\<rparr>) d i = (Inr None, pw\<lparr>pw_world := w, pw_db := db\<rparr>)"
          "mirrors (pw\<lparr>pw_world := w, pw_db := db\<rparr>)" "fault_free db" .
        with rw InventoryRemove show thesis by (intro that [of None "pw\<lparr>pw_world := w, pw_db := db\<rparr>"]) simp_all
      qed
    qed
  qed
qed

section \<open>The boot load\<close>

definition linked :: "loading \<Rightarrow> bool" where
  "linked l \<longleftrightarrow>
     world_inv (ld_world l) \<and> (\<forall>k e. ld_by_key l k = Some e \<longleftrightarrow> ld_by_id l e = Some k) \<and>
     (\<forall>e. live (ld_world l) e \<longleftrightarrow> ld_by_id l e \<noteq> None)"

lemma linkedD:
  assumes "linked l"
  shows "world_inv (ld_world l)" and "ld_by_key l k = Some e \<longleftrightarrow> ld_by_id l e = Some k"
    and "live (ld_world l) e \<longleftrightarrow> ld_by_id l e \<noteq> None"
  using assms unfolding linked_def by blast+

lemma load_entities_ok:
  assumes "linked l" and "free_list (w_arena (ld_world l)) = []"
    and "length (slots (w_arena (ld_world l))) + length rows \<le> 2 ^ 32"
    and "distinct rows" and "\<forall>r \<in> set rows. 0 < r \<and> r \<le> i64_max"
    and "\<forall>k. row_of k \<in> set rows \<longrightarrow> ld_by_key l k = None"
  shows "\<exists>l'. load_entities l rows = Some (Inr l') \<and> linked l' \<and>
    location_of (ld_world l') = location_of (ld_world l) \<and> inventory_of (ld_world l') = inventory_of (ld_world l) \<and>
    (\<forall>k. ld_by_key l' k \<noteq> None \<longleftrightarrow> ld_by_key l k \<noteq> None \<or> row_of k \<in> set rows)"
  using assms
proof (induction rows arbitrary: l)
  case (Cons r rows)
  note inv = linkedD(1) [OF Cons.prems(1)]
  define key where "key = EntityKey (word_of_int r)"
  have r: "0 < r" "r \<le> i64_max" using Cons.prems(5) by simp_all
  have row: "row_of key = r" using row_of_word [OF r] by (simp add: key_def)
  have key: "entity_key_from_db r = Inr key" using r by (simp add: entity_key_from_db_ok key_def)
  from inv show ?case
  proof (cases rule: create_cases)
    case full
    then have "length (slots (w_arena (ld_world l))) = 2 ^ 32"
      using alloc_error [OF world_invD(1) [OF inv]] by (auto simp: create_arena)
    with Cons.prems(3) show ?thesis by simp
  next
    case (fresh a e)
    let ?w = "ld_world l\<lparr>w_arena := a\<rparr>"
    define l1 where "l1 = \<lparr>ld_world = ?w, ld_by_key = (ld_by_key l)(key \<mapsto> e), ld_by_id = (ld_by_id l)(e \<mapsto> key)\<rparr>"
    have views: "alive a e' \<longleftrightarrow> e' = e \<or> live (ld_world l) e'" "location_of ?w = location_of (ld_world l)"
        "inventory_of ?w = inventory_of (ld_world l)" for e'
      using view_sels [OF create_view(1) [OF inv fresh(1)]] by simp_all
    have new: "ld_by_id l e = None" "ld_by_key l key = None"
      using create_view(2) [OF inv fresh(1)] linkedD(3) [OF Cons.prems(1), of e] Cons.prems(6) row by auto
    have "free_list a = [] \<and> length (slots a) = Suc (length (slots (w_arena (ld_world l))))"
      using world_invD(1) [OF inv]
    proof (cases rule: alloc_cases)
      case (reused s g rest) with Cons.prems(2) show ?thesis by simp
    next
      case (grown i) with fresh(1) show ?thesis using Cons.prems(2) by auto
    qed (use fresh(1) in simp)
    moreover have "ld_by_id l e' \<noteq> Some key" for e' using new(2) linkedD(2) [OF Cons.prems(1)] by force
    then have "linked l1"
      using linkedD [OF Cons.prems(1)] new world_inv_create [OF inv fresh(2)]
      by (auto simp: linked_def l1_def views)
    moreover have "ld_by_key l1 k = None" if "row_of k \<in> set rows" for k
      using that Cons.prems(4,6) row by (auto simp: l1_def)
    ultimately obtain l' where l': "load_entities l1 rows = Some (Inr l')" "linked l'"
        "location_of (ld_world l') = location_of (ld_world l1)" "inventory_of (ld_world l') = inventory_of (ld_world l1)"
        "\<forall>k. ld_by_key l' k \<noteq> None \<longleftrightarrow> ld_by_key l1 k \<noteq> None \<or> row_of k \<in> set rows"
      using Cons.IH [of l1] Cons.prems(3,4,5) by (auto simp: l1_def)
    have "ld_by_key l1 k \<noteq> None \<longleftrightarrow> ld_by_key l k \<noteq> None \<or> row_of k = r" for k
      using row row_of_inj [of k key] by (auto simp: l1_def)
    with l' fresh(2) key show ?thesis by (auto simp: l1_def views)
  qed
qed auto

lemma resolve_loaded_ok:
  assumes "by_key k = Some e" and "0 < row_of k"
  shows "resolve_loaded by_key (row_of k) = Inr e"
  using assms by (simp add: resolve_loaded_def)

definition place_for :: "place_map \<Rightarrow> ustring \<Rightarrow> place_id option" where
  "place_for m slug = (case place_id_for_slug m slug of Inr p \<Rightarrow> Some p | Inl _ \<Rightarrow> None)"

lemma load_locations_ok:
  assumes "linked l" and "distinct (map fst rows)"
    and "\<forall>(r, s) \<in> set rows. 0 < r \<and> (\<exists>k e. row_of k = r \<and> ld_by_key l k = Some e) \<and> (\<exists>p. place_id_for_slug m s = Inr p)"
  shows "\<exists>w. load_locations m l rows = Some (Inr (l\<lparr>ld_world := w\<rparr>)) \<and> linked (l\<lparr>ld_world := w\<rparr>) \<and>
    inventory_of w = inventory_of (ld_world l) \<and>
    (\<forall>e k. ld_by_id l e = Some k \<longrightarrow> location_of w e =
       (case map_of rows (row_of k) of None \<Rightarrow> location_of (ld_world l) e | Some s \<Rightarrow> place_for m s))"
  using assms
proof (induction rows arbitrary: l)
  case Nil
  then show ?case by (intro exI [of _ "ld_world l"]) simp
next
  case (Cons row rows)
  obtain r s where row: "row = (r, s)" by (cases row)
  obtain k e p where k: "0 < r" "row_of k = r" "ld_by_key l k = Some e" "place_id_for_slug m s = Inr p"
    using Cons.prems(3) unfolding row by auto
  note inv = linkedD(1) [OF Cons.prems(1)]
  have id: "ld_by_id l e = Some k" and lv: "live (ld_world l) e"
    using k(3) linkedD(2,3) [OF Cons.prems(1)] by auto
  obtain w1 where w1: "apply_effect (ld_world l) (MoveTo e p) = Some (w1, None)" "world_inv w1"
      "world_view w1 = view_apply (world_view (ld_world l)) (MoveTo e p)"
    using effect_live [OF inv, of "MoveTo e p"] lv by auto
  then have mv: "move_to (ld_world l) e p = Some (w1, Inr ())"
    by (cases "move_to (ld_world l) e p") (auto elim: rejection.elims)
  have views: "live w1 e' \<longleftrightarrow> live (ld_world l) e'" "location_of w1 = (location_of (ld_world l))(e := Some p)"
      "inventory_of w1 = inventory_of (ld_world l)" for e'
    using view_sels [OF w1(3)] by simp_all
  define l1 where "l1 = l\<lparr>ld_world := w1\<rparr>"
  have sel: "ld_world l1 = w1" "ld_by_key l1 = ld_by_key l" "ld_by_id l1 = ld_by_id l" by (simp_all add: l1_def)
  have lk: "linked l1" using linkedD [OF Cons.prems(1)] w1(2) by (simp add: linked_def views sel)
  have known: "\<forall>(r, s) \<in> set rows. 0 < r \<and> (\<exists>k e. row_of k = r \<and> ld_by_key l1 k = Some e) \<and>
      (\<exists>p. place_id_for_slug m s = Inr p)"
    using Cons.prems(3) by (simp add: sel)
  from Cons.IH [OF lk _ known] Cons.prems(2) obtain w where
      w: "load_locations m l1 rows = Some (Inr (l1\<lparr>ld_world := w\<rparr>))" "linked (l1\<lparr>ld_world := w\<rparr>)"
        "inventory_of w = inventory_of (ld_world l1)"
        "\<forall>e k. ld_by_id l1 e = Some k \<longrightarrow> location_of w e =
           (case map_of rows (row_of k) of None \<Rightarrow> location_of (ld_world l1) e | Some s \<Rightarrow> place_for m s)"
    by (auto simp: row)
  have none: "map_of rows (row_of k) = None"
    using Cons.prems(2) k(2) by (simp_all add: row map_of_eq_None_iff)
  have other: "row_of k' = r \<longleftrightarrow> e' = e" if "ld_by_id l e' = Some k'" for e' k'
    using that id k(2) row_of_inj [of k' k] linkedD(2) [OF Cons.prems(1)] by (metis option.inject)
  have "location_of w e' = (case map_of (row # rows) (row_of k') of
      None \<Rightarrow> location_of (ld_world l) e' | Some s \<Rightarrow> place_for m s)"
    if that: "ld_by_id l e' = Some k'" for e' k'
  proof (cases "e' = e")
    case True
    then have "k' = k" using that id by simp
    with True that w(4) none k(2,4) show ?thesis by (simp add: row views sel place_for_def)
  next
    case False
    then have "row_of k' \<noteq> r" using other [OF that] by simp
    then show ?thesis using w(4) that False by (simp add: row views(2) sel cong: option.case_cong)
  qed
  moreover have "load_locations m l (row # rows) = Some (Inr (l\<lparr>ld_world := w\<rparr>))"
    using w(1) k mv resolve_loaded_ok [of "ld_by_key l" k e] by (simp add: row l1_def)
  moreover have "linked (l\<lparr>ld_world := w\<rparr>)" "inventory_of w = inventory_of (ld_world l)"
    using w(2,3) by (simp_all add: l1_def views)
  ultimately show ?case by (intro exI [of _ w]) blast
qed

text \<open>No container holds the item of a row that is still to be loaded.\<close>

definition unloaded :: "loading \<Rightarrow> (int \<times> int) list \<Rightarrow> bool" where
  "unloaded l rows \<longleftrightarrow>
     (\<forall>c x. x \<in> set (inventory_of (ld_world l) c) \<longrightarrow> (\<exists>k. ld_by_id l x = Some k \<and> row_of k \<notin> fst ` set rows))"

lemma load_inventory_ok:
  assumes "linked l" and "distinct (map fst rows)" and "unloaded l rows"
    and "\<forall>(r, q) \<in> set rows. 0 < r \<and> 0 < q \<and>
      (\<exists>k e. row_of k = r \<and> ld_by_key l k = Some e) \<and> (\<exists>k e. row_of k = q \<and> ld_by_key l k = Some e)"
  shows "\<exists>w. load_inventory l rows = Some (Inr (l\<lparr>ld_world := w\<rparr>)) \<and> linked (l\<lparr>ld_world := w\<rparr>) \<and>
    location_of w = location_of (ld_world l) \<and>
    (\<forall>c x. x \<in> set (inventory_of w c) \<longleftrightarrow> x \<in> set (inventory_of (ld_world l) c) \<or>
       (\<exists>kx kc. ld_by_id l x = Some kx \<and> ld_by_id l c = Some kc \<and> (row_of kx, row_of kc) \<in> set rows))"
  using assms
proof (induction rows arbitrary: l)
  case Nil
  then show ?case by (intro exI [of _ "ld_world l"]) simp
next
  case (Cons row rows)
  obtain r q where row: "row = (r, q)" by (cases row)
  obtain ki i kc c where k: "0 < r" "0 < q" "row_of ki = r" "ld_by_key l ki = Some i" "row_of kc = q" "ld_by_key l kc = Some c"
    using Cons.prems(4) unfolding row by auto
  note inv = linkedD(1) [OF Cons.prems(1)]
  have id: "ld_by_id l i = Some ki" "ld_by_id l c = Some kc" and lv: "live (ld_world l) i" "live (ld_world l) c"
    using k(4,6) linkedD(2,3) [OF Cons.prems(1)] by auto
  have not_held: "id_slot i \<notin> id_slot ` set (inventory_of (ld_world l) c)"
  proof
    assume "id_slot i \<in> id_slot ` set (inventory_of (ld_world l) c)"
    then obtain x where "x \<in> set (inventory_of (ld_world l) c)" and slot: "id_slot x = id_slot i" by auto
    then obtain kx where x: "id_slot x = id_slot i" "ld_by_id l x = Some kx" "row_of kx \<notin> fst ` set (row # rows)"
      using Cons.prems(3) unfolding unloaded_def by blast
    then have "x = i" using alive_unique [of _ x i] lv(1) linkedD(3) [OF Cons.prems(1), of x] by auto
    with x id(1) k(3) show False by (auto simp: row)
  qed
  from inventory_add_view [OF lv(2,1)] not_held obtain t where
      add: "inventory_add (ld_world l) c i = Some (ld_world l\<lparr>w_inventory := t\<rparr>, Inr ())"
      and view: "world_view (ld_world l\<lparr>w_inventory := t\<rparr>) =
        (world_view (ld_world l))\<lparr>k_items := (inventory_of (ld_world l))(c := inventory_of (ld_world l) c @ [i])\<rparr>"
    by auto
  define l1 where "l1 = l\<lparr>ld_world := ld_world l\<lparr>w_inventory := t\<rparr>\<rparr>"
  have sel: "ld_by_key l1 = ld_by_key l" "ld_by_id l1 = ld_by_id l" by (simp_all add: l1_def)
  have views: "live (ld_world l1) e' \<longleftrightarrow> live (ld_world l) e'" "location_of (ld_world l1) = location_of (ld_world l)"
      "inventory_of (ld_world l1) = (inventory_of (ld_world l))(c := inventory_of (ld_world l) c @ [i])" for e'
    using view_sels [OF view] by (simp_all add: l1_def)
  have lk: "linked l1"
    using linkedD [OF Cons.prems(1)] world_inv_inventory_add [OF inv add] views(1) by (simp add: linked_def sel) (simp add: l1_def)
  have held: "unloaded l1 rows"
    using Cons.prems(2,3) id(1) k(3) by (auto simp: unloaded_def sel views row) blast+
  have known: "\<forall>(r, q) \<in> set rows. 0 < r \<and> 0 < q \<and>
      (\<exists>k e. row_of k = r \<and> ld_by_key l1 k = Some e) \<and> (\<exists>k e. row_of k = q \<and> ld_by_key l1 k = Some e)"
    using Cons.prems(4) by (simp add: sel)
  from Cons.IH [OF lk _ held known] Cons.prems(2) obtain w where
      w: "load_inventory l1 rows = Some (Inr (l1\<lparr>ld_world := w\<rparr>))" "linked (l1\<lparr>ld_world := w\<rparr>)"
        "location_of w = location_of (ld_world l1)"
        "\<forall>c x. x \<in> set (inventory_of w c) \<longleftrightarrow> x \<in> set (inventory_of (ld_world l1) c) \<or>
           (\<exists>kx kc. ld_by_id l1 x = Some kx \<and> ld_by_id l1 c = Some kc \<and> (row_of kx, row_of kc) \<in> set rows)"
    by (auto simp: row)
  have "x \<in> set (inventory_of w d) \<longleftrightarrow> x \<in> set (inventory_of (ld_world l) d) \<or>
      (\<exists>kx kd. ld_by_id l x = Some kx \<and> ld_by_id l d = Some kd \<and> (row_of kx, row_of kd) \<in> set (row # rows))" for x d
  proof -
    have "(\<exists>kx kd. ld_by_id l x = Some kx \<and> ld_by_id l d = Some kd \<and> (row_of kx, row_of kd) = row) \<longleftrightarrow> x = i \<and> d = c"
      using id k(3-6) linkedD(2) [OF Cons.prems(1)] by (metis (no_types, opaque_lifting) Pair_inject option.inject row row_of_inj)
    then show ?thesis using w(4) by (auto simp: sel views)
  qed
  moreover have "load_inventory l (row # rows) = Some (Inr (l\<lparr>ld_world := w\<rparr>))"
    using w(1) k add resolve_loaded_ok [of "ld_by_key l" ki i] resolve_loaded_ok [of "ld_by_key l" kc c]
    by (simp add: row l1_def)
  moreover have "linked (l\<lparr>ld_world := w\<rparr>)" using w(2) by (simp add: l1_def)
  moreover have "location_of w = location_of (ld_world l)" using w(3) views(2) by simp
  ultimately show ?case by (intro exI [of _ w]) blast
qed

text \<open>Consistent tables whose slugs name loaded rooms load to a world that they mirror.\<close>

definition loadable :: "place_map \<Rightarrow> tenant_db \<Rightarrow> bool" where
  "loadable m db \<longleftrightarrow>
     db_ok db \<and> places_ok m \<and> length (db_entities db) \<le> 2 ^ 32 \<and>
     (\<forall>(k, s) \<in> set (db_location db). \<exists>p. place_id_for_slug m s = Inr p)"

lemma place_id_for_slug_ok:
  assumes "places_ok m" and "place_id_for_slug m s = Inr p"
  shows "pm_by_id m p = Some (PlaceKey s)" and "slug_of m p = s"
proof -
  obtain k where "PlaceKey_parse s = Inr k" "pm_by_key m k = Some p"
    using assms(2) by (auto simp: place_id_for_slug_def split: sum.splits)
  then have "k = PlaceKey s" "pm_by_id m p = Some k" using assms(1) by (auto simp: PlaceKey_parse_ok places_ok_def)
  then show "pm_by_id m p = Some (PlaceKey s)" "slug_of m p = s" by (simp_all add: slug_of_def)
qed

lemma world_new_blank:
  "live (world_new t) e = False" "location_of (world_new t) = (\<lambda>_. None)" "inventory_of (world_new t) = (\<lambda>_. [])"
proof -
  show l: "live (world_new t) e = False" for e
    by (simp add: world_new_def arena_new_def alive_def vec_get_def)
  then show "location_of (world_new t) = (\<lambda>_. None)" "inventory_of (world_new t) = (\<lambda>_. [])"
    by (auto simp: world_views)
qed

lemma load_ok:
  assumes ok: "loadable m db" and ff: "fault_free db" and t: "tag_ok t"
  obtains pw n where "load db t m = Some (Inr pw, db\<lparr>db_clock := n\<rparr>)" "mirrors pw"
    "pw_db pw = db\<lparr>db_clock := n\<rparr>" "pw_places pw = m" "queue (pw_scheduler pw) = []"
    "\<forall>k. row_of k \<in> set (db_entities db) \<longleftrightarrow> (\<exists>e. resident pw e k)"
    "\<forall>c i kc ki. resident pw c kc \<and> resident pw i ki \<longrightarrow>
       (i \<in> set (inventory_of (pw_world pw) c) \<longleftrightarrow> (row_of ki, row_of kc) \<in> set (db_inventory db))"
    "\<forall>c i. i \<in> set (inventory_of (pw_world pw) c) \<longrightarrow> live (pw_world pw) i"
proof -
  have dbok: "db_ok db" and pl: "places_ok m" and len: "length (db_entities db) \<le> 2 ^ 32"
    and known: "\<And>k s. (k, s) \<in> set (db_location db) \<Longrightarrow> \<exists>p. place_id_for_slug m s = Inr p"
    using ok by (auto simp: loadable_def)
  note D = db_okD [OF dbok]
  define l0 where "l0 = \<lparr>ld_world = world_new t, ld_by_key = Map.empty, ld_by_id = Map.empty\<rparr>"
  define rows where "rows = sort (db_entities db)"
  have lk0: "linked l0" using world_inv_new [OF t] by (simp add: linked_def l0_def world_new_blank)
  have "\<exists>l1. load_entities l0 rows = Some (Inr l1) \<and> linked l1 \<and>
      location_of (ld_world l1) = location_of (ld_world l0) \<and> inventory_of (ld_world l1) = inventory_of (ld_world l0) \<and>
      (\<forall>k. ld_by_key l1 k \<noteq> None \<longleftrightarrow> ld_by_key l0 k \<noteq> None \<or> row_of k \<in> set rows)"
    using lk0 by (rule load_entities_ok)
      (use D(1,2,4) len in \<open>simp_all add: l0_def world_new_def arena_new_def rows_def\<close>)
  then obtain l1 where l1: "load_entities l0 rows = Some (Inr l1)" "linked l1"
      "location_of (ld_world l1) = (\<lambda>_. None)" "inventory_of (ld_world l1) = (\<lambda>_. [])"
      "\<And>k. ld_by_key l1 k \<noteq> None \<longleftrightarrow> row_of k \<in> set (db_entities db)"
    by (auto simp: l0_def world_new_blank rows_def)
  have keyed: "0 < r \<and> (\<exists>k e. row_of k = r \<and> ld_by_key l1 k = Some e)" if "r \<in> set (db_entities db)" for r
  proof -
    have "row_of (EntityKey (word_of_int r)) = r" using row_of_word [OF D(2,4)] that by simp
    with that l1(5) [of "EntityKey (word_of_int r)"] D(2) show ?thesis by fastforce
  qed
  have locs: "\<forall>(r, s) \<in> set (db_location db). 0 < r \<and> (\<exists>k e. row_of k = r \<and> ld_by_key l1 k = Some e) \<and>
      (\<exists>p. place_id_for_slug m s = Inr p)"
    using known D(6) keyed by fastforce
  obtain w2 where w2: "load_locations m l1 (db_location db) = Some (Inr (l1\<lparr>ld_world := w2\<rparr>))"
      "linked (l1\<lparr>ld_world := w2\<rparr>)" "inventory_of w2 = (\<lambda>_. [])"
      "\<forall>e k. ld_by_id l1 e = Some k \<longrightarrow> location_of w2 e =
         (case map_of (db_location db) (row_of k) of None \<Rightarrow> None | Some s \<Rightarrow> place_for m s)"
    using load_locations_ok [OF l1(2) D(5) locs] unfolding l1(3,4) by blast
  define l2 where "l2 = l1\<lparr>ld_world := w2\<rparr>"
  have sel: "ld_by_id l2 = ld_by_id l1" "ld_by_key l2 = ld_by_key l1" "ld_world l2 = w2" by (simp_all add: l2_def)
  have lk2: "linked l2" using w2(2) by (simp add: l2_def)
  have un: "unloaded l2 (db_inventory db)" by (simp add: unloaded_def sel w2(3))
  have items: "\<forall>(r, q) \<in> set (db_inventory db). 0 < r \<and> 0 < q \<and>
      (\<exists>k e. row_of k = r \<and> ld_by_key l2 k = Some e) \<and> (\<exists>k e. row_of k = q \<and> ld_by_key l2 k = Some e)"
  proof (clarify, unfold sel)
    fix r q assume "(r, q) \<in> set (db_inventory db)"
    then have "r \<in> set (db_entities db)" "q \<in> set (db_entities db)" using D(8,9) by force+
    then show "0 < r \<and> 0 < q \<and> (\<exists>k e. row_of k = r \<and> ld_by_key l1 k = Some e) \<and>
        (\<exists>k e. row_of k = q \<and> ld_by_key l1 k = Some e)"
      using keyed by blast
  qed
  obtain w where w: "load_inventory l2 (db_inventory db) = Some (Inr (l2\<lparr>ld_world := w\<rparr>))"
      "linked (l2\<lparr>ld_world := w\<rparr>)" "location_of w = location_of w2"
      "\<forall>c x. x \<in> set (inventory_of w c) \<longleftrightarrow>
         (\<exists>kx kc. ld_by_id l1 x = Some kx \<and> ld_by_id l1 c = Some kc \<and> (row_of kx, row_of kc) \<in> set (db_inventory db))"
    using load_inventory_ok [OF lk2 D(7) un items] unfolding sel w2(3) list.set empty_iff simp_thms by blast
  define n where "n = Suc (Suc (Suc (db_clock db)))"
  define pw where "pw = \<lparr>pw_db = db\<lparr>db_clock := n\<rparr>, pw_world = w, pw_by_key = ld_by_key l1, pw_by_id = ld_by_id l1,
    pw_places = m, pw_scheduler = scheduler_new\<rparr>"
  have run: "load db t m = Some (Inr pw, db\<lparr>db_clock := n\<rparr>)"
    using ff l1(1) w2(1) w(1)
    by (simp add: load_def run_fault_free select_entities_def select_locations_def select_inventory_def
        l0_def [symmetric] rows_def [symmetric] l2_def [symmetric] sel pw_def n_def)
  have lk: "world_inv w" "\<And>k e. ld_by_key l1 k = Some e \<longleftrightarrow> ld_by_id l1 e = Some k"
      "\<And>e. live w e \<longleftrightarrow> ld_by_id l1 e \<noteq> None"
    using linkedD [OF w(2)] by (simp_all add: sel)
  have res: "resident pw e k \<longleftrightarrow> ld_by_id l1 e = Some k" for e k by (simp add: resident_def pw_def)
  have at: "location_of w e = (case map_of (db_location db) (row_of k) of None \<Rightarrow> None | Some s \<Rightarrow> place_for m s)"
    if "ld_by_id l1 e = Some k" for e k
    using w(3) w2(4) that by simp
  have nowhere: "location_of w e = None" if "ld_by_id l1 e = None" for e
    using that lk(3) by (simp add: world_views)
  have slug: "\<exists>p. place_for m s = Some p \<and> slug_of m p = s \<and> pm_by_id m p = Some (PlaceKey s)"
    if "map_of (db_location db) r = Some s" for r s
    using known [OF map_of_SomeD [OF that]] place_id_for_slug_ok [OF pl, of s] by (auto simp: place_for_def)
  have "mirrors pw"
    unfolding mirrors_def res
  proof (intro conjI allI impI)
    show "world_inv (pw_world pw)" "db_ok (pw_db pw)" "places_ok (pw_places pw)"
      using lk(1) dbok pl by (simp_all add: pw_def)
    fix e k p r s
    show "pw_by_key pw k = Some e \<longleftrightarrow> ld_by_id l1 e = Some k" using lk(2) by (simp add: pw_def)
    show "live (pw_world pw) e \<longleftrightarrow> pw_by_id pw e \<noteq> None" using lk(3) by (simp add: pw_def)
    show "row_of k \<in> set (db_entities (pw_db pw))" if "ld_by_id l1 e = Some k"
      using that l1(5) [of k] lk(2) by (auto simp: pw_def)
    show "map_of (db_location (pw_db pw)) (row_of k) = map_option (slug_of (pw_places pw)) (location_of (pw_world pw) e)"
      if "ld_by_id l1 e = Some k"
      using at [OF that] slug [of "row_of k"] by (auto simp: pw_def split: option.splits)
    show "pm_by_id (pw_places pw) p \<noteq> None" if "location_of (pw_world pw) e = Some p"
      using that at [of e] nowhere [of e] slug
      by (cases "ld_by_id l1 e") (fastforce simp: pw_def split: option.splits)+
    show "\<exists>p. place_id_for_slug (pw_places pw) s = Inr p" if "(r, s) \<in> set (db_location (pw_db pw))"
      using that known by (simp add: pw_def)
  next
    fix r q assume rq: "(r, q) \<in> set (db_inventory (pw_db pw))"
    then obtain ki kc i c where "row_of ki = r" "row_of kc = q" "ld_by_id l1 i = Some ki" "ld_by_id l1 c = Some kc"
      using items lk(2) by (fastforce simp: pw_def sel)
    with w(4) rq show "\<exists>ei ec ki kc. ld_by_id l1 ei = Some ki \<and> ld_by_id l1 ec = Some kc \<and> row_of ki = r \<and> row_of kc = q \<and>
        id_slot ei \<in> id_slot ` set (inventory_of (pw_world pw) ec)"
      by (simp add: pw_def) (metis image_eqI)
  qed
  moreover have "\<forall>k. row_of k \<in> set (db_entities db) \<longleftrightarrow> (\<exists>e. resident pw e k)"
    using l1(5) lk(2) unfolding res by (metis not_None_eq)
  moreover have "\<forall>c i kc ki. resident pw c kc \<and> resident pw i ki \<longrightarrow>
       (i \<in> set (inventory_of (pw_world pw) c) \<longleftrightarrow> (row_of ki, row_of kc) \<in> set (db_inventory db))"
    using w(4) unfolding res by (simp add: pw_def)
  moreover have "\<forall>c i. i \<in> set (inventory_of (pw_world pw) c) \<longrightarrow> live (pw_world pw) i"
    using w(4) lk(3) by (auto simp: pw_def)
  ultimately show thesis using run by (intro that [of pw n]) (simp_all add: pw_def scheduler_new_def)
qed

section \<open>The scheduler of a persistent world\<close>

lemma persist_scheduler: "persist pw r = (r', pw') \<Longrightarrow> pw_scheduler pw' = pw_scheduler pw"
  by (auto simp: persist_def split: sum.splits prod.splits)

lemma apply_durable_scheduler:
  assumes "apply_durable pw c = Some (r, pw')"
  shows "pw_scheduler pw' = pw_scheduler pw"
proof -
  have "pw_scheduler pw1 = pw_scheduler pw" if "apply_create pw eff = Some (r1, pw1)" for eff r1 pw1
    using that by (auto simp: apply_create_def map_resident_def split: sum.splits prod.splits option.splits)
  moreover have "pw_scheduler pw1 = pw_scheduler pw0" if "persist_effect pw0 eff = (r1, pw1)" for pw0 eff r1 pw1
  proof (cases eff)
    case (Teardown e)
    have *: "persist pw0 st = (r2, pw2) \<Longrightarrow> pw_scheduler pw2 = pw_scheduler pw0" for st r2 pw2 by (rule persist_scheduler)
    from that Teardown show ?thesis
      by (auto simp: persist_teardown_def dest: * split: sum.splits prod.splits)
  qed (use that persist_scheduler in \<open>auto simp: persist_move_def persist_clear_location_def
      persist_inventory_add_def persist_inventory_remove_def\<close>)
  ultimately show ?thesis using assms by (auto simp: apply_durable_def split: option.splits if_splits)
qed

lemma apply_all_scheduler: "apply_all pw cs = Some (r, pw') \<Longrightarrow> pw_scheduler pw' = pw_scheduler pw"
proof (induction cs arbitrary: pw r)
  case (Cons c cs)
  obtain r1 pw1 where s: "apply_durable pw c = Some (r1, pw1)" using Cons.prems by (auto split: option.splits)
  with Cons apply_durable_scheduler [OF s] show ?case by (cases r1) auto
qed simp

lemma apply_all_append:
  assumes "apply_all pw cs = Some (Inr evs, pw1)"
  shows "apply_all pw (cs @ ds) = map_option (\<lambda>(r, pw2). (bindE r (\<lambda>evs'. Inr (evs @ evs')), pw2)) (apply_all pw1 ds)"
  using assms
proof (induction cs arbitrary: pw evs)
  case Nil
  have "bindE r Inr = r" for r :: "db_error + tick_event list" by (cases r) auto
  with Nil show ?case by (auto simp: option.map_ident case_prod_beta intro!: option.map_ident [symmetric])
next
  case (Cons c cs)
  have assoc: "bindE (bindE r f) g = bindE r (\<lambda>x. bindE (f x) g)" for r :: "db_error + tick_event list" and f g
    by (cases r) auto
  obtain ev pw2 where c: "apply_durable pw c = Some (Inr ev, pw2)"
    using Cons.prems by (auto split: option.splits sum.splits)
  with Cons.prems obtain evs2 where "apply_all pw2 cs = Some (Inr evs2, pw1)"
      "evs = (case ev of None \<Rightarrow> [] | Some x \<Rightarrow> [x]) @ evs2"
    by auto
  with Cons.IH [of pw2 evs2] c show ?case
    by (auto simp: option.map_comp o_def case_prod_beta assoc)
qed

lemma tick_stops:
  assumes q: "queue (pw_scheduler pw) = cs @ c # ds"
    and before: "apply_all (pw\<lparr>pw_scheduler := fst (drain (pw_scheduler pw))\<rparr>) cs = Some (Inr evs, pw1)"
    and fail: "apply_durable pw1 c = Some (Inl e, pw2)"
  shows "tick_durable pw = Some (Inl e, pw2) \<and> queue (pw_scheduler pw2) = []"
proof -
  have "apply_all (pw\<lparr>pw_scheduler := fst (drain (pw_scheduler pw))\<rparr>) (cs @ c # ds) = Some (Inl e, pw2)"
    using fail by (simp add: apply_all_append [OF before])
  then have "tick_durable pw = Some (Inl e, pw2)" using q by (simp add: tick_durable_def drain_def)
  moreover have "queue (pw_scheduler pw2) = []"
    using apply_durable_scheduler [OF fail] apply_all_scheduler [OF before] by (simp add: drain_def)
  ultimately show ?thesis ..
qed

lemma apply_durable_live:
  "apply_effect (pw_world pw) eff = Some (w, None) \<Longrightarrow> eff \<noteq> Create \<Longrightarrow>
     apply_durable pw (command_new eff) = Some (persist_effect (pw\<lparr>pw_world := w\<rparr>) eff)"
  by (simp add: apply_durable_def command_new_def)

section \<open>A sample\<close>

text \<open>A database of two entities, the second one held by the first, which stands in the hall.\<close>

definition hall_db :: tenant_db where
  "hall_db = \<lparr>db_entities = [1, 2], db_entity_seq = 2, db_accounts = [], db_account_seq = 0, db_puppets = [],
     db_location = [(1, lit ''hall'')], db_inventory = [(2, 1)], db_server = None, db_faults = (\<lambda>_. False), db_clock = 0\<rparr>"

definition hall_map :: place_map where
  "hall_map = place_map_from_pairs [(PlaceId 1, PlaceKey (lit ''hall'')), (PlaceId 2, PlaceKey (lit ''garden''))]"

lemma hall_loadable: "loadable hall_map hall_db" "fault_free hall_db"
proof -
  have slug: "PlaceKey_parse (lit ''hall'') = Inr (PlaceKey (lit ''hall''))"
      "PlaceKey_parse (lit ''garden'') = Inr (PlaceKey (lit ''garden''))" "lit ''hall'' \<noteq> lit ''garden''"
    by (simp_all add: PlaceKey_parse_ok slug_char_def lit_def is_ascii_lower_def is_ascii_digit_def)
  then show "loadable hall_map hall_db"
    by (auto simp: loadable_def hall_map_def hall_db_def place_map_from_pairs_def places_ok_def db_ok_def
        i64_max_def place_id_for_slug_def)
  show "fault_free hall_db" by (simp add: fault_free_def hall_db_def)
qed

lemma hall_world:
  obtains pw a b where "load hall_db (TenantTag 0) hall_map = Some (Inr pw, pw_db pw)" "mirrors pw" "fault_free (pw_db pw)"
    "resident pw a (EntityKey 1)" "resident pw b (EntityKey 2)" "live (pw_world pw) a" "live (pw_world pw) b" "a \<noteq> b"
    "pw_places pw = hall_map" "queue (pw_scheduler pw) = []" "db_entities (pw_db pw) = [1, 2]" "db_entity_seq (pw_db pw) = 2"
    "b \<in> set (inventory_of (pw_world pw) a)"
proof -
  obtain pw n where pw: "load hall_db (TenantTag 0) hall_map = Some (Inr pw, hall_db\<lparr>db_clock := n\<rparr>)" "mirrors pw"
      "pw_db pw = hall_db\<lparr>db_clock := n\<rparr>" "pw_places pw = hall_map" "queue (pw_scheduler pw) = []"
      "\<forall>k. row_of k \<in> set (db_entities hall_db) \<longleftrightarrow> (\<exists>e. resident pw e k)"
      "\<forall>c i kc ki. resident pw c kc \<and> resident pw i ki \<longrightarrow>
         (i \<in> set (inventory_of (pw_world pw) c) \<longleftrightarrow> (row_of ki, row_of kc) \<in> set (db_inventory hall_db))"
      "\<forall>c i. i \<in> set (inventory_of (pw_world pw) c) \<longrightarrow> live (pw_world pw) i"
    by (rule load_ok [OF hall_loadable tag_ok_0])
  obtain a b where ab: "resident pw a (EntityKey 1)" "resident pw b (EntityKey 2)"
    using pw(6) [rule_format, of "EntityKey 1"] pw(6) [rule_format, of "EntityKey 2"] by (auto simp: hall_db_def)
  moreover have "live (pw_world pw) a" "live (pw_world pw) b"
    using ab mirrorsD(5) [OF pw(2)] by (simp_all add: resident_def)
  moreover have "a \<noteq> b" using ab by (auto simp: resident_def)
  moreover have "b \<in> set (inventory_of (pw_world pw) a)" using pw(7) ab by (auto simp: hall_db_def)
  ultimately show thesis
    using pw(1-6) by (intro that [of pw a b]) (simp_all add: hall_db_def fault_free_def)
qed

section \<open>Properties\<close>





text \<open>
  C9. A restart restores the world: the database of a mirrored world loads without an error,
  every entity is resident again under its key and stands where it stood, an item is in a
  container exactly when the database says so, and then memory had it there before the restart.
\<close>

theorem restart_restores:
  assumes "mirrors pw" and "fault_free (pw_db pw)" and "tag_ok t" and "length (db_entities (pw_db pw)) \<le> 2 ^ 32"
  shows "\<exists>pw' n. load (pw_db pw) t (pw_places pw) = Some (Inr pw', (pw_db pw)\<lparr>db_clock := n\<rparr>) \<and> mirrors pw' \<and>
    (\<forall>e k. resident pw e k \<longrightarrow> (\<exists>e'. pw_by_key pw' k = Some e' \<and>
       location_of (pw_world pw') e' = location_of (pw_world pw) e)) \<and>
    (\<forall>c i c' i' kc ki. resident pw c kc \<and> resident pw i ki \<and> resident pw' c' kc \<and> resident pw' i' ki \<longrightarrow>
       (holds_item (pw_world pw') c' i' \<longleftrightarrow> (row_of ki, row_of kc) \<in> set (db_inventory (pw_db pw))) \<and>
       (holds_item (pw_world pw') c' i' \<longrightarrow> id_slot i \<in> id_slot ` set (inventory_of (pw_world pw) c)))"
proof -
  note m = assms(1)
  have "loadable (pw_places pw) (pw_db pw)"
    using mirrorsD(2,3,9) [OF m] assms(4) by (auto simp: loadable_def)
  then obtain pw' n where pw': "load (pw_db pw) t (pw_places pw) = Some (Inr pw', (pw_db pw)\<lparr>db_clock := n\<rparr>)" "mirrors pw'"
      "pw_db pw' = (pw_db pw)\<lparr>db_clock := n\<rparr>" "pw_places pw' = pw_places pw" "queue (pw_scheduler pw') = []"
      "\<forall>k. row_of k \<in> set (db_entities (pw_db pw)) \<longleftrightarrow> (\<exists>e. resident pw' e k)"
      "\<forall>c i kc ki. resident pw' c kc \<and> resident pw' i ki \<longrightarrow>
         (i \<in> set (inventory_of (pw_world pw') c) \<longleftrightarrow> (row_of ki, row_of kc) \<in> set (db_inventory (pw_db pw)))"
      "\<forall>c i. i \<in> set (inventory_of (pw_world pw') c) \<longrightarrow> live (pw_world pw') i"
    using assms(2,3) by (rule load_ok)
  have "\<exists>e'. pw_by_key pw' k = Some e' \<and> location_of (pw_world pw') e' = location_of (pw_world pw) e" if r: "resident pw e k" for e k
  proof -
    obtain e' where e': "resident pw' e' k" using pw'(6) mirrorsD(6) [OF m r] by blast
    have eq: "map_option (slug_of (pw_places pw)) (location_of (pw_world pw') e') =
        map_option (slug_of (pw_places pw)) (location_of (pw_world pw) e)"
      using mirrorsD(7) [OF m r] mirrorsD(7) [OF pw'(2) e'] pw'(3,4) by simp
    have "location_of (pw_world pw') e' = location_of (pw_world pw) e"
    proof (cases "location_of (pw_world pw) e")
      case (Some p)
      then obtain p' where p': "location_of (pw_world pw') e' = Some p'"
          "slug_of (pw_places pw) p' = slug_of (pw_places pw) p"
        using eq by (cases "location_of (pw_world pw') e'") auto
      obtain s s' where "pm_by_id (pw_places pw) p = Some s" "pm_by_id (pw_places pw) p' = Some s'"
        using mirrorsD(8) [OF m Some] mirrorsD(8) [OF pw'(2) p'(1)] pw'(4) by auto
      then have "Inr p' = (Inr p :: db_error + place_id)"
        using p'(2) slug_for_place [OF mirrorsD(3) [OF m]] by metis
      with Some p'(1) show ?thesis by simp
    qed (use eq in simp)
    then show ?thesis using e' mirrorsD(4) [OF pw'(2)] by auto
  qed
  moreover have "id_slot i \<in> id_slot ` set (inventory_of (pw_world pw) c)"
    if "resident pw c kc" "resident pw i ki" "(row_of ki, row_of kc) \<in> set (db_inventory (pw_db pw))" for c i kc ki
    using mirrorsD(10) [OF m that(3)] that(1,2) resident_unique [OF m] by (metis row_of_inj)
  ultimately show ?thesis using pw' by (intro exI [of _ pw'] exI [of _ n]) (auto simp: world_views(5))
qed

lemma restart_restores_witness:
  "\<exists>pw a b pw' n e'. load (pw_db pw) (TenantTag 0) (pw_places pw) = Some (Inr pw', (pw_db pw)\<lparr>db_clock := n\<rparr>) \<and>
     resident pw a (EntityKey 1) \<and> pw_by_key pw' (EntityKey 1) = Some e' \<and>
     location_of (pw_world pw') e' = location_of (pw_world pw) a \<and> holds_item (pw_world pw) a b"
proof -
  obtain pw a b where pw: "mirrors pw" "fault_free (pw_db pw)" "resident pw a (EntityKey 1)"
      "db_entities (pw_db pw) = [1, 2]" "b \<in> set (inventory_of (pw_world pw) a)" by (rule hall_world)
  with restart_restores [OF pw(1,2) tag_ok_0] show ?thesis by (simp add: world_views(5)) blast
qed

text \<open>
  A tick stops at its first database failure: the commands before it are applied, the error is
  the tick's result, and the commands after it are neither applied nor queued again.
\<close>

theorem tick_fail_stop:
  assumes "queue (pw_scheduler pw) = cs @ c # ds"
    and "apply_all (pw\<lparr>pw_scheduler := fst (drain (pw_scheduler pw))\<rparr>) cs = Some (Inr evs, pw1)"
    and "apply_durable pw1 c = Some (Inl e, pw2)"
  shows "tick_durable pw = Some (Inl e, pw2) \<and> queue (pw_scheduler pw2) = []"
  using assms by (rule tick_stops)

text \<open>
  An item that is gone stops the server: the arena does not check the item of an
  \<open>InventoryRemove\<close>, so removing a torn-down item from a live container reaches the key map, whose
  miss is a database error although no statement failed. A queue that tears an item down and then
  removes it loses everything behind it.
\<close>

theorem stale_item_stops_tick:
  assumes "mirrors pw" and "fault_free (pw_db pw)" and "live (pw_world pw) c" and "live (pw_world pw) i" and "c \<noteq> i"
    and "queue (pw_scheduler pw) = command_new (Teardown i) # command_new (InventoryRemove c i) # ds"
  shows "\<exists>pw'. tick_durable pw = Some (Inl EntityNotMapped, pw') \<and> fault_free (pw_db pw') \<and>
    queue (pw_scheduler pw') = []"
proof -
  define pw0 where "pw0 = pw\<lparr>pw_scheduler := fst (drain (pw_scheduler pw))\<rparr>"
  have m0: "mirrors pw0" using assms(1) by (simp add: mirrors_def resident_def pw0_def)
  have ff0: "fault_free (pw_db pw0)" using assms(2) by (simp add: pw0_def)
  have st: "storable pw0 (cmd_effect (command_new (Teardown i)))" by (simp add: command_new_def)
  obtain ev pw1 where s: "apply_durable pw0 (command_new (Teardown i)) = Some (Inr ev, pw1)" "mirrors pw1"
      "fault_free (pw_db pw1)" "pw_places pw1 = pw_places pw0"
      "apply_command (pw_world pw0) (command_new (Teardown i)) = Some (pw_world pw1, case ev of None \<Rightarrow> [] | Some x \<Rightarrow> [x])"
    by (rule durable_step [OF m0 ff0 st])
  have "effect_handles (Teardown i) \<subseteq> {e. live (pw_world pw) e}" using assms(4) by simp
  from apply_live [OF mirrorsD(1) [OF assms(1)] _ this] obtain w0 where
      "apply_command (pw_world pw) (command_new (Teardown i)) = Some (w0, [])"
      "world_view w0 = view_apply (world_view (pw_world pw)) (Teardown i)"
    by blast
  moreover have "pw_world pw0 = pw_world pw" by (simp add: pw0_def)
  ultimately have vw: "world_view (pw_world pw1) = view_apply (world_view (pw_world pw)) (Teardown i)"
    using s(5) by simp
  have alive: "live (pw_world pw1) c" "\<not> live (pw_world pw1) i"
    using assms(3,5) by (simp_all add: view_sels(1) [OF vw])
  obtain w where "apply_effect (pw_world pw1) (InventoryRemove c i) = Some (w, None)"
    by (rule effect_live [OF mirrorsD(1) [OF s(2)], of "InventoryRemove c i"]) (simp_all add: alive(1))
  moreover have "stored_key pw1 i = Inl EntityNotMapped"
    using alive(2) mirrorsD(5) [OF s(2), of i] by (simp add: stored_key_def key_of_def)
  ultimately have fail: "apply_durable pw1 (command_new (InventoryRemove c i)) = Some (Inl EntityNotMapped, pw1\<lparr>pw_world := w\<rparr>)"
    by (simp add: apply_durable_live persist_inventory_remove_def persist_def)
  have "apply_all pw0 [command_new (Teardown i)] = Some (Inr (case ev of None \<Rightarrow> [] | Some x \<Rightarrow> [x]), pw1)"
    using s(1) by simp
  from tick_stops [OF _ this [unfolded pw0_def] fail, of ds] assms(6) s(3) show ?thesis by auto
qed

lemma stale_item_stops_tick_witness:
  "\<exists>pw a b pw'. queue (pw_scheduler pw) = [command_new (Teardown b), command_new (InventoryRemove a b)] \<and>
     tick_durable pw = Some (Inl EntityNotMapped, pw') \<and> fault_free (pw_db pw')"
proof -
  obtain pw a b where pw: "mirrors pw" "fault_free (pw_db pw)" "live (pw_world pw) a" "live (pw_world pw) b" "a \<noteq> b"
    by (rule hall_world)
  define pw1 where "pw1 = pw\<lparr>pw_scheduler :=
    \<lparr>queue = [command_new (Teardown b), command_new (InventoryRemove a b)], tick_number = 0\<rparr>\<rparr>"
  have "mirrors pw1" using pw(1) by (simp add: mirrors_def resident_def pw1_def)
  from stale_item_stops_tick [OF this, of a b "[]"] pw(2-5) obtain pw' where
      "tick_durable pw1 = Some (Inl EntityNotMapped, pw')" "fault_free (pw_db pw')"
    by (auto simp: pw1_def)
  then show ?thesis by (intro exI [of _ pw1] exI [of _ a] exI [of _ b] exI [of _ pw']) (simp add: pw1_def)
qed

lemma tick_fail_stop_witness:
  "\<exists>pw pw2 c d. queue (pw_scheduler pw) = [c, d] \<and> tick_durable pw = Some (Inl PlaceNotMapped, pw2) \<and>
     queue (pw_scheduler pw2) = []"
proof -
  obtain pw and a b :: entity_id where pw: "mirrors pw" "live (pw_world pw) a" "pw_places pw = hall_map"
    by (rule hall_world)
  define c where "c = command_new (MoveTo a (PlaceId 3))"
  define pw1 where "pw1 = pw\<lparr>pw_scheduler := \<lparr>queue = [c, c], tick_number = 0\<rparr>\<rparr>"
  define pw0 where "pw0 = pw1\<lparr>pw_scheduler := fst (drain (pw_scheduler pw1))\<rparr>"
  have m0: "mirrors pw0" using pw(1) by (simp add: mirrors_def resident_def pw0_def pw1_def)
  have l0: "live (pw_world pw0) a" using pw(2) by (simp add: pw0_def pw1_def)
  obtain w where "apply_effect (pw_world pw0) (MoveTo a (PlaceId 3)) = Some (w, None)"
    by (rule effect_live [OF mirrorsD(1) [OF m0], of "MoveTo a (PlaceId 3)"]) (simp_all add: l0)
  moreover obtain k where "stored_key pw0 a = Inr (row_of k)" using live_key [OF m0 l0] by metis
  ultimately have "apply_durable pw0 c = Some (Inl PlaceNotMapped, pw0\<lparr>pw_world := w\<rparr>)"
    using pw(3) by (simp add: c_def apply_durable_live persist_move_def persist_def)
      (simp add: pw0_def pw1_def hall_map_def place_map_from_pairs_def)
  from tick_fail_stop [OF _ _ this, of pw1 "[]" "[c]" "[]"]
  have "tick_durable pw1 = Some (Inl PlaceNotMapped, pw0\<lparr>pw_world := w\<rparr>) \<and>
      queue (pw_scheduler (pw0\<lparr>pw_world := w\<rparr>)) = []"
    by (simp add: pw1_def pw0_def)
  then show ?thesis
    by (intro exI [of _ pw1] exI [of _ "pw0\<lparr>pw_world := w\<rparr>"] exI [of _ c] exI [of _ c] conjI) (simp_all add: pw1_def)
qed

end
