(* ===== verification/World_Loop.thy ===== *)
theory World_Loop
  imports Pipeline Durable
begin

text \<open>
  One tenant's server loop: the account store over the tenant database and the live world
  (crates/mudd/src/backend.rs) and the loop that ticks the durable scheduler and routes gateway
  frames to the login machine and the command pipeline (world_loop.rs). Sends on the channel to the gateway
  succeed; the frames of one step are listed in the order they are sent. Ticks and frames arrive
  in any order. \<open>None\<close> is a panic.
\<close>

section \<open>The account store\<close>

text \<open>
  \<open>bc_hash\<close> and \<open>bc_verify\<close> stand for argon2 on its blocking task; \<open>None\<close> is a failure. The
  state of the store is the world itself, whose database it shares, or \<open>None\<close> after a panic.
\<close>

record backend_config =
  bc_hash :: "ustring \<Rightarrow> ustring option"
  bc_verify :: "ustring \<Rightarrow> ustring \<Rightarrow> bool option"
  bc_start_room :: place_key

definition on_db :: "'a statement \<Rightarrow> persistent_world \<Rightarrow> (backend_fault + 'a) \<times> persistent_world" where
  "on_db st pw = (case st (pw_db pw) of (r, db) \<Rightarrow> (map_err (\<lambda>_. BackendFault) r, pw\<lparr>pw_db := db\<rparr>))"

definition db_authenticate ::
  "backend_config \<Rightarrow> persistent_world \<Rightarrow> username \<Rightarrow> ustring \<Rightarrow> (backend_fault + (login_error + account)) \<times> persistent_world" where
  "db_authenticate cfg pw name password = on_db (accounts_authenticate (bc_verify cfg) name password) pw"

definition db_register ::
  "backend_config \<Rightarrow> persistent_world \<Rightarrow> username \<Rightarrow> ustring \<Rightarrow> (backend_fault + (register_error + account)) \<times> persistent_world" where
  "db_register cfg pw name password =
     (case credential_hash (bc_hash cfg) password of
        Inl _ \<Rightarrow> (Inl BackendFault, pw)
      | Inr cred \<Rightarrow> on_db (accounts_register name cred) pw)"

definition db_puppets_of ::
  "persistent_world \<Rightarrow> account_id \<Rightarrow> (backend_fault + puppet list) \<times> persistent_world" where
  "db_puppets_of pw account = on_db (accounts_puppets_of account) pw"

definition db_create_puppet ::
  "backend_config \<Rightarrow> persistent_world \<Rightarrow> account_id \<Rightarrow> puppet_name \<Rightarrow> ((backend_fault + puppet) \<times> persistent_world) option" where
  "db_create_puppet cfg pw account name =
     (case on_db (accounts_create_puppet account name (bc_start_room cfg)) pw of
        (Inl f, pw1) \<Rightarrow> Some (Inl f, pw1)
      | (Inr puppet, pw1) \<Rightarrow>
          map_option (\<lambda>(r, pw2). (case r of Inl _ \<Rightarrow> Inl BackendFault | Inr _ \<Rightarrow> Inr puppet, pw2))
            (hydrate pw1 (puppet_key puppet)))"

definition db_resolve_puppet :: "persistent_world \<Rightarrow> entity_key \<Rightarrow> entity_id option" where
  "db_resolve_puppet pw key = pw_by_key pw key"

definition stored ::
  "(persistent_world \<Rightarrow> ((backend_fault + 'a) \<times> persistent_world) option) \<Rightarrow> persistent_world option
    \<Rightarrow> (backend_fault + 'a) \<times> persistent_world option" where
  "stored f s =
     (case s of
        None \<Rightarrow> (Inl BackendFault, None)
      | Some pw \<Rightarrow> (case f pw of None \<Rightarrow> (Inl BackendFault, None) | Some (r, pw1) \<Rightarrow> (r, Some pw1)))"

definition db_backend :: "backend_config \<Rightarrow> persistent_world option login_backend" where
  "db_backend cfg = \<lparr>
     be_authenticate = (\<lambda>s name password. stored (\<lambda>pw. Some (db_authenticate cfg pw name password)) s),
     be_register = (\<lambda>s name password. stored (\<lambda>pw. Some (db_register cfg pw name password)) s),
     be_puppets_of = (\<lambda>s account. stored (\<lambda>pw. Some (db_puppets_of pw account)) s),
     be_create_puppet = (\<lambda>s account name. stored (\<lambda>pw. db_create_puppet cfg pw account name) s),
     be_resolve_puppet = (\<lambda>s key. (case s of None \<Rightarrow> None | Some pw \<Rightarrow> db_resolve_puppet pw key, s))\<rparr>"

section \<open>The runtime\<close>

record tenant_runtime =
  rt_world :: persistent_world
  rt_backend :: backend_config
  rt_sessions :: session_service
  rt_pipeline :: pipeline
  rt_builtins :: "command list"
  rt_places :: places
  rt_locale :: locale_tag

datatype loop_fault = TickFailed db_error | IdsExhausted

type_synonym loop_result = "world_frame list \<times> (loop_fault + tenant_runtime)"

fun frame_of :: "login_output \<Rightarrow> world_frame" where
  "frame_of (LoginText out) = FrameOutput out"
| "frame_of (LoginEcho e) = FrameEcho e"

text \<open>\<open>order\<close> is the order in which the registry of sessions is iterated.\<close>

definition presence_announcement ::
  "(session_service \<Rightarrow> session_id list) \<Rightarrow> tenant_runtime \<Rightarrow> session_id \<Rightarrow> (locale_tag \<Rightarrow> ustring \<Rightarrow> styled_text)
    \<Rightarrow> session_output list" where
  "presence_announcement order rt sid message =
     (case binding_of (rt_sessions rt) sid of
        None \<Rightarrow> []
      | Some binding \<Rightarrow>
          (case location_of (pw_world (rt_world rt)) (bind_puppet binding) of
             None \<Rightarrow> []
           | Some place \<Rightarrow>
               announce (pw_world (rt_world rt)) (registry_roster (order (rt_sessions rt)) (rt_sessions rt)) place
                 (bind_puppet binding) (message (rt_locale rt) (puppet_name_str (bind_name binding)))))"

definition unbind :: "tenant_runtime \<Rightarrow> session_id \<Rightarrow> tenant_runtime" where
  "unbind rt sid = rt\<lparr>rt_sessions := disconnect (rt_sessions rt) sid\<rparr>"

definition handle_disconnect ::
  "(session_service \<Rightarrow> session_id list) \<Rightarrow> tenant_runtime \<Rightarrow> session_id \<Rightarrow> world_frame list \<times> tenant_runtime" where
  "handle_disconnect order rt sid =
     (map FrameOutput (presence_announcement order rt sid left_text), unbind rt sid)"

definition login_frames ::
  "(session_service \<Rightarrow> session_id list) \<Rightarrow> tenant_runtime \<Rightarrow> session_id \<Rightarrow> login_output list \<Rightarrow> bool
    \<Rightarrow> entity_id option \<Rightarrow> world_frame list" where
  "login_frames order rt sid outs close bound =
     map frame_of outs @
     (if bound \<noteq> None then map FrameOutput (presence_announcement order rt sid entered_text) else []) @
     (if close then [FrameClose sid] else [])"

definition submit_effects :: "persistent_world \<Rightarrow> World.effect list \<Rightarrow> persistent_world" where
  "submit_effects pw effs = foldl (\<lambda>pw eff. submit_durable pw (command_new eff)) pw effs"

definition run_outcome ::
  "(session_service \<Rightarrow> session_id list) \<Rightarrow> tenant_runtime \<Rightarrow> session_id \<Rightarrow> dispatch_outcome
    \<Rightarrow> world_frame list \<times> tenant_runtime" where
  "run_outcome order rt sid out =
     (let rt1 = rt\<lparr>rt_world := submit_effects (rt_world rt) (outc_effects out)\<rparr>
      in if outc_disposition out = Close
         then (map FrameOutput (outc_outputs out @ presence_announcement order rt1 sid left_text) @ [FrameClose sid],
               unbind rt1 sid)
         else (map FrameOutput (outc_outputs out), rt1))"

definition handle_input ::
  "unicode \<Rightarrow> (session_service \<Rightarrow> session_id list) \<Rightarrow> tenant_runtime \<Rightarrow> session_input \<Rightarrow> loop_result option" where
  "handle_input uni order rt input =
     (let sid = in_session input in
      case service_input (db_backend (rt_backend rt)) (rt_sessions rt) (Some (rt_world rt)) sid (line_str (in_line input)) of
        (_, _, None) \<Rightarrow> None
      | (RoutingLogin outs close bound, svc, Some pw) \<Rightarrow>
          (let rt1 = rt\<lparr>rt_world := pw, rt_sessions := svc\<rparr>
           in Some (login_frames order rt1 sid outs close bound, Inr (if close then unbind rt1 sid else rt1)))
      | (RoutingInWorld, svc, Some pw) \<Rightarrow>
          (case dispatch uni (rt_pipeline rt) (pw_world pw) (rt_places rt) (registry_resolve svc (rt_builtins rt))
              (registry_roster (order svc) svc) input of
             (Inr out, pipe) \<Rightarrow>
               (case run_outcome order (rt\<lparr>rt_pipeline := pipe\<rparr>) sid out of (frames, rt1) \<Rightarrow> Some (frames, Inr rt1))
           | (Inl (UnknownSession _), pipe) \<Rightarrow> Some ([], Inr (rt\<lparr>rt_pipeline := pipe\<rparr>))
           | (Inl CommandIdExhausted, pipe) \<Rightarrow> Some ([], Inl IdsExhausted))
      | (RoutingUnknown, svc, Some pw) \<Rightarrow> Some ([], Inr rt))"

section \<open>Boot\<close>

text \<open>
  The assembly of one tenant's runtime (boot.rs) from its database and its loaded content: the
  slugs and the registry of its rooms, its start room, banner and locale.
\<close>

datatype boot_fault = LoadFailed db_error | BadStartRoom place_key_error

definition boot_tenant ::
  "unicode \<Rightarrow> (ustring \<Rightarrow> ustring option) \<Rightarrow> (ustring \<Rightarrow> ustring \<Rightarrow> bool option) \<Rightarrow> tenant_db \<Rightarrow> tenant_tag
    \<Rightarrow> (place_id \<times> place_key) list \<Rightarrow> places \<Rightarrow> ustring \<Rightarrow> ustring \<Rightarrow> locale_tag \<Rightarrow> (boot_fault + tenant_runtime) option" where
  "boot_tenant uni hash verify db tag keys rooms start banner loc =
     (case load db tag (place_map_from_pairs keys) of
        None \<Rightarrow> None
      | Some (Inl e, _) \<Rightarrow> Some (Inl (LoadFailed e))
      | Some (Inr pw, _) \<Rightarrow>
          (case PlaceKey_parse start of
             Inl e \<Rightarrow> Some (Inl (BadStartRoom e))
           | Inr start_room \<Rightarrow>
               (case register uni dispatcher_new of (d, builtins) \<Rightarrow>
                  Some (Inr \<lparr>rt_world = pw,
                    rt_backend = \<lparr>bc_hash = hash, bc_verify = verify, bc_start_room = start_room\<rparr>,
                    rt_sessions = service_new banner loc, rt_pipeline = with_locale (pipeline_new d) loc,
                    rt_builtins = builtins, rt_places = rooms, rt_locale = loc\<rparr>))))"

section \<open>The loop\<close>

datatype loop_event = TickDue | Received gateway_frame

fun loop_step ::
  "unicode \<Rightarrow> (session_service \<Rightarrow> session_id list) \<Rightarrow> tenant_runtime \<Rightarrow> loop_event \<Rightarrow> loop_result option" where
  "loop_step uni order rt TickDue =
     (case tick_durable (rt_world rt) of
        None \<Rightarrow> None
      | Some (Inl e, _) \<Rightarrow> Some ([], Inl (TickFailed e))
      | Some (Inr _, pw) \<Rightarrow> Some ([], Inr (rt\<lparr>rt_world := pw\<rparr>)))"
| "loop_step uni order rt (Received (FrameConnect sid)) =
     (case connect (rt_sessions rt) sid of
        (svc, outs) \<Rightarrow> Some (map FrameOutput outs, Inr (rt\<lparr>rt_sessions := svc\<rparr>)))"
| "loop_step uni order rt (Received (FrameDisconnect sid)) =
     (case handle_disconnect order rt sid of (frames, rt1) \<Rightarrow> Some (frames, Inr rt1))"
| "loop_step uni order rt (Received (FrameInput input)) = handle_input uni order rt input"
| "loop_step uni order rt (Received (FrameResume _)) = Some ([], Inr rt)"

text \<open>The loop over the events of a run, until the channel closes or a step fails.\<close>

fun loop_run ::
  "unicode \<Rightarrow> (session_service \<Rightarrow> session_id list) \<Rightarrow> tenant_runtime \<Rightarrow> loop_event list \<Rightarrow> loop_result option" where
  "loop_run uni order rt [] = Some ([], Inr rt)"
| "loop_run uni order rt (ev # evs) =
     (case loop_step uni order rt ev of
        None \<Rightarrow> None
      | Some (frames, Inl f) \<Rightarrow> Some (frames, Inl f)
      | Some (frames, Inr rt1) \<Rightarrow> map_option (\<lambda>(frames', r). (frames @ frames', r)) (loop_run uni order rt1 evs))"

end
