(* ===== verification/Live_Loop.thy ===== *)
theory Live_Loop
  imports World_Loop Repository
begin

text \<open>
  The server loop as a whole: while the database does not fail it runs for ever, whatever players
  and clock do, and memory and database agree after every step; a step from line to database.
\<close>

section \<open>Residency\<close>

lemma mirrors_adopt:
  assumes m: "mirrors pw" and w: "world_inv w" "\<And>e'. live w e' \<longleftrightarrow> e' = e \<or> live (pw_world pw) e'"
    and views: "location_of w = (location_of (pw_world pw))(e := loc)" "inventory_of w = inventory_of (pw_world pw)"
    and new: "pw_by_id pw e = None" "pw_by_key pw key = None"
    and db: "db_ok db" "db_entities db = db_entities (pw_db pw)" "db_location db = db_location (pw_db pw)"
      "db_inventory db = db_inventory (pw_db pw)"
    and row: "row_of key \<in> set (db_entities db)"
      "map_of (db_location db) (row_of key) = map_option (slug_of (pw_places pw)) loc"
      "\<And>p. loc = Some p \<Longrightarrow> pm_by_id (pw_places pw) p \<noteq> None"
  shows "mirrors (map_resident (pw\<lparr>pw_world := w, pw_db := db\<rparr>) key e)" (is "mirrors ?pw")
proof -
  have res: "resident ?pw e' k' \<longleftrightarrow> (if e' = e then k' = key else resident pw e' k')" for e' k'
    by (auto simp: resident_def map_resident_def)
  have sel: "pw_world ?pw = w" "pw_db ?pw = db" "pw_places ?pw = pw_places pw"
      "pw_by_key ?pw = (pw_by_key pw)(key \<mapsto> e)" "pw_by_id ?pw = (pw_by_id pw)(e \<mapsto> key)"
    by (simp_all add: map_resident_def)
  have new_key: "\<not> resident pw e' key" for e' using new(2) mirrorsD(4) [OF m, of key e'] by simp
  show ?thesis
    unfolding mirrors_def res sel
  proof (intro conjI allI impI)
    show "world_inv w" "db_ok db" "places_ok (pw_places pw)" using w(1) db(1) mirrorsD(3) [OF m] .
    fix e' k' p r u
    show "((pw_by_key pw)(key \<mapsto> e)) k' = Some e' \<longleftrightarrow> (if e' = e then k' = key else resident pw e' k')"
      using mirrorsD(4) [OF m] new_key new(1) by (auto simp: resident_def)
    show "live w e' \<longleftrightarrow> ((pw_by_id pw)(e \<mapsto> key)) e' \<noteq> None"
      using mirrorsD(5) [OF m] by (auto simp: w(2))
    show "row_of k' \<in> set (db_entities db)" if "if e' = e then k' = key else resident pw e' k'"
      using that mirrorsD(6) [OF m, of e' k'] row(1) db(2) by (auto split: if_splits)
    show "map_of (db_location db) (row_of k') = map_option (slug_of (pw_places pw)) (location_of w e')"
      if "if e' = e then k' = key else resident pw e' k'"
      using that mirrorsD(7) [OF m, of e' k'] row(2) by (auto simp: views db(3) split: if_splits)
    show "pm_by_id (pw_places pw) p \<noteq> None" if "location_of w e' = Some p"
      using that mirrorsD(8) [OF m, of e' p] row(3) by (auto simp: views split: if_splits)
    show "\<exists>p. place_id_for_slug (pw_places pw) u = Inr p" if "(r, u) \<in> set (db_location db)"
      using that mirrorsD(9) [OF m] by (auto simp: db(3))
  next
    fix r s assume "(r, s) \<in> set (db_inventory db)"
    then obtain ei ec ki kc where "resident pw ei ki" "resident pw ec kc" "row_of ki = r" "row_of kc = s"
        "id_slot ei \<in> id_slot ` set (inventory_of (pw_world pw) ec)"
      using mirrorsD(10) [OF m, of r s] by (auto simp: db(4))
    moreover from this(1,2) have "ei \<noteq> e" "ec \<noteq> e" using new(1) by (auto simp: resident_def)
    ultimately show "\<exists>ei ec ki kc. (if ei = e then ki = key else resident pw ei ki) \<and>
        (if ec = e then kc = key else resident pw ec kc) \<and> row_of ki = r \<and> row_of kc = s \<and>
        id_slot ei \<in> id_slot ` set (inventory_of w ec)"
      unfolding views by metis
  qed
qed

text \<open>What a step may do to the world around the sessions: entities stay, and nothing changes hands.\<close>

definition keeps_around :: "persistent_world \<Rightarrow> persistent_world \<Rightarrow> bool" where
  "keeps_around pw pw' \<longleftrightarrow>
     (\<forall>e. live (pw_world pw) e \<longrightarrow> live (pw_world pw') e) \<and>
     inventory_of (pw_world pw') = inventory_of (pw_world pw) \<and>
     pw_places pw' = pw_places pw \<and> pw_scheduler pw' = pw_scheduler pw"

lemma keeps_around_refl [simp]: "keeps_around pw (pw\<lparr>pw_db := db\<rparr>)" "keeps_around pw pw"
  by (simp_all add: keeps_around_def)

lemma keeps_around_trans: "keeps_around a b \<Longrightarrow> keeps_around b c \<Longrightarrow> keeps_around a c"
  by (simp add: keeps_around_def)

lemma mirrors_db:
  assumes "mirrors pw" and "db_ok db" and "db_entities db = db_entities (pw_db pw)"
    and "db_location db = db_location (pw_db pw)" and "db_inventory db = db_inventory (pw_db pw)"
  shows "mirrors (pw\<lparr>pw_db := db\<rparr>)"
  using mirrors_update [OF assms(1), of "pw_world pw" db] assms(2-5) mirrorsD [OF assms(1)] by simp

lemma hydrate_mirrors:
  assumes m: "mirrors pw" and ff: "fault_free (pw_db pw)"
  obtains r pw' where "hydrate pw key = Some (r, pw')" "mirrors pw'" "fault_free (pw_db pw')" "keeps_around pw pw'"
    "\<forall>e. r = Inr e \<longrightarrow> pw_by_key pw' key = Some e"
    "\<forall>e slug p. r = Inr e \<and> pw_by_key pw key = None \<and> map_of (db_location (pw_db pw)) (row_of key) = Some slug \<and>
       place_id_for_slug (pw_places pw) slug = Inr p \<longrightarrow> location_of (pw_world pw') e = Some p"
    "pw_by_key pw key = None \<and> row_of key \<in> set (db_entities (pw_db pw)) \<longrightarrow>
       (\<exists>e. r = Inr e) \<or> r = Inl (LoadArenaExhausted key Exhausted)"
proof (cases "pw_by_key pw key")
  case (Some e)
  with m ff show thesis by (intro that [of "Inr e" pw]) (simp_all add: hydrate_def)
next
  case None
  note dbok = mirrorsD(2) [OF m]
  define n where "n = db_clock (pw_db pw)"
  define db1 where "db1 = (pw_db pw)\<lparr>db_clock := Suc n\<rparr>"
  define db2 where "db2 = (pw_db pw)\<lparr>db_clock := Suc (Suc n)\<rparr>"
  have dbs: "mirrors (pw\<lparr>pw_db := db1\<rparr>)" "fault_free db1" "fault_free db2" "db_ok db2"
    using mirrors_db [OF m] dbok ff by (simp_all add: db1_def db2_def)
  show thesis
  proof (cases "row_of key \<in> set (db_entities (pw_db pw))")
    case False
    show thesis
    proof (cases "row_of key \<le> i64_max")
      case True
      then have "hydrate pw key = Some (Inl (DanglingReference (row_of key)), pw\<lparr>pw_db := db1\<rparr>)"
        using None False ff by (simp add: hydrate_def run_fault_free select_entity_def db1_def n_def)
      with dbs False show thesis by (intro that [of "Inl (DanglingReference (row_of key))" "pw\<lparr>pw_db := db1\<rparr>"]) simp_all
    next
      case big: False
      then have "hydrate pw key = Some (Inl (KeyOutOfRange (ekey_get key)), pw)"
        using None by (simp add: hydrate_def entity_key_to_db_def nonzero_to_db_def)
      with m ff False show thesis by (intro that [of "Inl (KeyOutOfRange (ekey_get key))" pw]) simp_all
    qed
  next
    case True
    have key: "entity_key_to_db key = Inr (row_of key)" using db_okD(4) [OF dbok True] by simp
    have sel: "run_statement (select_entity (row_of key)) (pw_db pw) = (Inr True, db1)"
      using True ff by (simp add: run_fault_free select_entity_def db1_def n_def)
    have loc: "run_statement (select_location (row_of key)) db1 = (Inr (map_of (db_location (pw_db pw)) (row_of key)), db2)"
      using dbs(2) by (simp add: run_fault_free select_location_def db1_def db2_def)
    show thesis
      using mirrorsD(1) [OF m]
    proof (cases rule: create_cases)
      case full
      then have "hydrate pw key = Some (Inl (LoadArenaExhausted key Exhausted), pw\<lparr>pw_db := db1\<rparr>)"
        using None key sel by (simp add: hydrate_def)
      with dbs show thesis by (intro that [of "Inl (LoadArenaExhausted key Exhausted)" "pw\<lparr>pw_db := db1\<rparr>"]) simp_all
    next
      case (fresh a e)
      let ?w = "pw_world pw\<lparr>w_arena := a\<rparr>"
      have views: "alive a e' \<longleftrightarrow> e' = e \<or> live (pw_world pw) e'" "location_of ?w = location_of (pw_world pw)"
          "inventory_of ?w = inventory_of (pw_world pw)" for e'
        using view_sels [OF create_view(1) [OF mirrorsD(1) [OF m] fresh(1)]] by simp_all
      have "\<not> live (pw_world pw) e" using create_view(2) [OF mirrorsD(1) [OF m] fresh(1)] by auto
      then have unmapped: "pw_by_id pw e = None" "location_of (pw_world pw) e = None"
        using mirrorsD(5) [OF m, of e] by (simp_all add: world_views)
      have inv: "world_inv ?w" using world_inv_create [OF mirrorsD(1) [OF m] fresh(2)] .
      show thesis
      proof (cases "map_of (db_location (pw_db pw)) (row_of key)")
        case no: None
        define pw' where "pw' = map_resident (pw\<lparr>pw_world := ?w, pw_db := db2\<rparr>) key e"
        have "mirrors pw'"
          unfolding pw'_def
          by (rule mirrors_adopt [OF m inv, of _ None])
            (use views unmapped None dbs(4) True no in \<open>auto simp: db2_def fun_upd_idem\<close>)
        moreover have "hydrate pw key = Some (Inr e, pw')"
          using None key sel fresh loc no by (simp add: hydrate_def pw'_def map_resident_def)
        ultimately show thesis
          using views dbs(3) None no
          by (intro that [of "Inr e" pw']) (simp_all add: pw'_def keeps_around_def map_resident_def)
      next
        case (Some slug)
        obtain p where p: "place_id_for_slug (pw_places pw) slug = Inr p"
          using mirrorsD(9) [OF m map_of_SomeD [OF Some]] by blast
        have pl: "slug_of (pw_places pw) p = slug" "pm_by_id (pw_places pw) p \<noteq> None"
          using place_id_for_slug_ok [OF mirrorsD(3) [OF m] p] by simp_all
        have lv: "live ?w e" using views(1) [of e] by simp
        obtain w2 where w2: "apply_effect ?w (MoveTo e p) = Some (w2, None)" "world_inv w2"
            "world_view w2 = view_apply (world_view ?w) (MoveTo e p)"
          by (rule effect_live [OF inv, of "MoveTo e p"]) (simp_all add: views(1))
        then have mv: "move_to ?w e p = Some (w2, Inr ())"
          by (cases "move_to ?w e p") (auto elim: rejection.elims)
        have v2: "live w2 e' \<longleftrightarrow> e' = e \<or> live (pw_world pw) e'" "location_of w2 = (location_of (pw_world pw))(e := Some p)"
            "inventory_of w2 = inventory_of (pw_world pw)" for e'
          using view_sels [OF w2(3)] views by simp_all
        define pw' where "pw' = map_resident (pw\<lparr>pw_world := w2, pw_db := db2\<rparr>) key e"
        have "mirrors pw'"
          unfolding pw'_def
          by (rule mirrors_adopt [OF m w2(2), of _ "Some p"])
            (use v2 unmapped None dbs(4) True Some pl in \<open>auto simp: db2_def\<close>)
        moreover have "hydrate pw key = Some (Inr e, pw')"
          using None key sel fresh loc Some p mv by (simp add: hydrate_def pw'_def map_resident_def)
        ultimately show thesis
          using v2 dbs(3) None Some p
          by (intro that [of "Inr e" pw']) (simp_all add: pw'_def keeps_around_def map_resident_def)
      qed
    qed
  qed
qed

section \<open>The account store keeps the world\<close>

definition world_tables_same :: "tenant_db \<Rightarrow> tenant_db \<Rightarrow> bool" where
  "world_tables_same db db' \<longleftrightarrow>
     db_entities db' = db_entities db \<and> db_entity_seq db' = db_entity_seq db \<and> db_location db' = db_location db \<and>
     db_inventory db' = db_inventory db \<and> db_faults db' = db_faults db"

lemma mirrors_same:
  assumes "mirrors pw" and "fault_free (pw_db pw)" and "world_tables_same (pw_db pw) db"
  shows "mirrors (pw\<lparr>pw_db := db\<rparr>)" and "fault_free db"
proof -
  have "db_ok db" using mirrorsD(2) [OF assms(1)] assms(3) by (simp add: db_ok_def world_tables_same_def)
  with assms show "mirrors (pw\<lparr>pw_db := db\<rparr>)" by (intro mirrors_db) (simp_all add: world_tables_same_def)
  show "fault_free db" using assms(2,3) by (simp add: fault_free_def world_tables_same_def)
qed

lemma account_tables:
  "world_tables_same db (snd (accounts_authenticate verify name password db))"
  "world_tables_same db (snd (accounts_register name cred db))"
  "world_tables_same db (snd (accounts_puppets_of account db))"
  by (auto simp: accounts_authenticate_def accounts_register_def accounts_puppets_of_def run_statement_def
      find_account_def insert_account_def select_puppets_def world_tables_same_def Let_def
      split: sum.split option.split prod.split)

lemma puppet_rows_mirror:
  assumes m: "mirrors pw" and ff: "fault_free (pw_db pw)" and added: "puppet_added a name start (pw_db pw) db"
    and seq: "db_entity_seq (pw_db pw) < i64_max" and known: "place_id_for_slug (pw_places pw) (place_key_str start) = Inr p"
  shows "mirrors (pw\<lparr>pw_db := db\<rparr>)" "fault_free db"
    "map_of (db_location db) (db_entity_seq (pw_db pw) + 1) = Some (place_key_str start)"
    "db_entity_seq (pw_db pw) + 1 \<in> set (db_entities db)"
    "pw_by_key pw (EntityKey (word_of_int (db_entity_seq (pw_db pw) + 1))) = None"
    "row_of (EntityKey (word_of_int (db_entity_seq (pw_db pw) + 1))) = db_entity_seq (pw_db pw) + 1"
proof -
  let ?k = "db_entity_seq (pw_db pw) + 1"
  note D = db_okD [OF mirrorsD(2) [OF m]]
  obtain n where db: "db = (pw_db pw)\<lparr>db_entities := db_entities (pw_db pw) @ [?k], db_entity_seq := ?k,
      db_puppets := db_puppets (pw_db pw) @ [\<lparr>pr_entity_key = ?k, pr_account_id = a, pr_name = puppet_name_str name\<rparr>],
      db_location := AList.update ?k (place_key_str start) (db_location (pw_db pw)), db_clock := n\<rparr>"
    using added unfolding puppet_added_def Let_def by blast
  have T: "db_entities db = db_entities (pw_db pw) @ [?k]" "db_entity_seq db = ?k" "db_faults db = db_faults (pw_db pw)"
      "db_location db = AList.update ?k (place_key_str start) (db_location (pw_db pw))" "db_inventory db = db_inventory (pw_db pw)"
    using db by simp_all
  have fresh: "?k \<notin> set (db_entities (pw_db pw))" using D(3) [of ?k] by auto
  have ok: "db_ok db"
    using mirrorsD(2) [OF m] fresh seq D(10)
    by (auto simp: db_ok_def T distinct_update dom_update)
  show row: "row_of (EntityKey (word_of_int ?k)) = ?k" using D(10) seq by (intro row_of_word) simp_all
  have old: "row_of k' \<noteq> ?k" if "resident pw e' k'" for e' k'
    using mirrorsD(6) [OF m that] fresh by auto
  show "pw_by_key pw (EntityKey (word_of_int ?k)) = None"
    using old row mirrorsD(4) [OF m, of "EntityKey (word_of_int ?k)"] by (metis option.exhaust)
  show "fault_free db" using ff by (simp add: fault_free_def T)
  show "map_of (db_location db) ?k = Some (place_key_str start)" by (simp add: T update_conv')
  show "?k \<in> set (db_entities db)" by (simp add: T)
  have res: "resident (pw\<lparr>pw_db := db\<rparr>) = resident pw" by (intro ext) (simp add: resident_def)
  show "mirrors (pw\<lparr>pw_db := db\<rparr>)"
    unfolding mirrors_def res
  proof (intro conjI allI impI)
    show "world_inv (pw_world (pw\<lparr>pw_db := db\<rparr>))" "db_ok (pw_db (pw\<lparr>pw_db := db\<rparr>))" "places_ok (pw_places (pw\<lparr>pw_db := db\<rparr>))"
      using mirrorsD(1,3) [OF m] ok by simp_all
    fix e k q r u
    show "pw_by_key (pw\<lparr>pw_db := db\<rparr>) k = Some e \<longleftrightarrow> resident pw e k" using mirrorsD(4) [OF m] by simp
    show "live (pw_world (pw\<lparr>pw_db := db\<rparr>)) e \<longleftrightarrow> pw_by_id (pw\<lparr>pw_db := db\<rparr>) e \<noteq> None" using mirrorsD(5) [OF m] by simp
    show "row_of k \<in> set (db_entities (pw_db (pw\<lparr>pw_db := db\<rparr>)))" if "resident pw e k"
      using mirrorsD(6) [OF m that] by (simp add: T)
    show "map_of (db_location (pw_db (pw\<lparr>pw_db := db\<rparr>))) (row_of k) =
        map_option (slug_of (pw_places (pw\<lparr>pw_db := db\<rparr>))) (location_of (pw_world (pw\<lparr>pw_db := db\<rparr>)) e)" if "resident pw e k"
      using mirrorsD(7) [OF m that] old [OF that] by (simp add: T update_conv')
    show "pm_by_id (pw_places (pw\<lparr>pw_db := db\<rparr>)) q \<noteq> None" if "location_of (pw_world (pw\<lparr>pw_db := db\<rparr>)) e = Some q"
      using that mirrorsD(8) [OF m] by simp
    show "\<exists>q. place_id_for_slug (pw_places (pw\<lparr>pw_db := db\<rparr>)) u = Inr q" if "(r, u) \<in> set (db_location (pw_db (pw\<lparr>pw_db := db\<rparr>)))"
    proof -
      have "map_of (db_location db) r = Some u" using that db_okD(5) [OF ok] by simp
      then have "u = place_key_str start \<or> map_of (db_location (pw_db pw)) r = Some u"
        by (auto simp: T update_conv' split: if_splits)
      with known mirrorsD(9) [OF m] show ?thesis by (auto dest: map_of_SomeD)
    qed
  next
    fix r q assume "(r, q) \<in> set (db_inventory (pw_db (pw\<lparr>pw_db := db\<rparr>)))"
    with mirrorsD(10) [OF m, of r q] show "\<exists>ei ec ki kc. resident pw ei ki \<and> resident pw ec kc \<and> row_of ki = r \<and> row_of kc = q \<and>
        id_slot ei \<in> id_slot ` set (inventory_of (pw_world (pw\<lparr>pw_db := db\<rparr>)) ec)"
      by (simp add: T)
  qed
qed

section \<open>A store that keeps what the sessions hold\<close>

definition bound_in :: "session_service \<Rightarrow> (entity_id \<Rightarrow> bool) \<Rightarrow> bool" where
  "bound_in svc P \<longleftrightarrow> (\<forall>sid bd. ss_sessions svc sid = Some (InWorld bd) \<longrightarrow> P (bind_puppet bd))"

lemma bound_in_set:
  "bound_in svc P \<Longrightarrow> (\<And>bd. st = Some (InWorld bd) \<Longrightarrow> P (bind_puppet bd)) \<Longrightarrow> bound_in (set_session svc sid st) P"
  by (auto simp: bound_in_def set_session_def)

lemma bound_in_mono: "bound_in svc P \<Longrightarrow> (\<And>e. P e \<Longrightarrow> Q e) \<Longrightarrow> bound_in svc Q"
  by (auto simp: bound_in_def)

text \<open>
  A store whose operations keep its state sound and only ever extend what it holds, and which
  resolves a puppet to something it holds: then so does everything the login driver does with it,
  and every session that has entered the world controls something the store holds.
\<close>

locale kept_backend =
  fixes be :: "'b login_backend"
    and ok :: "'b \<Rightarrow> bool"
    and ext :: "'b \<Rightarrow> 'b \<Rightarrow> bool"
    and has :: "'b \<Rightarrow> entity_id \<Rightarrow> bool"
  assumes auth_kept: "ok b \<Longrightarrow> be_authenticate be b u pw = (r1, b') \<Longrightarrow> ok b' \<and> ext b b'"
    and register_kept: "ok b \<Longrightarrow> be_register be b u pw = (r2, b') \<Longrightarrow> ok b' \<and> ext b b'"
    and puppets_kept: "ok b \<Longrightarrow> be_puppets_of be b a = (r3, b') \<Longrightarrow> ok b' \<and> ext b b'"
    and create_kept: "ok b \<Longrightarrow> be_create_puppet be b a n = (r4, b') \<Longrightarrow> ok b' \<and> ext b b'"
    and resolve_kept: "ok b \<Longrightarrow> be_resolve_puppet be b k = (r5, b') \<Longrightarrow> ok b' \<and> ext b b'"
    and resolve_has: "ok b \<Longrightarrow> be_resolve_puppet be b k = (Some e, b') \<Longrightarrow> has b' e"
    and ext_has: "ext b b' \<Longrightarrow> has b e \<Longrightarrow> has b' e"
    and ext_refl: "ok b \<Longrightarrow> ext b b"
    and ext_trans: "ext b b' \<Longrightarrow> ext b' b'' \<Longrightarrow> ext b b''"
begin

lemma perform_kept:
  assumes "ok b" and "perform be b e = (r, b')"
  shows "ok b' \<and> ext b b'"
proof (cases e)
  case (Authenticate u pw)
  obtain ra b1 where a: "be_authenticate be b u pw = (ra, b1)" by fastforce
  note k1 = auth_kept [OF assms(1) a]
  show ?thesis
  proof (cases "\<exists>acc. ra = Inr (Inr acc)")
    case True
    then obtain acc where ra: "ra = Inr (Inr acc)" by blast
    obtain rp b2 where p: "be_puppets_of be b1 (acc_id acc) = (rp, b2)" by fastforce
    have "b' = b2" using assms(2) Authenticate a ra p by (auto split: sum.splits)
    with puppets_kept [OF _ p] k1 ext_trans show ?thesis by blast
  next
    case False
    with assms(2) Authenticate a k1 show ?thesis by (auto split: sum.splits)
  qed
next
  case (Register u pw)
  obtain r1 b1 where a: "be_register be b u pw = (r1, b1)" by fastforce
  with register_kept [OF assms(1) a] assms(2) Register show ?thesis by (auto split: sum.splits)
next
  case (CreatePuppet a n)
  obtain r1 b1 where a: "be_create_puppet be b a n = (r1, b1)" by fastforce
  with create_kept [OF assms(1) a] assms(2) CreatePuppet show ?thesis by (auto split: sum.splits)
next
  case (Enter a k)
  obtain r1 b1 where a: "be_resolve_puppet be b k = (r1, b1)" by fastforce
  with resolve_kept [OF assms(1) a] assms(2) Enter show ?thesis by (auto split: option.splits)
qed

lemma apply_terminal_kept:
  assumes "ok b" and "bound_in svc (has b)" and "apply_terminal be sid svc b fin = (res, svc', b')"
  shows "ok b' \<and> ext b b' \<and> bound_in svc' (has b')"
proof (cases fin)
  case Closed
  with assms ext_refl [OF assms(1)] show ?thesis by (auto intro: bound_in_set)
next
  case (Bound a k n)
  obtain r b1 where rs: "be_resolve_puppet be b k = (r, b1)" by fastforce
  note k1 = resolve_kept [OF assms(1) rs]
  have old: "bound_in svc (has b1)" using assms(2) ext_has k1 by (blast intro: bound_in_mono)
  show ?thesis
  proof (cases r)
    case None
    with assms(3) Bound rs k1 old show ?thesis by (auto intro: bound_in_set)
  next
    case (Some e)
    with rs have "has b1 e" using resolve_has [OF assms(1)] by blast
    with assms(3) Bound rs Some k1 old show ?thesis by (auto intro!: bound_in_set)
  qed
qed

lemma drive_kept:
  "be' = be \<Longrightarrow> ok b \<Longrightarrow> bound_in svc (has b) \<Longrightarrow> drive be' sid svc b outs pending t = (rt, svc', b') \<Longrightarrow>
    ok b' \<and> ext b b' \<and> bound_in svc' (has b')"
proof (induction be' sid svc b outs pending t arbitrary: rt svc' b' rule: drive.induct)
  case (1 be' sid svc b outs0 pending0 t)
  note be = 1(2) and okb = 1(3) and held = 1(4) and run = 1(5)
  obtain outs pending where em: "emit svc sid outs0 pending0 t = (outs, pending)" by fastforce
  show ?case
  proof (cases "terminal t")
    case (Some fin)
    obtain cb svc1 b1 where ap: "apply_terminal be sid svc b fin = (cb, svc1, b1)" by (metis prod.exhaust)
    have "svc' = svc1 \<and> b' = b1"
      using run em Some ap be by (subst (asm) drive.simps) (auto split: prod.splits)
    with apply_terminal_kept [OF okb held ap] show ?thesis by simp
  next
    case no_term: None
    show ?thesis
    proof (cases "effect t")
      case None
      then have "svc' = svc \<and> b' = b" using run em no_term by (subst (asm) drive.simps) simp
      with okb held ext_refl show ?thesis by simp
    next
      case (Some e)
      obtain r b1 where pf: "perform be' b e = (r, b1)" by fastforce
      have k1: "ok b1" "ext b b1" using perform_kept [OF okb] pf be by auto
      have held1: "bound_in svc (has b1)" using held ext_has k1(2) by (blast intro: bound_in_mono)
      show ?thesis
      proof (cases "\<exists>fsm. ss_sessions svc sid = Some (Login fsm)")
        case True
        then obtain fsm where st: "ss_sessions svc sid = Some (Login fsm)" by blast
        obtain fsm1 t1 where oe: "on_effect fsm r = (fsm1, t1)" by fastforce
        have "drive be' sid (set_session svc sid (Some (Login fsm1))) b1 outs pending t1 = (rt, svc', b')"
          using run em no_term Some pf st oe by (subst (asm) drive.simps) simp
        from 1(1) [OF em [symmetric] refl no_term Some pf [symmetric] refl st refl oe [symmetric] refl be k1(1) _ this]
          bound_in_set [OF held1] ext_trans [OF k1(2)] show ?thesis by blast
      next
        case False
        then have "svc' = svc \<and> b' = b1"
          using run em no_term Some pf
          by (subst (asm) drive.simps) (auto split: option.splits session_state.splits)
        with k1 held1 show ?thesis by simp
      qed
    qed
  qed
qed

lemma service_input_kept:
  assumes "ok b" and "bound_in svc (has b)" and "service_input be svc b sid line = (rt, svc', b')"
  shows "ok b' \<and> ext b b' \<and> bound_in svc' (has b')"
proof (cases "\<exists>fsm. ss_sessions svc sid = Some (Login fsm)")
  case True
  then obtain fsm where st: "ss_sessions svc sid = Some (Login fsm)" by blast
  obtain fsm1 t where oi: "on_input fsm line = (fsm1, t)" by fastforce
  have "drive be sid (set_session svc sid (Some (Login fsm1))) b [] None t = (rt, svc', b')"
    using assms(3) st oi by (simp add: service_input_def)
  from drive_kept [OF refl assms(1) _ this] bound_in_set [OF assms(2)] show ?thesis by blast
next
  case False
  with assms ext_refl [OF assms(1)] show ?thesis
    by (auto simp: service_input_def split: option.splits session_state.splits)
qed

end

text \<open>The tenant's own store is one: what it holds are the live entities of the world.\<close>

definition start_known :: "backend_config \<Rightarrow> persistent_world \<Rightarrow> bool" where
  "start_known cfg pw \<longleftrightarrow> (\<exists>p. place_id_for_slug (pw_places pw) (place_key_str (bc_start_room cfg)) = Inr p)"

definition store_ok :: "backend_config \<Rightarrow> persistent_world option \<Rightarrow> bool" where
  "store_ok cfg s \<longleftrightarrow> (\<exists>pw. s = Some pw \<and> mirrors pw \<and> fault_free (pw_db pw) \<and> start_known cfg pw)"

definition store_ext :: "persistent_world option \<Rightarrow> persistent_world option \<Rightarrow> bool" where
  "store_ext s s' \<longleftrightarrow> (\<exists>pw pw'. s = Some pw \<and> s' = Some pw' \<and> keeps_around pw pw')"

definition store_has :: "persistent_world option \<Rightarrow> entity_id \<Rightarrow> bool" where
  "store_has s e \<longleftrightarrow> (\<exists>pw. s = Some pw \<and> live (pw_world pw) e)"

lemma start_known_around: "start_known cfg pw \<Longrightarrow> keeps_around pw pw' \<Longrightarrow> start_known cfg pw'"
  by (simp add: start_known_def keeps_around_def)

lemma on_db_kept:
  assumes "store_ok cfg s" and "\<And>db. world_tables_same db (snd (st db))"
    and "stored (\<lambda>pw. Some (on_db st pw)) s = (r, s')"
  shows "store_ok cfg s' \<and> store_ext s s'"
proof -
  obtain pw where pw: "s = Some pw" "mirrors pw" "fault_free (pw_db pw)" "start_known cfg pw"
    using assms(1) by (auto simp: store_ok_def)
  obtain r1 db where st: "st (pw_db pw) = (r1, db)" by fastforce
  have "world_tables_same (pw_db pw) db" using assms(2) [of "pw_db pw"] st by simp
  from mirrors_same [OF pw(2,3) this] have "mirrors (pw\<lparr>pw_db := db\<rparr>)" "fault_free db" .
  moreover have "s' = Some (pw\<lparr>pw_db := db\<rparr>)" using assms(3) pw(1) st by (simp add: stored_def on_db_def)
  ultimately show ?thesis
    using pw(1,4) by (simp add: store_ok_def store_ext_def start_known_def)
qed

lemma create_puppet_kept:
  assumes m: "mirrors pw" and ff: "fault_free (pw_db pw)" and start: "start_known cfg pw"
  obtains r pw' where "db_create_puppet cfg pw account name = Some (r, pw')" "mirrors pw'" "fault_free (pw_db pw')"
    "keeps_around pw pw'"
    "\<And>p. r = Inr p \<Longrightarrow> \<exists>e q. pw_by_key pw' (puppet_key p) = Some e \<and> pw_by_key pw (puppet_key p) = None \<and>
       place_id_for_slug (pw_places pw) (place_key_str (bc_start_room cfg)) = Inr q \<and>
       location_of (pw_world pw') e = Some q"
proof -
  obtain q where q: "place_id_for_slug (pw_places pw) (place_key_str (bc_start_room cfg)) = Inr q"
    using start by (auto simp: start_known_def)
  obtain r1 db where c: "accounts_create_puppet account name (bc_start_room cfg) (pw_db pw) = (r1, db)" by fastforce
  from c db_okD(10) [OF mirrorsD(2) [OF m]] show thesis
  proof (cases rule: create_puppet_cases)
    case (failed e)
    have "world_tables_same (pw_db pw) db"
      by (subst failed(2)) (simp add: world_tables_same_def)
    from mirrors_same [OF m ff this] show thesis
      using c failed(1) by (intro that [of "Inl BackendFault" "pw\<lparr>pw_db := db\<rparr>"]) (simp_all add: db_create_puppet_def on_db_def)
  next
    case (created p)
    let ?pw = "pw\<lparr>pw_db := db\<rparr>"
    note rows = puppet_rows_mirror [OF m ff created(3,4) q, folded created(2)]
    have m1: "mirrors ?pw" and ff1: "fault_free (pw_db ?pw)" using rows(1,2) by simp_all
    obtain r pw' where h: "hydrate ?pw (puppet_key p) = Some (r, pw')" "mirrors pw'" "fault_free (pw_db pw')"
        "keeps_around ?pw pw'" "\<forall>e. r = Inr e \<longrightarrow> pw_by_key pw' (puppet_key p) = Some e"
        "\<forall>e slug p'. r = Inr e \<and> pw_by_key ?pw (puppet_key p) = None \<and>
           map_of (db_location (pw_db ?pw)) (row_of (puppet_key p)) = Some slug \<and>
           place_id_for_slug (pw_places ?pw) slug = Inr p' \<longrightarrow> location_of (pw_world pw') e = Some p'"
      by (rule hydrate_mirrors [OF m1 ff1, of "puppet_key p"])
    have run: "db_create_puppet cfg pw account name = Some (case r of Inl _ \<Rightarrow> Inl BackendFault | Inr _ \<Rightarrow> Inr p, pw')"
      using c created(1) h(1) by (simp add: db_create_puppet_def on_db_def)
    have around: "keeps_around pw pw'" using keeps_around_trans [OF keeps_around_refl(1) h(4)] .
    show thesis
    proof (rule that [OF run h(2,3) around])
      fix p' assume "(case r of Inl _ \<Rightarrow> Inl BackendFault | Inr _ \<Rightarrow> Inr p) = Inr p'"
      then obtain e where e: "r = Inr e" "p' = p" by (cases r) auto
      with h(5,6) rows(3,5,6) q show "\<exists>e q. pw_by_key pw' (puppet_key p') = Some e \<and> pw_by_key pw (puppet_key p') = None \<and>
          place_id_for_slug (pw_places pw) (place_key_str (bc_start_room cfg)) = Inr q \<and>
          location_of (pw_world pw') e = Some q"
        by auto
    qed
  qed
qed

interpretation tenant_store: kept_backend "db_backend cfg" "store_ok cfg" store_ext store_has
  for cfg
proof unfold_locales
  fix b b' b'' :: "persistent_world option" and u pw a n k e r1 r2 r3 r4 r5
  assume ok: "store_ok cfg b"
  show "store_ok cfg b' \<and> store_ext b b'" if "be_authenticate (db_backend cfg) b u pw = (r1, b')"
    using that on_db_kept [OF ok account_tables(1)] by (simp add: db_backend_def db_authenticate_def)
  show "store_ok cfg b' \<and> store_ext b b'" if "be_puppets_of (db_backend cfg) b a = (r3, b')"
    using that on_db_kept [OF ok account_tables(3)] by (simp add: db_backend_def db_puppets_of_def)
  obtain w where w: "b = Some w" "mirrors w" "fault_free (pw_db w)" "start_known cfg w"
    using ok by (auto simp: store_ok_def)
  then show refl: "store_ext b b" by (simp add: store_ext_def)
  show "store_ok cfg b' \<and> store_ext b b'" if reg: "be_register (db_backend cfg) b u pw = (r2, b')"
  proof (cases "credential_hash (bc_hash cfg) pw")
    case (Inl f)
    with reg w(1) have "b' = b" by (simp add: db_backend_def db_register_def stored_def)
    with ok refl show ?thesis by simp
  next
    case (Inr cred)
    with reg have "stored (\<lambda>pw. Some (on_db (accounts_register u cred) pw)) b = (r2, b')"
      by (simp add: db_backend_def db_register_def)
    from on_db_kept [OF ok account_tables(2) this] show ?thesis .
  qed
  show "store_ok cfg b' \<and> store_ext b b'" if cr: "be_create_puppet (db_backend cfg) b a n = (r4, b')"
  proof -
    obtain r w' where "db_create_puppet cfg w a n = Some (r, w')" "mirrors w'" "fault_free (pw_db w')" "keeps_around w w'"
      by (rule create_puppet_kept [OF w(2-4)])
    with cr w(1) start_known_around [OF w(4)] show ?thesis
      by (auto simp: db_backend_def stored_def store_ok_def store_ext_def)
  qed
  show "store_ok cfg b' \<and> store_ext b b'" if "be_resolve_puppet (db_backend cfg) b k = (r5, b')"
    using that ok refl by (auto simp: db_backend_def)
  show "store_has b' e" if "be_resolve_puppet (db_backend cfg) b k = (Some e, b')"
    using that w mirrorsD(4,5) [OF w(2)] by (auto simp: db_backend_def db_resolve_puppet_def store_has_def resident_def)
next
  fix b b' b'' :: "persistent_world option" and e
  show "store_has b' e" if "store_ext b b'" "store_has b e"
    using that by (auto simp: store_ext_def store_has_def keeps_around_def)
  show "store_ext b b''" if "store_ext b b'" "store_ext b' b''"
    using that keeps_around_trans by (auto simp: store_ext_def)
qed

section \<open>Ticks\<close>

definition items_live :: "world \<Rightarrow> bool" where
  "items_live w \<longleftrightarrow> (\<forall>c i. i \<in> set (inventory_of w c) \<longrightarrow> live w i)"

text \<open>The commands that players can queue: unconditional, and recordable whenever they are reached.\<close>

definition queueable :: "persistent_world \<Rightarrow> mutation_command \<Rightarrow> bool" where
  "queueable pw c \<longleftrightarrow> cmd_precondition c = None \<and> keeps_all (cmd_effect c) \<and> storable pw (cmd_effect c)"

lemma queueable_mono:
  assumes "queueable pw c" and "\<And>e. live (pw_world pw) e \<Longrightarrow> live (pw_world pw') e" and "pw_places pw' = pw_places pw"
  shows "queueable pw' c"
  using assms by (cases "cmd_effect c") (auto simp: queueable_def)

lemma view_apply_items:
  assumes "keeps_all eff" and "effect_handles eff \<subseteq> k_live k" and "\<forall>c i. i \<in> set (k_items k c) \<longrightarrow> i \<in> k_live k"
  shows "\<forall>c i. i \<in> set (k_items (view_apply k eff) c) \<longrightarrow> i \<in> k_live k"
  using assms by (cases eff) auto

lemma apply_command_keeps:
  assumes inv: "world_inv w" and items: "items_live w" and c: "cmd_precondition c = None" "keeps_all (cmd_effect c)"
    and ap: "apply_command w c = Some (w', evs)"
  shows "(\<forall>e. live w' e \<longleftrightarrow> live w e) \<and> items_live w'"
proof -
  obtain ev where e: "apply_effect w (cmd_effect c) = Some (w', ev)"
    using ap c(1) by (auto simp: apply_command_def)
  have no_create: "cmd_effect c \<noteq> Create" using c(2) by auto
  show ?thesis
  proof (cases "effect_handles (cmd_effect c) \<subseteq> {e. live w e}")
    case False
    from apply_effect_dead [OF this] e have "w' = w" by auto
    with items show ?thesis by simp
  next
    case True
    obtain w1 where w1: "apply_effect w (cmd_effect c) = Some (w1, None)" "world_inv w1"
        "world_view w1 = view_apply (world_view w) (cmd_effect c)"
      using inv no_create True by (rule effect_live)
    with e have same: "w1 = w'" by simp
    have l: "live w' e \<longleftrightarrow> live w e" for e
      using view_sels(1) [OF w1(3)] view_apply_live [OF c(2), of "world_view w"] same by simp
    have "\<forall>c' i. i \<in> set (k_items (view_apply (world_view w) (cmd_effect c)) c') \<longrightarrow> i \<in> k_live (world_view w)"
      by (rule view_apply_items) (use c(2) True items in \<open>auto simp: items_live_def\<close>)
    with l view_sels(3) [OF w1(3)] same show ?thesis by (simp add: items_live_def)
  qed
qed

lemma apply_all_runs:
  "mirrors pw \<Longrightarrow> fault_free (pw_db pw) \<Longrightarrow> items_live (pw_world pw) \<Longrightarrow> \<forall>c \<in> set cs. queueable pw c \<Longrightarrow>
    \<exists>evs pw'. apply_all pw cs = Some (Inr evs, pw') \<and> mirrors pw' \<and> fault_free (pw_db pw') \<and> items_live (pw_world pw') \<and>
      (\<forall>e. live (pw_world pw') e \<longleftrightarrow> live (pw_world pw) e) \<and> pw_places pw' = pw_places pw"
proof (induction cs arbitrary: pw)
  case (Cons c cs)
  have q: "queueable pw c" using Cons.prems(4) by simp
  then have st: "storable pw (cmd_effect c)" by (simp add: queueable_def)
  obtain ev pw1 where s: "apply_durable pw c = Some (Inr ev, pw1)" "mirrors pw1" "fault_free (pw_db pw1)"
      "pw_places pw1 = pw_places pw"
      "apply_command (pw_world pw) c = Some (pw_world pw1, case ev of None \<Rightarrow> [] | Some x \<Rightarrow> [x])"
    by (rule durable_step [OF Cons.prems(1,2) st])
  have k: "(\<forall>e. live (pw_world pw1) e \<longleftrightarrow> live (pw_world pw) e) \<and> items_live (pw_world pw1)"
    by (rule apply_command_keeps [OF mirrorsD(1) [OF Cons.prems(1)] Cons.prems(3) _ _ s(5)])
      (use q in \<open>simp_all add: queueable_def\<close>)
  have "\<forall>c \<in> set cs. queueable pw1 c" using Cons.prems(4) queueable_mono k s(4) by (metis list.set_intros(2))
  with Cons.IH [OF s(2,3)] k obtain evs pw' where "apply_all pw1 cs = Some (Inr evs, pw')" "mirrors pw'"
      "fault_free (pw_db pw')" "items_live (pw_world pw')"
      "\<forall>e. live (pw_world pw') e \<longleftrightarrow> live (pw_world pw1) e" "pw_places pw' = pw_places pw1"
    by auto
  with s(1,4) k show ?case by auto
qed auto

section \<open>The invariant of the loop\<close>

lemma drive_not_in_world: "fst (drive be sid svc b outs pending t) \<noteq> RoutingInWorld"
proof (induction be sid svc b outs pending t rule: drive.induct)
  case (1 be sid svc b outs0 pending0 t)
  show ?case
    by (subst drive.simps, auto split: prod.split option.split session_state.split) (metis 1)
qed

lemma service_input_in_world:
  assumes "service_input be svc b sid line = (RoutingInWorld, svc', b')"
  shows "svc' = svc \<and> b' = b"
proof (cases "\<exists>fsm. ss_sessions svc sid = Some (Login fsm)")
  case True
  then obtain fsm where st: "ss_sessions svc sid = Some (Login fsm)" by blast
  obtain fsm1 t where oi: "on_input fsm line = (fsm1, t)" by fastforce
  have "drive be sid (set_session svc sid (Some (Login fsm1))) b [] None t = (RoutingInWorld, svc', b')"
    using assms st oi by (simp add: service_input_def)
  with drive_not_in_world show ?thesis by (metis fst_conv)
next
  case False
  with assms show ?thesis by (auto simp: service_input_def split: option.splits session_state.splits)
qed

definition rt_sound :: "unicode \<Rightarrow> tenant_runtime \<Rightarrow> bool" where
  "rt_sound uni rt \<longleftrightarrow>
     mirrors (rt_world rt) \<and> fault_free (pw_db (rt_world rt)) \<and> items_live (pw_world (rt_world rt)) \<and>
     (\<forall>c \<in> set (queue (pw_scheduler (rt_world rt))). queueable (rt_world rt) c) \<and>
     start_known (rt_backend rt) (rt_world rt) \<and> with_builtins uni (rt_pipeline rt) \<and>
     (\<forall>p. rt_places rt p \<noteq> None \<longrightarrow> pm_by_id (pw_places (rt_world rt)) p \<noteq> None) \<and>
     bound_in (rt_sessions rt) (live (pw_world (rt_world rt)))"

lemma rt_soundD:
  assumes "rt_sound uni rt"
  shows "mirrors (rt_world rt)" "fault_free (pw_db (rt_world rt))" "items_live (pw_world (rt_world rt))"
    "\<forall>c \<in> set (queue (pw_scheduler (rt_world rt))). queueable (rt_world rt) c"
    "start_known (rt_backend rt) (rt_world rt)" "with_builtins uni (rt_pipeline rt)"
    "rt_places rt p \<noteq> None \<Longrightarrow> pm_by_id (pw_places (rt_world rt)) p \<noteq> None"
    "bound_in (rt_sessions rt) (live (pw_world (rt_world rt)))"
  using assms unfolding rt_sound_def by blast+

fun ids_left :: "command_id_gen \<Rightarrow> nat" where
  "ids_left (CommandIdGen None) = 0"
| "ids_left (CommandIdGen (Some c)) = 2 ^ 64 - unat c"

lemma next_id_left:
  "next_id g = (r, g') \<Longrightarrow> ids_left g' = ids_left g - 1"
  "next_id g = (Inl e, g') \<Longrightarrow> ids_left g = 0"
proof -
  have "ids_left (snd (next_id g)) = ids_left g - 1 \<and> (\<forall>e. fst (next_id g) = Inl e \<longrightarrow> ids_left g = 0)"
  proof (cases g rule: next_id.cases)
    case (2 c)
    have c: "unat c < 2 ^ 64" using unsigned_less [of c] by simp
    show ?thesis
    proof (cases "unat c + 1 < 2 ^ 64")
      case True
      then have "unat (c + 1) = unat c + 1" using unat_add_lem [where 'a = 64, of c 1] by simp
      with 2 True show ?thesis by (simp add: checked_add_u64_def)
    next
      case False
      with 2 c show ?thesis by (simp add: checked_add_u64_def)
    qed
  qed simp
  then show "next_id g = (r, g') \<Longrightarrow> ids_left g' = ids_left g - 1" "next_id g = (Inl e, g') \<Longrightarrow> ids_left g = 0" by auto
qed

lemma rt_sound_unbind: "rt_sound uni rt \<Longrightarrow> rt_sound uni (unbind rt sid)"
proof -
  assume rs: "rt_sound uni rt"
  have "bound_in (disconnect (rt_sessions rt) sid) (live (pw_world (rt_world rt)))"
    unfolding disconnect_def by (rule bound_in_set [OF rt_soundD(8) [OF rs]]) simp
  with rs show ?thesis by (simp add: rt_sound_def unbind_def)
qed

lemma submit_effects_simps [simp]:
  "pw_world (submit_effects pw effs) = pw_world pw" "pw_db (submit_effects pw effs) = pw_db pw"
  "pw_places (submit_effects pw effs) = pw_places pw" "pw_by_key (submit_effects pw effs) = pw_by_key pw"
  "pw_by_id (submit_effects pw effs) = pw_by_id pw"
  "queue (pw_scheduler (submit_effects pw effs)) = queue (pw_scheduler pw) @ map command_new effs"
  by (induction effs arbitrary: pw) (simp_all add: submit_effects_def submit_durable_def submit_def)

lemma mirrors_submit [simp]: "mirrors (submit_effects pw effs) = mirrors pw"
  by (simp add: mirrors_def resident_def)

lemma dispatch_pipe:
  assumes "dispatch uni pipe w places resolver ros inp = (r, pipe')"
  shows "pipe' = pipe\<lparr>pipe_ids := snd (next_id (pipe_ids pipe))\<rparr>"
    and "r = Inl CommandIdExhausted \<Longrightarrow> \<exists>e g. next_id (pipe_ids pipe) = (Inl e, g)"
  using assms by (auto simp: dispatch_def Let_def split: prod.splits sum.splits option.splits)

lemma reach_queueable:
  assumes rs: "rt_sound uni rt" and at: "location_of (pw_world (rt_world rt)) (caller_entity c) = Some (caller_location c)"
    and reach: "within_reach (pw_world (rt_world rt)) (rt_places rt) c eff"
  shows "queueable (rt_world rt) (command_new eff)"
proof -
  have "pm_by_id (pw_places (rt_world rt)) (caller_location c) \<noteq> None"
    using mirrorsD(8) [OF rt_soundD(1) [OF rs] at] .
  with reach rt_soundD(3,7) [OF rs] show ?thesis
    by (cases eff) (auto simp: queueable_def command_new_def exit_from_def items_live_def)
qed

lemma run_outcome_sound:
  assumes rs: "rt_sound uni rt" and out: "\<forall>eff \<in> set (outc_effects out). queueable (rt_world rt) (command_new eff)"
    and run: "run_outcome order rt sid out = (frames, rt')"
  shows "rt_sound uni rt' \<and> rt_pipeline rt' = rt_pipeline rt"
proof -
  let ?rt = "rt\<lparr>rt_world := submit_effects (rt_world rt) (outc_effects out)\<rparr>"
  have "queueable (rt_world ?rt) c" if "c \<in> set (queue (pw_scheduler (rt_world ?rt)))" for c
  proof -
    have "queueable (rt_world rt) c" using that out rt_soundD(4) [OF rs] by auto
    then show ?thesis by (rule queueable_mono) simp_all
  qed
  then have "rt_sound uni ?rt"
    using rs by (auto simp: rt_sound_def start_known_def)
  then have "rt_sound uni rt'" using run rt_sound_unbind by (auto simp: run_outcome_def Let_def split: if_splits)
  moreover have "rt_pipeline rt' = rt_pipeline rt"
    using run by (auto simp: run_outcome_def Let_def unbind_def split: if_splits)
  ultimately show ?thesis ..
qed

lemma dispatch_queueable:
  assumes rs: "rt_sound uni rt"
    and d: "dispatch uni (rt_pipeline rt) (pw_world (rt_world rt)) (rt_places rt) (registry_resolve svc cmds) ros inp = (Inr out, pipe)"
  shows "\<forall>eff \<in> set (outc_effects out). queueable (rt_world rt) (command_new eff)"
proof
  fix eff assume eff: "eff \<in> set (outc_effects out)"
  obtain bd p where b: "location_of (pw_world (rt_world rt)) (bind_puppet bd) = Some p"
    and run: "engine_line (in_session inp) out \<or>
      (\<exists>reply. out = deliver (pw_world (rt_world rt)) ros (in_session inp) reply \<and>
        modest (pw_world (rt_world rt)) (rt_places rt) (in_world_caller (in_session inp) bd p) reply)"
    using builtin_run [OF rt_soundD(6) [OF rs] d] by blast
  from run eff have "within_reach (pw_world (rt_world rt)) (rt_places rt) (in_world_caller (in_session inp) bd p) eff"
    by (auto simp: engine_line_def remain_def deliver_def modest_def)
  with reach_queueable [OF rs, of "in_world_caller (in_session inp) bd p"] b
  show "queueable (rt_world rt) (command_new eff)" by simp
qed

lemma handle_input_sound:
  assumes rs: "rt_sound uni rt"
  shows "\<exists>frames r. handle_input uni order rt inp = Some (frames, r) \<and>
    (case r of
       Inl f \<Rightarrow> f = IdsExhausted \<and> ids_left (pipe_ids (rt_pipeline rt)) = 0
     | Inr rt' \<Rightarrow> rt_sound uni rt' \<and> ids_left (pipe_ids (rt_pipeline rt)) - 1 \<le> ids_left (pipe_ids (rt_pipeline rt')))"
proof -
  define sid where "sid = in_session inp"
  obtain routing svc s where i: "service_input (db_backend (rt_backend rt)) (rt_sessions rt) (Some (rt_world rt)) sid
      (line_str (in_line inp)) = (routing, svc, s)" by (metis prod.exhaust)
  have "store_ok (rt_backend rt) (Some (rt_world rt))"
    using rt_soundD(1,2,5) [OF rs] by (simp add: store_ok_def)
  moreover have "bound_in (rt_sessions rt) (store_has (Some (rt_world rt)))"
    using rt_soundD(8) [OF rs] by (simp add: bound_in_def store_has_def)
  ultimately have k: "store_ok (rt_backend rt) s \<and> store_ext (Some (rt_world rt)) s \<and> bound_in svc (store_has s)"
    using tenant_store.service_input_kept i by blast
  then obtain pw where pw: "s = Some pw" "mirrors pw" "fault_free (pw_db pw)" "start_known (rt_backend rt) pw"
      "keeps_around (rt_world rt) pw" and held: "bound_in svc (live (pw_world pw))"
    by (auto simp: store_ok_def store_ext_def store_has_def bound_in_def)
  note around = pw(5) [unfolded keeps_around_def]
  define rt1 where "rt1 = rt\<lparr>rt_world := pw, rt_sessions := svc\<rparr>"
  have "items_live (pw_world pw)" using rt_soundD(3) [OF rs] around by (simp add: items_live_def)
  moreover have "\<forall>c \<in> set (queue (pw_scheduler pw)). queueable pw c"
    using rt_soundD(4) [OF rs] around queueable_mono [of "rt_world rt" _ pw] by auto
  ultimately have rs1: "rt_sound uni rt1"
    using pw held rt_soundD(6,7) [OF rs] around by (auto simp: rt_sound_def rt1_def)
  show ?thesis
  proof (cases routing)
    case (RoutingLogin outs close bound)
    then have "handle_input uni order rt inp =
        Some (login_frames order rt1 sid outs close bound, Inr (if close then unbind rt1 sid else rt1))"
      using i pw(1) by (simp add: handle_input_def sid_def rt1_def Let_def)
    with rs1 rt_sound_unbind [OF rs1] show ?thesis by (auto simp: unbind_def rt1_def)
  next
    case RoutingUnknown
    then have "handle_input uni order rt inp = Some ([], Inr rt)"
      using i pw(1) by (simp add: handle_input_def sid_def Let_def)
    with rs show ?thesis by simp
  next
    case RoutingInWorld
    then have same: "svc = rt_sessions rt \<and> s = Some (rt_world rt)" using service_input_in_world [OF i [unfolded RoutingInWorld]] by simp
    then have pw': "pw = rt_world rt" using pw(1) by simp
    obtain r pipe where d: "dispatch uni (rt_pipeline rt) (pw_world (rt_world rt)) (rt_places rt)
        (registry_resolve (rt_sessions rt) (rt_builtins rt))
        (registry_roster (order (rt_sessions rt)) (rt_sessions rt)) inp = (r, pipe)" by fastforce
    let ?rt = "rt\<lparr>rt_pipeline := pipe\<rparr>"
    have pipe: "pipe = (rt_pipeline rt)\<lparr>pipe_ids := snd (next_id (pipe_ids (rt_pipeline rt)))\<rparr>" using dispatch_pipe(1) [OF d] .
    have left: "ids_left (pipe_ids pipe) = ids_left (pipe_ids (rt_pipeline rt)) - 1"
      using next_id_left(1) [of "pipe_ids (rt_pipeline rt)"]
      by (cases "next_id (pipe_ids (rt_pipeline rt))") (auto simp: pipe)
    have rs2: "rt_sound uni ?rt" using rs by (simp add: rt_sound_def with_builtins_def pipe)
    note step = handle_input_def [of uni order rt inp, unfolded Let_def, folded sid_def] i RoutingInWorld same d
    show ?thesis
    proof (cases r)
      case (Inl e)
      show ?thesis
      proof (cases e)
        case (UnknownSession x)
        with Inl step have "handle_input uni order rt inp = Some ([], Inr ?rt)" by (simp add: sid_def)
        with rs2 left show ?thesis by simp
      next
        case CommandIdExhausted
        with Inl step have "handle_input uni order rt inp = Some ([], Inl IdsExhausted)" by (simp add: sid_def)
        moreover have "ids_left (pipe_ids (rt_pipeline rt)) = 0"
          using dispatch_pipe(2) [OF d] Inl CommandIdExhausted next_id_left(2) by blast
        ultimately show ?thesis by simp
      qed
    next
      case (Inr out)
      obtain frames rt' where o': "run_outcome order ?rt sid out = (frames, rt')" by fastforce
      have "handle_input uni order rt inp = Some (frames, Inr rt')" using Inr step o' by (simp add: sid_def)
      moreover have "\<forall>eff \<in> set (outc_effects out). queueable (rt_world ?rt) (command_new eff)"
        using dispatch_queueable [OF rs] d Inr by simp
      ultimately show ?thesis using run_outcome_sound [OF rs2 _ o'] left by auto
    qed
  qed
qed

lemma loop_step_sound:
  assumes rs: "rt_sound uni rt" and left: "0 < ids_left (pipe_ids (rt_pipeline rt))"
  shows "\<exists>frames rt'. loop_step uni order rt ev = Some (frames, Inr rt') \<and> rt_sound uni rt' \<and>
    ids_left (pipe_ids (rt_pipeline rt)) - 1 \<le> ids_left (pipe_ids (rt_pipeline rt'))"
proof (cases ev)
  case TickDue
  define pw0 where "pw0 = (rt_world rt)\<lparr>pw_scheduler := fst (drain (pw_scheduler (rt_world rt)))\<rparr>"
  have m0: "mirrors pw0" using rt_soundD(1) [OF rs] by (simp add: mirrors_def resident_def pw0_def)
  have q0: "\<forall>c \<in> set (queue (pw_scheduler (rt_world rt))). queueable pw0 c"
  proof
    fix c assume "c \<in> set (queue (pw_scheduler (rt_world rt)))"
    then have "queueable (rt_world rt) c" using rt_soundD(4) [OF rs] by blast
    then show "queueable pw0 c" by (rule queueable_mono) (simp_all add: pw0_def)
  qed
  obtain evs pw where t: "apply_all pw0 (queue (pw_scheduler (rt_world rt))) = Some (Inr evs, pw)" "mirrors pw"
      "fault_free (pw_db pw)" "items_live (pw_world pw)"
      "\<forall>e. live (pw_world pw) e \<longleftrightarrow> live (pw_world pw0) e" "pw_places pw = pw_places pw0"
    using apply_all_runs [OF m0 _ _ q0] rt_soundD(2,3) [OF rs] by (auto simp: pw0_def)
  have "queue (pw_scheduler pw) = []"
    using apply_all_scheduler [OF t(1)] by (simp add: pw0_def drain_def)
  with t rs have "rt_sound uni (rt\<lparr>rt_world := pw\<rparr>)"
    by (auto simp: rt_sound_def pw0_def start_known_def bound_in_def)
  moreover have "loop_step uni order rt TickDue = Some ([], Inr (rt\<lparr>rt_world := pw\<rparr>))"
    using t(1) by (simp add: tick_durable_def pw0_def drain_def)
  ultimately show ?thesis using TickDue by simp
next
  case (Received frame)
  show ?thesis
  proof (cases frame)
    case (FrameConnect sid)
    have "bound_in (fst (connect (rt_sessions rt) sid)) (live (pw_world (rt_world rt)))"
      unfolding connect_def Let_def fst_conv by (rule bound_in_set [OF rt_soundD(8) [OF rs]]) simp
    with rs have "rt_sound uni (rt\<lparr>rt_sessions := fst (connect (rt_sessions rt) sid)\<rparr>)" by (simp add: rt_sound_def)
    with Received FrameConnect show ?thesis by (cases "connect (rt_sessions rt) sid") simp
  next
    case (FrameDisconnect sid)
    with Received rt_sound_unbind [OF rs] show ?thesis by (simp add: handle_disconnect_def unbind_def)
  next
    case (FrameInput inp)
    obtain frames r where h: "handle_input uni order rt inp = Some (frames, r)"
        "case r of
           Inl f \<Rightarrow> f = IdsExhausted \<and> ids_left (pipe_ids (rt_pipeline rt)) = 0
         | Inr rt' \<Rightarrow> rt_sound uni rt' \<and> ids_left (pipe_ids (rt_pipeline rt)) - 1 \<le> ids_left (pipe_ids (rt_pipeline rt'))"
      using handle_input_sound [OF rs] by blast
    with left obtain rt' where "r = Inr rt'" by (cases r) auto
    with h Received FrameInput show ?thesis by simp
  next
    case (FrameResume hs)
    with Received rs show ?thesis by simp
  qed
qed

lemma loop_run_sound:
  "rt_sound uni rt \<Longrightarrow> length evs \<le> ids_left (pipe_ids (rt_pipeline rt)) \<Longrightarrow>
    \<exists>frames rt'. loop_run uni order rt evs = Some (frames, Inr rt') \<and> rt_sound uni rt'"
proof (induction evs arbitrary: rt)
  case (Cons ev evs)
  obtain frames rt1 where s: "loop_step uni order rt ev = Some (frames, Inr rt1)" "rt_sound uni rt1"
      "ids_left (pipe_ids (rt_pipeline rt)) - 1 \<le> ids_left (pipe_ids (rt_pipeline rt1))"
    using loop_step_sound [OF Cons.prems(1), of order ev] Cons.prems(2) by (auto simp: Suc_le_eq)
  then obtain frames' rt' where "loop_run uni order rt1 evs = Some (frames', Inr rt')" "rt_sound uni rt'"
    using Cons.IH [OF s(2)] Cons.prems(2) by fastforce
  with s(1) show ?case by simp
qed simp

lemma boot_sound:
  assumes "loadable (place_map_from_pairs keys) db" and "fault_free db" and "tag_ok t"
    and "PlaceKey_parse start = Inr start_room" and "pm_by_key (place_map_from_pairs keys) start_room \<noteq> None"
    and "\<forall>p. rooms p \<noteq> None \<longrightarrow> pm_by_id (place_map_from_pairs keys) p \<noteq> None"
  obtains rt where "boot_tenant uni hash verify db t keys rooms start banner loc = Some (Inr rt)" "rt_sound uni rt"
    "ids_left (pipe_ids (rt_pipeline rt)) = 2 ^ 64 - 1" "rt_sessions rt = service_new banner loc"
    "rt_pipeline rt = with_locale (pipeline_new (fst (register uni dispatcher_new))) loc"
    "rt_builtins rt = snd (register uni dispatcher_new)" "rt_places rt = rooms"
    "rt_backend rt = \<lparr>bc_hash = hash, bc_verify = verify, bc_start_room = start_room\<rparr>"
    "queue (pw_scheduler (rt_world rt)) = []" "pw_places (rt_world rt) = place_map_from_pairs keys"
    "\<forall>k. row_of k \<in> set (db_entities db) \<longleftrightarrow> (\<exists>e. resident (rt_world rt) e k)"
    "\<exists>n. pw_db (rt_world rt) = db\<lparr>db_clock := n\<rparr>"
proof -
  obtain pw n where pw: "load db t (place_map_from_pairs keys) = Some (Inr pw, db\<lparr>db_clock := n\<rparr>)" "mirrors pw"
      "pw_db pw = db\<lparr>db_clock := n\<rparr>" "pw_places pw = place_map_from_pairs keys" "queue (pw_scheduler pw) = []"
      "\<forall>k. row_of k \<in> set (db_entities db) \<longleftrightarrow> (\<exists>e. resident pw e k)"
      "\<forall>c i kc ki. resident pw c kc \<and> resident pw i ki \<longrightarrow>
         (i \<in> set (inventory_of (pw_world pw) c) \<longleftrightarrow> (row_of ki, row_of kc) \<in> set (db_inventory db))"
      "\<forall>c i. i \<in> set (inventory_of (pw_world pw) c) \<longrightarrow> live (pw_world pw) i"
    by (rule load_ok [OF assms(1-3)])
  obtain d builtins where reg: "register uni dispatcher_new = (d, builtins)" by fastforce
  define rt where "rt = \<lparr>rt_world = pw,
    rt_backend = \<lparr>bc_hash = hash, bc_verify = verify, bc_start_room = start_room\<rparr>,
    rt_sessions = service_new banner loc, rt_pipeline = with_locale (pipeline_new d) loc,
    rt_builtins = builtins, rt_places = rooms, rt_locale = loc\<rparr>"
  have boot: "boot_tenant uni hash verify db t keys rooms start banner loc = Some (Inr rt)"
    using pw(1) reg assms(4) by (simp add: boot_tenant_def rt_def)
  have "start_known (rt_backend rt) pw"
  proof -
    have "place_key_str start_room = start" using assms(4) by (auto simp: PlaceKey_parse_ok)
    with assms(4,5) pw(4) show ?thesis by (auto simp: start_known_def rt_def place_id_for_slug_def)
  qed
  then have "rt_sound uni rt"
    using pw assms(2,6) reg
    by (auto simp: rt_sound_def rt_def with_builtins_def with_locale_def pipeline_new_def items_live_def
        bound_in_def service_new_def)
  then show thesis
    using boot pw reg by (intro that) (auto simp: rt_def with_locale_def pipeline_new_def id_gen_new_def)
qed

section \<open>Properties\<close>

text \<open>
  The server does not fail by itself. Boot a tenant from consistent tables whose slugs name
  its rooms, and let players and clock do anything in any order: connect, type any lines, drop
  and let ticks pass, fewer than \<open>2 ^ 64\<close> events in all. As long as the database executes its
  statements, no step panics and none stops the loop, the database mirrors the world in memory
  at the end, and every session in the world controls a live entity of it.
\<close>

theorem server_never_fails:
  assumes "loadable (place_map_from_pairs keys) db" and "fault_free db" and "tag_ok t"
    and "PlaceKey_parse start = Inr start_room" and "pm_by_key (place_map_from_pairs keys) start_room \<noteq> None"
    and "\<forall>p. rooms p \<noteq> None \<longrightarrow> pm_by_id (place_map_from_pairs keys) p \<noteq> None"
    and "length evs < 2 ^ 64"
  shows "\<exists>rt frames rt'. boot_tenant uni hash verify db t keys rooms start banner loc = Some (Inr rt) \<and>
    loop_run uni order rt evs = Some (frames, Inr rt') \<and> mirrors (rt_world rt') \<and>
    (\<forall>sid bd. ss_sessions (rt_sessions rt') sid = Some (InWorld bd) \<longrightarrow> live (pw_world (rt_world rt')) (bind_puppet bd))"
proof -
  obtain rt where rt: "boot_tenant uni hash verify db t keys rooms start banner loc = Some (Inr rt)" "rt_sound uni rt"
      "ids_left (pipe_ids (rt_pipeline rt)) = 2 ^ 64 - 1"
    by (rule boot_sound [OF assms(1-6)])
  have "length evs \<le> ids_left (pipe_ids (rt_pipeline rt))" using rt(3) assms(7) by simp
  from loop_run_sound [OF rt(2) this, of order] obtain frames rt' where
      "loop_run uni order rt evs = Some (frames, Inr rt')" "rt_sound uni rt'"
    by blast
  with rt(1) rt_soundD(1,8) [of uni rt'] show ?thesis by (auto simp: bound_in_def)
qed

lemma hall_keys: "hall_map = place_map_from_pairs [(PlaceId 1, PlaceKey (lit ''hall'')), (PlaceId 2, PlaceKey (lit ''garden''))]"
  by (simp add: hall_map_def)

lemma hall_boot:
  "loadable (place_map_from_pairs [(PlaceId 1, PlaceKey (lit ''hall'')), (PlaceId 2, PlaceKey (lit ''garden''))]) hall_db"
  "PlaceKey_parse (lit ''hall'') = Inr (PlaceKey (lit ''hall''))"
  "pm_by_key (place_map_from_pairs [(PlaceId 1, PlaceKey (lit ''hall'')), (PlaceId 2, PlaceKey (lit ''garden''))])
     (PlaceKey (lit ''hall'')) \<noteq> None"
  "\<forall>p. hall_places p \<noteq> None \<longrightarrow>
     pm_by_id (place_map_from_pairs [(PlaceId 1, PlaceKey (lit ''hall'')), (PlaceId 2, PlaceKey (lit ''garden''))]) p \<noteq> None"
proof -
  show "loadable (place_map_from_pairs [(PlaceId 1, PlaceKey (lit ''hall'')), (PlaceId 2, PlaceKey (lit ''garden''))]) hall_db"
    by (rule hall_loadable(1) [unfolded hall_keys])
qed (simp_all add: PlaceKey_parse_ok slug_char_def lit_def is_ascii_lower_def is_ascii_digit_def place_map_from_pairs_def
  hall_places_def)

lemma server_never_fails_witness:
  "\<exists>rt frames rt'. boot_tenant hall_uni (\<lambda>p. Some p) (\<lambda>h p. Some (h = p)) hall_db (TenantTag 0)
       [(PlaceId 1, PlaceKey (lit ''hall'')), (PlaceId 2, PlaceKey (lit ''garden''))] hall_places (lit ''hall'') [] EN = Some (Inr rt) \<and>
     loop_run hall_uni (\<lambda>_. []) rt
       [Received (FrameConnect (SessionId 1)),
        Received (FrameInput \<lparr>in_session = SessionId 1, in_line = InputLine (lit ''register bob'')\<rparr>), TickDue] = Some (frames, Inr rt') \<and>
     mirrors (rt_world rt')"
  using server_never_fails [OF hall_boot(1) hall_loadable(2) tag_ok_0 hall_boot(2-4), of
      "[Received (FrameConnect (SessionId 1)),
        Received (FrameInput \<lparr>in_session = SessionId 1, in_line = InputLine (lit ''register bob'')\<rparr>), TickDue]"
      hall_uni "\<lambda>p. Some p" "\<lambda>h p. Some (h = p)" "[]" EN "\<lambda>_. []"]
  by auto

lemma move_is_stored:
  assumes "mirrors pw" and "fault_free (pw_db pw)" and "queue (pw_scheduler pw) = []"
    and "storable pw (MoveTo e q)" and "live (pw_world pw) e"
  shows "\<exists>ev pw' k. tick_durable (submit_effects pw [MoveTo e q]) = Some (Inr ev, pw') \<and>
    location_of (pw_world pw') e = Some q \<and> resident pw' e k \<and>
    map_of (db_location (pw_db pw')) (row_of k) = Some (slug_of (pw_places pw') q)"
proof -
  let ?m = "MoveTo e q"
  define pw0 where "pw0 = submit_effects pw [?m]"
  define pw1 where "pw1 = pw0\<lparr>pw_scheduler := fst (drain (pw_scheduler pw0))\<rparr>"
  have sel: "pw_world pw1 = pw_world pw" "pw_db pw1 = pw_db pw" "pw_places pw1 = pw_places pw"
    by (simp_all add: pw1_def pw0_def)
  have m1: "mirrors pw1" using assms(1) sel by (simp add: mirrors_def resident_def pw1_def pw0_def)
  have st: "storable pw1 (cmd_effect (command_new ?m))" using assms(4) by (simp add: command_new_def sel)
  have ff: "fault_free (pw_db pw1)" using assms(2) by (simp add: sel)
  obtain ev pw2 where s: "apply_durable pw1 (command_new ?m) = Some (Inr ev, pw2)" "mirrors pw2"
      "apply_command (pw_world pw1) (command_new ?m) = Some (pw_world pw2, case ev of None \<Rightarrow> [] | Some x \<Rightarrow> [x])"
    by (rule durable_step [OF m1 ff st])
  have lv: "effect_handles ?m \<subseteq> {e. live (pw_world pw) e}" using assms(5) by simp
  from apply_live [OF mirrorsD(1) [OF assms(1)] _ lv] obtain w where
      w: "apply_command (pw_world pw) (command_new ?m) = Some (w, [])"
        "world_view w = view_apply (world_view (pw_world pw)) ?m"
    by blast
  have "w = pw_world pw2" using w(1) s(3) sel(1) by simp
  then have at: "location_of (pw_world pw2) e = Some q" "live (pw_world pw2) e"
    using view_sels [OF w(2)] lv by simp_all
  obtain k where k: "resident pw2 e k" by (rule live_key [OF s(2) at(2)])
  have "queue (pw_scheduler pw0) = [command_new ?m]" using assms(3) by (simp add: pw0_def)
  then have "tick_durable (submit_effects pw [?m]) = Some (Inr (case ev of None \<Rightarrow> [] | Some x \<Rightarrow> [x]), pw2)"
    using s(1) by (simp add: tick_durable_def drain_def pw1_def pw0_def)
  with at(1) k mirrorsD(7) [OF s(2) k] show ?thesis by auto
qed

text \<open>
  C10. A step is durable. A player in the world types the word of a direction in which their place
  has an exit to an existing place. After the next tick their puppet stands in that place, in
  memory and in the database: its location row is the slug of the place, so a restart finds it there.
\<close>

theorem walk_is_durable:
  assumes "rt_sound uni rt" and "rt_builtins rt = snd (register uni dispatcher_new)"
    and "queue (pw_scheduler (rt_world rt)) = []" and "0 < ids_left (pipe_ids (rt_pipeline rt))"
    and "ss_sessions (rt_sessions rt) sid = Some (InWorld bd)"
    and "location_of (pw_world (rt_world rt)) (bind_puppet bd) = Some p"
    and "rt_places rt p = Some pl" and "neighbor pl d = Some q" and "rt_places rt q \<noteq> None"
    and "(n, al, move_run d) \<in> set (builtin_table uni)" and "word \<in> set (n # al)"
    and "uni_lower uni (fst (split_head (trim line))) = lit word" and "fst (split_head (trim line)) \<noteq> []"
  shows "\<exists>frames rt' k. loop_run uni order rt
      [Received (FrameInput \<lparr>in_session = sid, in_line = InputLine line\<rparr>), TickDue] = Some (frames, Inr rt') \<and>
    location_of (pw_world (rt_world rt')) (bind_puppet bd) = Some q \<and>
    resident (rt_world rt') (bind_puppet bd) k \<and>
    map_of (db_location (pw_db (rt_world rt'))) (row_of k) = Some (slug_of (pw_places (rt_world rt')) q)"
proof -
  let ?e = "bind_puppet bd" and ?pw = "rt_world rt" and ?svc = "rt_sessions rt"
  let ?inp = "\<lparr>in_session = sid, in_line = InputLine line\<rparr>" and ?ros = "registry_roster (order (rt_sessions rt)) (rt_sessions rt)"
  obtain cid ids where ids: "next_id (pipe_ids (rt_pipeline rt)) = (Inr cid, ids)"
    using assms(4) next_id_left(2) by (metis less_irrefl old.sum.exhaust prod.exhaust)
  let ?pipe = "(rt_pipeline rt)\<lparr>pipe_ids := ids\<rparr>"
  define reply where "reply = run_handler ?pipe (pw_world ?pw) (rt_places rt) ?ros cid (in_world_caller sid bd p) []
    (trim (snd (split_head (trim line)))) (move_run d)"
  have reply: "reply_effects reply = [MoveTo ?e q]" "reply_disposition reply = Remain"
    using assms(7-9) by (auto simp: reply_def run_handler_def move_run_def Let_def)
  have d: "dispatch uni (rt_pipeline rt) (pw_world ?pw) (rt_places rt) (registry_resolve ?svc (rt_builtins rt)) ?ros ?inp =
      (Inr (deliver (pw_world ?pw) ?ros sid reply), ?pipe)"
    unfolding assms(2) reply_def
    by (rule builtin_dispatch [OF rt_soundD(6) [OF assms(1)] assms(10-13,5,6) ids])
  have si: "service_input (db_backend (rt_backend rt)) ?svc (Some ?pw) sid line = (RoutingInWorld, ?svc, Some ?pw)"
    using assms(5) by (simp add: service_input_def)
  obtain frames where h: "handle_input uni order rt ?inp =
      Some (frames, Inr (rt\<lparr>rt_pipeline := ?pipe, rt_world := submit_effects ?pw [MoveTo ?e q]\<rparr>))"
    using si d reply by (simp add: handle_input_def Let_def run_outcome_def deliver_def)
  have st: "storable ?pw (MoveTo ?e q)" using rt_soundD(7) [OF assms(1,9)] by simp
  have lv: "live (pw_world ?pw) ?e" using assms(6) by (simp add: world_views split: if_splits)
  obtain ev pw2 k where t: "tick_durable (submit_effects ?pw [MoveTo ?e q]) = Some (Inr ev, pw2)"
      "location_of (pw_world pw2) ?e = Some q" "resident pw2 ?e k"
      "map_of (db_location (pw_db pw2)) (row_of k) = Some (slug_of (pw_places pw2) q)"
    using move_is_stored [OF rt_soundD(1,2) [OF assms(1)] assms(3) st lv] by blast
  have "loop_run uni order rt [Received (FrameInput ?inp), TickDue] =
      Some (frames, Inr (rt\<lparr>rt_pipeline := ?pipe, rt_world := pw2\<rparr>))"
    using h t(1) by simp
  with t(2-4) show ?thesis
    by (intro exI [of _ frames] exI [of _ "rt\<lparr>rt_pipeline := ?pipe, rt_world := pw2\<rparr>"] exI [of _ k]) simp
qed

lemma walk_is_durable_witness:
  "\<exists>rt order frames rt' k. map_of (db_location (pw_db (rt_world rt))) 1 = Some (lit ''hall'') \<and>
    loop_run hall_uni order rt
      [Received (FrameInput \<lparr>in_session = SessionId 1, in_line = InputLine (lit ''N'')\<rparr>), TickDue] = Some (frames, Inr rt') \<and>
    map_of (db_location (pw_db (rt_world rt'))) (row_of k) = Some (slug_of (pw_places (rt_world rt')) (PlaceId 2))"
proof -
  let ?keys = "[(PlaceId 1, PlaceKey (lit ''hall'')), (PlaceId 2, PlaceKey (lit ''garden''))]"
  obtain rt0 where rt0: "boot_tenant hall_uni (\<lambda>p. Some p) (\<lambda>h p. Some (h = p)) hall_db (TenantTag 0) ?keys hall_places
        (lit ''hall'') [] EN = Some (Inr rt0)" "rt_sound hall_uni rt0"
      "ids_left (pipe_ids (rt_pipeline rt0)) = 2 ^ 64 - 1" "rt_sessions rt0 = service_new [] EN"
      "rt_pipeline rt0 = with_locale (pipeline_new (fst (register hall_uni dispatcher_new))) EN"
      "rt_builtins rt0 = snd (register hall_uni dispatcher_new)" "rt_places rt0 = hall_places"
      "rt_backend rt0 = \<lparr>bc_hash = (\<lambda>p. Some p), bc_verify = (\<lambda>h p. Some (h = p)), bc_start_room = PlaceKey (lit ''hall'')\<rparr>"
      "queue (pw_scheduler (rt_world rt0)) = []" "pw_places (rt_world rt0) = place_map_from_pairs ?keys"
      "\<forall>k. row_of k \<in> set (db_entities hall_db) \<longleftrightarrow> (\<exists>e. resident (rt_world rt0) e k)"
      "\<exists>n. pw_db (rt_world rt0) = hall_db\<lparr>db_clock := n\<rparr>"
    by (rule boot_sound [OF hall_boot(1) hall_loadable(2) tag_ok_0 hall_boot(2-4)])
  obtain a where a: "resident (rt_world rt0) a (EntityKey 1)"
    using rt0(11) [rule_format, of "EntityKey 1"] by (auto simp: hall_db_def)
  note m = rt_soundD(1) [OF rt0(2)]
  have row: "map_of (db_location (pw_db (rt_world rt0))) (row_of (EntityKey 1)) = Some (lit ''hall'')"
    using rt0(12) by (auto simp: hall_db_def)
  then obtain p where p: "location_of (pw_world (rt_world rt0)) a = Some p" "slug_of (place_map_from_pairs ?keys) p = lit ''hall''"
    using mirrorsD(7) [OF m a] rt0(10) by (cases "location_of (pw_world (rt_world rt0)) a") auto
  from mirrorsD(8) [OF m p(1)] have "p = PlaceId 1"
    using p(2) rt0(10) by (auto simp: place_map_from_pairs_def slug_of_def lit_def split: if_splits)
  with p(1) have here: "location_of (pw_world (rt_world rt0)) a = Some (PlaceId 1)" by simp
  let ?bd = "\<lparr>bind_account = AccountId 1, bind_puppet = a, bind_name = PuppetName (lit ''Ann'')\<rparr>"
  let ?rt = "rt0\<lparr>rt_sessions := (service_new [] EN)\<lparr>ss_sessions := [SessionId 1 \<mapsto> InWorld ?bd]\<rparr>\<rparr>"
  have live: "live (pw_world (rt_world rt0)) a" using here by (simp add: world_views split: if_splits)
  have sound: "rt_sound hall_uni ?rt"
    using rt0(2) live unfolding rt_sound_def by (simp add: bound_in_def)
  obtain frames rt' k where r: "loop_run hall_uni (\<lambda>_. []) ?rt
      [Received (FrameInput \<lparr>in_session = SessionId 1, in_line = InputLine (lit ''N'')\<rparr>), TickDue] = Some (frames, Inr rt')"
      "resident (rt_world rt') a k"
      "map_of (db_location (pw_db (rt_world rt'))) (row_of k) = Some (slug_of (pw_places (rt_world rt')) (PlaceId 2))"
    using walk_is_durable [OF sound, of "SessionId 1" ?bd "PlaceId 1" _ North "PlaceId 2" "''north''" "[''n'']" "''n''"
        "lit ''N''" "\<lambda>_. []"] rt0(3,6,7,9) here hall_word
    by (auto simp: hall_places_def room_new_def)
  with row show ?thesis by (intro exI [of _ ?rt]) auto
qed

text \<open>
  A new puppet stands in the start room. When the store creates a puppet, the puppet's key
  had no entity before, it resolves to a live entity at once, that entity is in the configured
  start room, and memory and database agree.
\<close>

theorem new_puppet_in_start_room:
  assumes "mirrors pw" and "fault_free (pw_db pw)" and "start_known cfg pw"
    and "db_create_puppet cfg pw account name = Some (Inr p, pw')"
  shows "\<exists>e q. db_resolve_puppet pw (puppet_key p) = None \<and> db_resolve_puppet pw' (puppet_key p) = Some e \<and>
    live (pw_world pw') e \<and> place_id_for_slug (pw_places pw) (place_key_str (bc_start_room cfg)) = Inr q \<and>
    location_of (pw_world pw') e = Some q \<and> mirrors pw'"
proof -
  obtain r pw1 where c: "db_create_puppet cfg pw account name = Some (r, pw1)" "mirrors pw1"
      "fault_free (pw_db pw1)" "keeps_around pw pw1"
    and placed: "\<forall>p. r = Inr p \<longrightarrow> (\<exists>e q. pw_by_key pw1 (puppet_key p) = Some e \<and> pw_by_key pw (puppet_key p) = None \<and>
       place_id_for_slug (pw_places pw) (place_key_str (bc_start_room cfg)) = Inr q \<and> location_of (pw_world pw1) e = Some q)"
    by (rule create_puppet_kept [OF assms(1-3), of account name]) blast
  with assms(4) have same: "r = Inr p" "pw1 = pw'" by simp_all
  obtain e q where "pw_by_key pw' (puppet_key p) = Some e" "pw_by_key pw (puppet_key p) = None"
      "place_id_for_slug (pw_places pw) (place_key_str (bc_start_room cfg)) = Inr q" "location_of (pw_world pw') e = Some q"
    using placed same by blast
  moreover from this(4) have "live (pw_world pw') e" by (simp add: world_views split: if_splits)
  ultimately show ?thesis using c(2) same(2) by (simp add: db_resolve_puppet_def)
qed

text \<open>A database without entities, and one account.\<close>

definition fresh_db :: tenant_db where
  "fresh_db = \<lparr>db_entities = [], db_entity_seq = 0,
     db_accounts = [\<lparr>ar_id = 1, ar_username = lit ''ann'', ar_password_hash = lit ''h'', ar_state = lit ''active''\<rparr>],
     db_account_seq = 1, db_puppets = [], db_location = [], db_inventory = [], db_server = None,
     db_faults = (\<lambda>_. False), db_clock = 0\<rparr>"

lemma new_puppet_in_start_room_witness:
  "\<exists>cfg pw p pw' e q. db_create_puppet cfg pw (AccountId 1) (PuppetName (lit ''Ann'')) = Some (Inr p, pw') \<and>
     db_resolve_puppet pw' (puppet_key p) = Some e \<and> location_of (pw_world pw') e = Some q \<and>
     place_id_for_slug (pw_places pw) (lit ''hall'') = Inr q"
proof -
  let ?cfg = "\<lparr>bc_hash = (\<lambda>p. Some p), bc_verify = (\<lambda>h p. Some (h = p)), bc_start_room = PlaceKey (lit ''hall'')\<rparr>"
  have slug: "PlaceKey_parse (lit ''hall'') = Inr (PlaceKey (lit ''hall''))" by (rule hall_boot(2))
  have "places_ok hall_map" using hall_loadable(1) by (simp add: loadable_def)
  then have ok: "loadable hall_map fresh_db" "fault_free fresh_db"
    by (simp_all add: loadable_def fresh_db_def db_ok_def i64_max_def fault_free_def)
  obtain pw n where pw: "load fresh_db (TenantTag 0) hall_map = Some (Inr pw, fresh_db\<lparr>db_clock := n\<rparr>)" "mirrors pw"
      "pw_db pw = fresh_db\<lparr>db_clock := n\<rparr>" "pw_places pw = hall_map" "queue (pw_scheduler pw) = []"
      "\<forall>k. row_of k \<in> set (db_entities fresh_db) \<longleftrightarrow> (\<exists>e. resident pw e k)"
      "\<forall>c i kc ki. resident pw c kc \<and> resident pw i ki \<longrightarrow>
         (i \<in> set (inventory_of (pw_world pw) c) \<longleftrightarrow> (row_of ki, row_of kc) \<in> set (db_inventory fresh_db))"
      "\<forall>c i. i \<in> set (inventory_of (pw_world pw) c) \<longrightarrow> live (pw_world pw) i"
    by (rule load_ok [OF ok tag_ok_0])
  have w: "pw_world pw = world_new (TenantTag 0)" "pw_by_key pw = Map.empty"
    using pw(1) by (auto simp: load_def fresh_db_def run_statement_def select_entities_def select_locations_def
        select_inventory_def)
  have start: "place_id_for_slug hall_map (lit ''hall'') = Inr (PlaceId 1)"
    using slug by (simp add: place_id_for_slug_def hall_map_def place_map_from_pairs_def lit_def)
  have "start_known ?cfg pw" using start by (simp add: start_known_def pw(4))
  obtain p pw' where c: "db_create_puppet ?cfg pw (AccountId 1) (PuppetName (lit ''Ann'')) = Some (Inr p, pw')"
    using start by (auto simp: db_create_puppet_def on_db_def pw(3,4) w fresh_db_def accounts_create_puppet_def account_id_to_db_def
      nonzero_to_db_def i64_max_def transaction_def create_puppet_rows_def run_statement_def tx_mark_def
      insert_entity_def insert_puppet_def insert_location_def Let_def entity_key_from_db_def nonzero_from_db_def
      hydrate_def entity_key_to_db_def select_entity_def select_location_def map_resident_def world_eval move_to_def)
  have ff: "fault_free (pw_db pw)" using ok(2) pw(3) by (simp add: fault_free_def)
  from new_puppet_in_start_room [OF pw(2) ff \<open>start_known ?cfg pw\<close> c] c pw(4) show ?thesis
    by (intro exI [of _ ?cfg] exI [of _ pw] exI [of _ p] exI [of _ pw']) auto
qed

end
