(* ===== verification/Loader.thy ===== *)
theory Loader
  imports Markup Place I18n "HOL-Library.Sublist" "HOL-Library.List_Lexorder"
begin

text \<open>
  The loading of a tenant's authored content (crates/mud-world): the palette, the regions with their
  manifests, the rooms with their exits, the banner and the start room. The KDL parser is a
  third-party crate: a file comes with what reading and parsing it gives, and a parsed node with
  its name, positional arguments, properties and children.
\<close>

section \<open>Documents and files\<close>

datatype kdl_value = KdlString ustring | KdlBool bool | KdlOther

datatype kdl_node = KdlNode
  (kn_name: ustring) (kn_args: "kdl_value list") (kn_props: "(ustring \<times> kdl_value) list") (kn_children: "kdl_node list")

fun as_string :: "kdl_value \<Rightarrow> ustring option" where
  "as_string (KdlString s) = Some s"
| "as_string (KdlBool _) = None"
| "as_string KdlOther = None"

text \<open>\<open>KdlNode::get\<close> by position and by name, where of two properties of one name the last counts.\<close>

definition node_arg :: "kdl_node \<Rightarrow> nat \<Rightarrow> ustring option" where
  "node_arg n i = Option.bind (vec_get (kn_args n) i) as_string"

definition node_prop :: "kdl_node \<Rightarrow> ustring \<Rightarrow> kdl_value option" where
  "node_prop n k = map_of (rev (kn_props n)) k"

datatype read_fault = ReadIo | ReadKdl

text \<open>
  A directory tree: names are unique within a directory; a path is the list of names from the world
  directory. A directory that cannot be listed is \<open>Unlisted\<close>.
\<close>

datatype fs_node = File "read_fault + kdl_node list" | Dir "(ustring \<times> fs_node) list" | Unlisted

type_synonym path = "ustring list"

datatype world_error =
    WorldIo
  | WorldKdl path
  | WorldConfig
  | DuplicateSlug ustring
  | InvalidSlug ustring place_key_error
  | DanglingExit ustring ustring ustring
  | UnknownStartRoom ustring
  | UnknownDirection ustring
  | MissingField ustring string
  | UnexpectedNode ustring ustring
  | EscapingPath string ustring
  | InvalidRegionSlug ustring region_key_error
  | DuplicateRegionSlug ustring
  | RoomOutsideRegion path
  | RegionManifestAtWorldRoot path
  | NestedRegion path
  | InvalidRegionManifest path
  | InvalidColor ustring color_parse_error
  | UnknownColorName ustring

definition read_file :: "path \<Rightarrow> read_fault + kdl_node list \<Rightarrow> world_error + kdl_node list" where
  "read_file p r = map_err (\<lambda>f. case f of ReadIo \<Rightarrow> WorldIo | ReadKdl \<Rightarrow> WorldKdl p) r"

text \<open>\<open>Path::extension\<close>: what follows the last dot, unless it begins the name.\<close>

definition extension :: "ustring \<Rightarrow> ustring option" where
  "extension name =
     (if ch CHR ''.'' \<in> set (tl name)
      then Some (rev (takeWhile (\<lambda>c. c \<noteq> ch CHR ''.'') (rev name))) else None)"

fun collect_kdl_files :: "path \<Rightarrow> fs_node \<Rightarrow> world_error + (path \<times> (read_fault + kdl_node list)) list"
  and collect_entries :: "path \<Rightarrow> (ustring \<times> fs_node) list \<Rightarrow> world_error + (ustring \<times> (path \<times> (read_fault + kdl_node list)) list) list" where
  "collect_kdl_files dir Unlisted = Inl WorldIo"
| "collect_kdl_files dir (File r) = Inl WorldIo"
| "collect_kdl_files dir (Dir es) =
     bindE (collect_entries dir es) (\<lambda>xs. Inr (concat (map snd (sort_key fst xs))))"
| "collect_entries dir [] = Inr []"
| "collect_entries dir ((name, File r) # es) =
     bindE (collect_entries dir es) (\<lambda>xs.
       Inr ((name, if extension name = Some (lit ''kdl'') then [(dir @ [name], r)] else []) # xs))"
| "collect_entries dir ((name, node) # es) =
     bindE (collect_kdl_files (dir @ [name]) node) (\<lambda>fs.
     bindE (collect_entries dir es) (\<lambda>xs. Inr ((name, fs) # xs)))"

section \<open>The palette\<close>

definition missing :: "string \<Rightarrow> string \<Rightarrow> world_error" where
  "missing node field = MissingField (lit node) field"

definition resolve_hex :: "ustring \<Rightarrow> world_error + color" where
  "resolve_hex hex = map_err (InvalidColor hex) (from_hex hex)"

definition parse_color :: "kdl_node \<Rightarrow> world_error + (ustring \<times> color)" where
  "parse_color n =
     bindE (ok_or (node_arg n 0) (missing ''color'' ''name'')) (\<lambda>name.
     bindE (ok_or (node_arg n 1) (missing ''color'' ''value'')) (\<lambda>hex.
     bindE (resolve_hex hex) (\<lambda>c. Inr (name, c))))"

definition resolve_color_token :: "ustring \<Rightarrow> palette \<Rightarrow> world_error + color" where
  "resolve_color_token token p =
     (if starts_with (lit ''#'') token then resolve_hex token
      else ok_or (palette_color p token) (UnknownColorName token))"

definition role_flags :: "(string \<times> attributes) list" where
  "role_flags = [(''bold'', attr_BOLD), (''italic'', attr_ITALIC), (''underline'', attr_UNDERLINE),
     (''blink'', attr_BLINK), (''reverse'', attr_REVERSE)]"

definition role_attributes :: "kdl_node \<Rightarrow> attributes" where
  "role_attributes n =
     foldl (\<lambda>acc (key, flag). if node_prop n (lit key) = Some (KdlBool True) then attr_union acc flag else acc)
       attr_NONE role_flags"

definition string_property :: "kdl_node \<Rightarrow> string \<Rightarrow> ustring option" where
  "string_property n key = Option.bind (node_prop n (lit key)) as_string"

definition with_token :: "(style \<Rightarrow> color \<Rightarrow> style) \<Rightarrow> palette \<Rightarrow> ustring option \<Rightarrow> style \<Rightarrow> world_error + style" where
  "with_token set_color p token s =
     (case token of None \<Rightarrow> Inr s | Some t \<Rightarrow> bindE (resolve_color_token t p) (\<lambda>c. Inr (set_color s c)))"

definition parse_role :: "kdl_node \<Rightarrow> palette \<Rightarrow> world_error + (role_name \<times> style)" where
  "parse_role n p =
     bindE (ok_or (node_arg n 0) (missing ''role'' ''name'')) (\<lambda>name.
     bindE (with_token with_fg p (string_property n ''fg'') style_new) (\<lambda>s1.
     bindE (with_token with_bg p (string_property n ''bg'') s1) (\<lambda>s2.
     Inr (RoleName name, with_attrs s2 (role_attributes n)))))"

fun palette_color_pass :: "palette \<Rightarrow> kdl_node list \<Rightarrow> world_error + palette" where
  "palette_color_pass p [] = Inr p"
| "palette_color_pass p (n # ns) =
     (if kn_name n = lit ''color''
      then bindE (parse_color n) (\<lambda>(name, c). palette_color_pass (insert_color p name c) ns)
      else palette_color_pass p ns)"

fun palette_role_pass :: "palette \<Rightarrow> kdl_node list \<Rightarrow> world_error + palette" where
  "palette_role_pass p [] = Inr p"
| "palette_role_pass p (n # ns) =
     (if kn_name n = lit ''color'' then palette_role_pass p ns
      else if kn_name n = lit ''role''
      then bindE (parse_role n p) (\<lambda>(name, s). palette_role_pass (insert_role p name s) ns)
      else Inl (UnexpectedNode (lit ''palette'') (kn_name n)))"

text \<open>The palette file, when there is one, at its path.\<close>

definition load_palette :: "(path \<times> (read_fault + kdl_node list)) option \<Rightarrow> world_error + palette" where
  "load_palette file =
     (case file of
        None \<Rightarrow> Inr palette_baseline
      | Some (p, r) \<Rightarrow>
          bindE (read_file p r) (\<lambda>nodes.
          bindE (palette_color_pass palette_baseline nodes) (\<lambda>pal. palette_role_pass pal nodes)))"

section \<open>Regions\<close>

definition REGION_MANIFEST :: ustring where "REGION_MANIFEST = lit ''region.kdl''"

datatype region_name = RegionName (region_name_str: ustring)

record region_data =
  rd_key :: region_key
  rd_name :: "region_name option"

record regions =
  rgn_by_id :: "region_id \<rightharpoonup> region_data"
  rgn_key_to_id :: "region_key \<rightharpoonup> region_id"

definition region_id_of :: "regions \<Rightarrow> region_key \<Rightarrow> region_id option" where
  "region_id_of r k = rgn_key_to_id r k"

definition region_key_of :: "regions \<Rightarrow> region_id \<Rightarrow> region_key option" where
  "region_key_of r i = map_option rd_key (rgn_by_id r i)"

definition region_name_of :: "regions \<Rightarrow> region_id \<Rightarrow> region_name option" where
  "region_name_of r i = Option.bind (rgn_by_id r i) rd_name"

text \<open>The counter of region and room ids; at the last id it stays.\<close>

definition advance :: "u64 \<Rightarrow> u64" where
  "advance i = (case checked_add_u64 i 1 of Some j \<Rightarrow> j | None \<Rightarrow> 0xFFFFFFFFFFFFFFFF)"

fun only_node :: "path \<Rightarrow> kdl_node option \<Rightarrow> kdl_node list \<Rightarrow> world_error + kdl_node" where
  "only_node p seen [] = ok_or seen (InvalidRegionManifest p)"
| "only_node p seen (n # ns) =
     (if kn_name n \<noteq> lit ''region'' then Inl (UnexpectedNode (lit ''region file'') (kn_name n))
      else if seen \<noteq> None then Inl (InvalidRegionManifest p)
      else only_node p (Some n) ns)"

fun manifest_name :: "region_key \<Rightarrow> region_name option \<Rightarrow> kdl_node list \<Rightarrow> world_error + region_name option" where
  "manifest_name k name [] = Inr name"
| "manifest_name k name (n # ns) =
     (if kn_name n = lit ''name'' then manifest_name k (map_option RegionName (node_arg n 0)) ns
      else Inl (UnexpectedNode (lit ''region '' @ region_key_str k) (kn_name n)))"

definition parse_manifest :: "path \<Rightarrow> read_fault + kdl_node list \<Rightarrow> world_error + (region_key \<times> region_name option)" where
  "parse_manifest p r =
     bindE (read_file p r) (\<lambda>nodes.
     bindE (only_node p None nodes) (\<lambda>n.
     bindE (ok_or (node_arg n 0) (missing ''region'' ''slug'')) (\<lambda>slug.
     bindE (map_err (InvalidRegionSlug slug) (RegionKey_parse slug)) (\<lambda>key.
     bindE (manifest_name key None (kn_children n)) (\<lambda>name. Inr (key, name))))))"

record region_binder =
  rb_manifests :: "(path \<times> region_id) list"
  rb_regions :: regions

fun bind_regions ::
  "region_binder \<Rightarrow> u64 \<Rightarrow> (path \<times> (read_fault + kdl_node list)) list \<Rightarrow> world_error + region_binder" where
  "bind_regions b i [] = Inr b"
| "bind_regions b i ((p, r) # files) =
     (if butlast p = [] then Inl (RegionManifestAtWorldRoot p)
      else
        bindE (parse_manifest p r) (\<lambda>(key, name).
          if rgn_key_to_id (rb_regions b) key \<noteq> None then Inl (DuplicateRegionSlug (region_key_str key))
          else if list_ex (\<lambda>(other, _). prefix other (butlast p) \<or> prefix (butlast p) other) (rb_manifests b)
          then Inl (NestedRegion p)
          else bind_regions
                 \<lparr>rb_manifests = rb_manifests b @ [(butlast p, RegionId i)],
                   rb_regions = \<lparr>rgn_by_id = (rgn_by_id (rb_regions b))(RegionId i \<mapsto> \<lparr>rd_key = key, rd_name = name\<rparr>),
                     rgn_key_to_id = (rgn_key_to_id (rb_regions b))(key \<mapsto> RegionId i)\<rparr>\<rparr> (advance i) files))"

definition binder_load :: "(path \<times> (read_fault + kdl_node list)) list \<Rightarrow> world_error + region_binder" where
  "binder_load files =
     bind_regions \<lparr>rb_manifests = [], rb_regions = \<lparr>rgn_by_id = Map.empty, rgn_key_to_id = Map.empty\<rparr>\<rparr> 1 (sort_key fst files)"

definition region_for :: "region_binder \<Rightarrow> path \<Rightarrow> region_id option" where
  "region_for b dir = map_option snd (List.find (\<lambda>(folder, _). prefix folder dir) (rb_manifests b))"

section \<open>Rooms\<close>

record rooms =
  rooms_by_id :: "place_id \<rightharpoonup> place"
  slug_to_id :: "place_key \<rightharpoonup> place_id"
  id_to_slug :: "place_id \<rightharpoonup> place_key"

definition rooms_get :: "rooms \<Rightarrow> place_id \<Rightarrow> place option" where
  "rooms_get r i = rooms_by_id r i"

definition rooms_id_of :: "rooms \<Rightarrow> place_key \<Rightarrow> place_id option" where
  "rooms_id_of r k = slug_to_id r k"

text \<open>The pairs that \<open>place_keys\<close> yields, in the arbitrary order of the map.\<close>

definition place_keys :: "rooms \<Rightarrow> (place_id \<times> place_key) list \<Rightarrow> bool" where
  "place_keys r pairs \<longleftrightarrow> distinct (map fst pairs) \<and> map_of pairs = id_to_slug r"

record raw_room =
  raw_slug :: place_key
  raw_id :: place_id
  raw_region :: region_id
  raw_title :: "room_title option"
  raw_description :: description
  raw_exits :: "(direction \<times> ustring) list"

text \<open>The diagnostics of the markup are telemetry.\<close>

definition compile_field :: "ustring \<Rightarrow> field_style \<Rightarrow> palette \<Rightarrow> styled_text" where
  "compile_field raw field p = cm_text (compile_markup raw field p)"

definition parse_exit :: "kdl_node \<Rightarrow> world_error + (direction \<times> ustring)" where
  "parse_exit n =
     bindE (ok_or (node_arg n 0) (missing ''exit'' ''direction'')) (\<lambda>word.
     bindE (map_err (\<lambda>e. UnknownDirection (pde_value e)) (Direction_from_str word)) (\<lambda>d.
     bindE (ok_or (node_arg n 1) (missing ''exit'' ''target'')) (\<lambda>target. Inr (d, target))))"

fun parse_children ::
  "ustring \<Rightarrow> palette \<Rightarrow> room_title option \<Rightarrow> description option \<Rightarrow> (direction \<times> ustring) list \<Rightarrow> kdl_node list
    \<Rightarrow> world_error + (room_title option \<times> description option \<times> (direction \<times> ustring) list)" where
  "parse_children slug p title descr exits [] = Inr (title, descr, exits)"
| "parse_children slug p title descr exits (n # ns) =
     (if kn_name n = lit ''title'' then
        parse_children slug p (map_option (\<lambda>raw. Title (compile_field raw field_TITLE p)) (node_arg n 0)) descr exits ns
      else if kn_name n = lit ''description'' then
        parse_children slug p title
          (map_option (\<lambda>raw. Description (compile_field raw field_DESCRIPTION p)) (node_arg n 0)) exits ns
      else if kn_name n = lit ''exit'' then
        bindE (parse_exit n) (\<lambda>e. parse_children slug p title descr (exits @ [e]) ns)
      else Inl (UnexpectedNode (lit ''room '' @ slug) (kn_name n)))"

definition parse_room :: "kdl_node \<Rightarrow> place_id \<Rightarrow> region_id \<Rightarrow> palette \<Rightarrow> world_error + raw_room" where
  "parse_room n i region p =
     bindE (ok_or (node_arg n 0) (missing ''room'' ''slug'')) (\<lambda>slug_text.
     bindE (map_err (InvalidSlug slug_text) (PlaceKey_parse slug_text)) (\<lambda>slug.
     bindE (parse_children (place_key_str slug) p None None [] (kn_children n)) (\<lambda>(title, descr, exits).
     bindE (ok_or descr (MissingField (place_key_str slug) ''description'')) (\<lambda>d.
     Inr \<lparr>raw_slug = slug, raw_id = i, raw_region = region, raw_title = title, raw_description = d, raw_exits = exits\<rparr>))))"

definition resolve_exit_target ::
  "place_key \<Rightarrow> direction \<Rightarrow> ustring \<Rightarrow> (place_key \<rightharpoonup> place_id) \<Rightarrow> world_error + place_id" where
  "resolve_exit_target from d target ids =
     bindE (map_err (InvalidSlug target) (PlaceKey_parse target)) (\<lambda>slug.
     ok_or (ids slug) (DanglingExit (place_key_str from) (dir_name d) target))"

fun resolve_exits ::
  "place_key \<Rightarrow> (place_key \<rightharpoonup> place_id) \<Rightarrow> room_data \<Rightarrow> (direction \<times> ustring) list \<Rightarrow> world_error + room_data" where
  "resolve_exits from ids data [] = Inr data"
| "resolve_exits from ids data ((d, target) # exits) =
     bindE (resolve_exit_target from d target ids) (\<lambda>i. resolve_exits from ids (with_exit data d i) exits)"

definition resolve_room :: "(place_key \<rightharpoonup> place_id) \<Rightarrow> raw_room \<Rightarrow> world_error + room_data" where
  "resolve_room ids raw =
     (let data = room_new (raw_id raw) (raw_region raw) (raw_description raw)
      in resolve_exits (raw_slug raw) ids
           (case raw_title raw of None \<Rightarrow> data | Some t \<Rightarrow> with_title data t) (raw_exits raw))"

fun resolve_rooms ::
  "(place_key \<rightharpoonup> place_id) \<Rightarrow> (place_id \<rightharpoonup> place) \<Rightarrow> raw_room list \<Rightarrow> world_error + (place_id \<rightharpoonup> place)" where
  "resolve_rooms ids by_id [] = Inr by_id"
| "resolve_rooms ids by_id (raw # raws) =
     bindE (resolve_room ids raw) (\<lambda>data. resolve_rooms ids (by_id(raw_id raw \<mapsto> Room data)) raws)"

text \<open>What the scan of the room files has gathered.\<close>

record room_scan =
  sc_rooms :: "raw_room list"
  sc_slugs :: "place_key \<rightharpoonup> place_id"
  sc_ids :: "place_id \<rightharpoonup> place_key"
  sc_next :: u64

fun scan_nodes :: "palette \<Rightarrow> region_id \<Rightarrow> room_scan \<Rightarrow> kdl_node list \<Rightarrow> world_error + room_scan" where
  "scan_nodes p region s [] = Inr s"
| "scan_nodes p region s (n # ns) =
     (if kn_name n \<noteq> lit ''room'' then Inl (UnexpectedNode (lit ''world file'') (kn_name n))
      else
        bindE (parse_room n (PlaceId (sc_next s)) region p) (\<lambda>raw.
          if sc_slugs s (raw_slug raw) \<noteq> None then Inl (DuplicateSlug (place_key_str (raw_slug raw)))
          else scan_nodes p region
                 \<lparr>sc_rooms = sc_rooms s @ [raw], sc_slugs = (sc_slugs s)(raw_slug raw \<mapsto> raw_id raw),
                   sc_ids = (sc_ids s)(raw_id raw \<mapsto> raw_slug raw), sc_next = advance (sc_next s)\<rparr> ns))"

fun scan_files ::
  "palette \<Rightarrow> region_binder \<Rightarrow> room_scan \<Rightarrow> (path \<times> (read_fault + kdl_node list)) list \<Rightarrow> world_error + room_scan" where
  "scan_files p b s [] = Inr s"
| "scan_files p b s ((file, r) # files) =
     bindE (ok_or (region_for b (butlast file)) (RoomOutsideRegion file)) (\<lambda>region.
     bindE (read_file file r) (\<lambda>nodes.
     bindE (scan_nodes p region s nodes) (\<lambda>s1. scan_files p b s1 files)))"

definition scan_new :: room_scan where
  "scan_new = \<lparr>sc_rooms = [], sc_slugs = Map.empty, sc_ids = Map.empty, sc_next = 1\<rparr>"

definition load_rooms :: "fs_node \<Rightarrow> palette \<Rightarrow> world_error + (rooms \<times> regions)" where
  "load_rooms world_dir p =
     bindE (collect_kdl_files [] world_dir) (\<lambda>files.
       case partition (\<lambda>(path, _). last path = REGION_MANIFEST) files of (manifests, room_files) \<Rightarrow>
     bindE (binder_load manifests) (\<lambda>binder.
     bindE (scan_files p binder scan_new room_files) (\<lambda>s.
     bindE (resolve_rooms (sc_slugs s) Map.empty (sc_rooms s)) (\<lambda>by_id.
     Inr (\<lparr>rooms_by_id = by_id, slug_to_id = sc_slugs s, id_to_slug = sc_ids s\<rparr>, rb_regions binder)))))"

section \<open>The tenant's content\<close>

definition load_banner :: "path \<Rightarrow> read_fault + kdl_node list \<Rightarrow> world_error + ustring" where
  "load_banner p r =
     bindE (read_file p r) (\<lambda>nodes.
     ok_or (Option.bind (List.find (\<lambda>n. kn_name n = lit ''banner'') nodes) (\<lambda>n. node_arg n 0))
       (missing ''banner'' ''text''))"

text \<open>The configuration as the TOML library extracts it, with the defaults of its fields.\<close>

record raw_config =
  rc_banner :: "ustring option"
  rc_palette :: "ustring option"
  rc_start_room :: ustring
  rc_locale :: "ustring option"

record tenant_config =
  tc_banner :: ustring
  tc_palette :: ustring
  tc_start_room :: ustring
  tc_locale :: ustring

definition default_banner :: ustring where "default_banner = lit ''welcome.kdl''"
definition default_palette :: ustring where "default_palette = lit ''palette.kdl''"
definition default_locale :: ustring where "default_locale = lit ''en''"

text \<open>\<open>Path::components\<close> on Unix: the parts between slashes, without empty and current-directory parts.\<close>

definition is_absolute :: "ustring \<Rightarrow> bool" where
  "is_absolute p \<longleftrightarrow> p \<noteq> [] \<and> hd p = ch CHR ''/''"

definition components :: "ustring \<Rightarrow> ustring list" where
  "components p = filter (\<lambda>c. c \<noteq> [] \<and> c \<noteq> lit ''.'') (split_on (ch CHR ''/'') p)"

definition ensure_contained :: "string \<Rightarrow> ustring \<Rightarrow> world_error + unit" where
  "ensure_contained field p =
     (if is_absolute p \<or> lit ''..'' \<in> set (components p) then Inl (EscapingPath field p) else Inr ())"

definition config_load :: "raw_config option \<Rightarrow> world_error + tenant_config" where
  "config_load extracted =
     (case extracted of
        None \<Rightarrow> Inl WorldConfig
      | Some raw \<Rightarrow>
          (let c = \<lparr>tc_banner = (case rc_banner raw of None \<Rightarrow> default_banner | Some b \<Rightarrow> b),
                     tc_palette = (case rc_palette raw of None \<Rightarrow> default_palette | Some b \<Rightarrow> b),
                     tc_start_room = rc_start_room raw,
                     tc_locale = (case rc_locale raw of None \<Rightarrow> default_locale | Some l \<Rightarrow> l)\<rparr>
           in bindE (ensure_contained ''banner'' (tc_banner c)) (\<lambda>_.
              bindE (ensure_contained ''palette'' (tc_palette c)) (\<lambda>_. Inr c))))"

text \<open>\<open>Path::join\<close>: an absolute path replaces the base; the components of the result.\<close>

definition path_join :: "path \<Rightarrow> ustring \<Rightarrow> path" where
  "path_join base p = (if is_absolute p then components p else base @ components p)"

record loaded_world =
  lw_rooms :: rooms
  lw_regions :: regions
  lw_palette :: palette
  lw_banner :: ustring
  lw_start :: place_id

text \<open>The files of a tenant's folder: the world directory, the banner and the palette, if there is one.\<close>

record tenant_files =
  tf_world :: fs_node
  tf_banner :: "read_fault + kdl_node list"
  tf_palette :: "(read_fault + kdl_node list) option"

definition load_world :: "tenant_config \<Rightarrow> tenant_files \<Rightarrow> world_error + loaded_world" where
  "load_world cfg files =
     bindE (load_palette (map_option (\<lambda>r. (components (tc_palette cfg), r)) (tf_palette files))) (\<lambda>pal.
     bindE (load_rooms (tf_world files) pal) (\<lambda>(rms, rgns).
     bindE (load_banner (components (tc_banner cfg)) (tf_banner files)) (\<lambda>banner.
     bindE (map_err (InvalidSlug (tc_start_room cfg)) (PlaceKey_parse (tc_start_room cfg))) (\<lambda>slug.
     bindE (ok_or (rooms_id_of rms slug) (UnknownStartRoom (tc_start_room cfg))) (\<lambda>start.
     Inr \<lparr>lw_rooms = rms, lw_regions = rgns, lw_palette = pal, lw_banner = banner, lw_start = start\<rparr>)))))"

end
