(* ===== verification/Content.thy ===== *)
theory Content
  imports Loader
begin

text \<open>
  What loading guarantees: the regions are flat and the rooms well formed, every exit leads to a
  loaded room, the authored text and exits are those of the file, and the configured files lie in the
  tenant's folder.
\<close>

lemma find_in: "List.find P xs = Some x \<Longrightarrow> x \<in> set xs \<and> P x"
  by (auto simp: find_Some_iff)

section \<open>Regions\<close>

definition binder_ok :: "region_binder \<Rightarrow> bool" where
  "binder_ok b \<longleftrightarrow>
     (\<forall>(f, i) \<in> set (rb_manifests b). rgn_by_id (rb_regions b) i \<noteq> None) \<and>
     (\<forall>f i g j. (f, i) \<in> set (rb_manifests b) \<and> (g, j) \<in> set (rb_manifests b) \<and> prefix f g \<longrightarrow> f = g \<and> i = j)"

lemma bind_regions_ok: "bind_regions b i files = Inr b' \<Longrightarrow> binder_ok b \<Longrightarrow> binder_ok b'"
proof (induction b i files rule: bind_regions.induct)
  case (2 b i p r files)
  obtain key name where m: "parse_manifest p r = Inr (key, name)"
      "\<not> list_ex (\<lambda>(other, _). prefix other (butlast p) \<or> prefix (butlast p) other) (rb_manifests b)"
      "rgn_key_to_id (rb_regions b) key = None" "butlast p \<noteq> []"
    using 2(2) by (auto split: if_splits prod.splits)
  let ?b = "\<lparr>rb_manifests = rb_manifests b @ [(butlast p, RegionId i)],
     rb_regions = \<lparr>rgn_by_id = (rgn_by_id (rb_regions b))(RegionId i \<mapsto> \<lparr>rd_key = key, rd_name = name\<rparr>),
       rgn_key_to_id = (rgn_key_to_id (rb_regions b))(key \<mapsto> RegionId i)\<rparr>\<rparr>"
  have "binder_ok ?b"
    using 2(3) m(2) by (fastforce simp: binder_ok_def list_ex_iff)
  with 2 m show ?case by simp
qed simp

lemma binder_load_ok: "binder_load files = Inr b \<Longrightarrow> binder_ok b"
  unfolding binder_load_def by (erule bind_regions_ok) (simp add: binder_ok_def)

text \<open>
  A folder belongs to at most one region, the one whose manifest lies in it or above it, whatever
  the order of the manifests.
\<close>

theorem region_for_unique:
  assumes "binder_load files = Inr b"
  shows "region_for b dir = Some i \<longleftrightarrow> (\<exists>f. (f, i) \<in> set (rb_manifests b) \<and> prefix f dir)"
proof -
  note ok = binder_load_ok [OF assms]
  show ?thesis
  proof
    assume "region_for b dir = Some i"
    then show "\<exists>f. (f, i) \<in> set (rb_manifests b) \<and> prefix f dir"
      by (auto simp: region_for_def dest: find_in)
  next
    assume "\<exists>f. (f, i) \<in> set (rb_manifests b) \<and> prefix f dir"
    then obtain f where f: "(f, i) \<in> set (rb_manifests b)" "prefix f dir" by blast
    then obtain g j where g: "List.find (\<lambda>(folder, _). prefix folder dir) (rb_manifests b) = Some (g, j)"
      by (cases "List.find (\<lambda>(folder, _). prefix folder dir) (rb_manifests b)") (auto simp: find_None_iff)
    then have "(g, j) \<in> set (rb_manifests b)" "prefix g dir" by (auto dest: find_in)
    with f prefix_same_cases [of f dir g] ok have "i = j" unfolding binder_ok_def by blast
    with g show "region_for b dir = Some i" by (simp add: region_for_def)
  qed
qed

section \<open>Rooms\<close>

text \<open>How many nodes the files hold: an upper bound for the number of rooms.\<close>

definition node_count :: "(path \<times> (read_fault + kdl_node list)) list \<Rightarrow> nat" where
  "node_count files = sum_list (map (\<lambda>(_, r). case r of Inl _ \<Rightarrow> 0 | Inr ns \<Rightarrow> length ns) files)"

definition scan_ok :: "region_binder \<Rightarrow> room_scan \<Rightarrow> bool" where
  "scan_ok b s \<longleftrightarrow>
     map (\<lambda>r. unat (place_get (raw_id r))) (sc_rooms s) = [1..<Suc (length (sc_rooms s))] \<and>
     (Suc (length (sc_rooms s)) < 2 ^ 64 \<longrightarrow> unat (sc_next s) = Suc (length (sc_rooms s))) \<and>
     (\<forall>k i. sc_slugs s k = Some i \<longleftrightarrow> (\<exists>r \<in> set (sc_rooms s). raw_slug r = k \<and> raw_id r = i)) \<and>
     (\<forall>k i. sc_ids s i = Some k \<longleftrightarrow> sc_slugs s k = Some i) \<and>
     (\<forall>r \<in> set (sc_rooms s). PlaceKey_parse (place_key_str (raw_slug r)) = Inr (raw_slug r) \<and>
        raw_region r \<in> snd ` set (rb_manifests b))"

lemma unat_advance: "unat i + 1 < 2 ^ 64 \<Longrightarrow> unat (advance i) = unat i + 1"
proof -
  assume h: "unat i + 1 < 2 ^ 64"
  then have "unat (i + 1) = unat i + 1"
    using unat_add_lem [of i 1] by simp
  with h show ?thesis by (simp add: advance_def checked_add_u64_def)
qed

lemma parse_room_ok:
  assumes "parse_room n i region p = Inr raw"
  shows "raw_id raw = i" and "raw_region raw = region" and "PlaceKey_parse (place_key_str (raw_slug raw)) = Inr (raw_slug raw)"
  using assms by (auto simp: parse_room_def PlaceKey_parse_ok split: prod.splits)

lemma scan_nodes_ok:
  assumes "scan_nodes p region s ns = Inr s'" and "scan_ok b s" and "region \<in> snd ` set (rb_manifests b)"
    and "length (sc_rooms s) + length ns < 2 ^ 64"
  shows "scan_ok b s' \<and> length (sc_rooms s') = length (sc_rooms s) + length ns"
  using assms
proof (induction ns arbitrary: s)
  case (Cons n ns)
  obtain raw where raw: "parse_room n (PlaceId (sc_next s)) region p = Inr raw" "sc_slugs s (raw_slug raw) = None"
      "kn_name n = lit ''room''"
    using Cons.prems(1) by (auto split: if_splits)
  let ?s = "\<lparr>sc_rooms = sc_rooms s @ [raw], sc_slugs = (sc_slugs s)(raw_slug raw \<mapsto> raw_id raw),
     sc_ids = (sc_ids s)(raw_id raw \<mapsto> raw_slug raw), sc_next = advance (sc_next s)\<rparr>"
  let ?n = "length (sc_rooms s)"
  note r = parse_room_ok [OF raw(1)]
  have nums: "map (\<lambda>r. unat (place_get (raw_id r))) (sc_rooms s) = [1..<Suc ?n]" using Cons.prems(2) by (simp add: scan_ok_def)
  have n: "unat (sc_next s) = Suc ?n" using Cons.prems(2,4) by (simp add: scan_ok_def)
  have fresh: "raw_id raw \<noteq> raw_id q" if "q \<in> set (sc_rooms s)" for q
  proof
    assume "raw_id raw = raw_id q"
    then have "Suc ?n = unat (place_get (raw_id q))" using r(1) n by (metis place_id.sel)
    moreover have "unat (place_get (raw_id q)) \<in> set [1..<Suc ?n]" using that nums by (metis image_eqI list.set_map)
    ultimately show False by simp
  qed
  have slugs: "\<forall>k i. sc_slugs s k = Some i \<longleftrightarrow> (\<exists>r \<in> set (sc_rooms s). raw_slug r = k \<and> raw_id r = i)"
    using Cons.prems(2) by (simp add: scan_ok_def)
  then have new_slug: "raw_slug q \<noteq> raw_slug raw" if "q \<in> set (sc_rooms s)" for q
    using raw(2) that by (metis option.distinct(1))
  have ids: "sc_ids s (raw_id raw) = None"
  proof (rule ccontr)
    assume "sc_ids s (raw_id raw) \<noteq> None"
    then obtain k where "sc_ids s (raw_id raw) = Some k" by blast
    then obtain q where "q \<in> set (sc_rooms s)" "raw_id q = raw_id raw" using Cons.prems(2) by (auto simp: scan_ok_def)
    with fresh show False by metis
  qed
  have next': "unat (advance (sc_next s)) = Suc (Suc ?n)" if "Suc (Suc ?n) < 2 ^ 64"
    using unat_advance [of "sc_next s"] n that by simp
  have "scan_ok b ?s"
    unfolding scan_ok_def
  proof (intro conjI)
    show "map (\<lambda>r. unat (place_get (raw_id r))) (sc_rooms ?s) = [1..<Suc (length (sc_rooms ?s))]"
      using nums r(1) n by simp
    show "Suc (length (sc_rooms ?s)) < 2 ^ 64 \<longrightarrow> unat (sc_next ?s) = Suc (length (sc_rooms ?s))"
      using next' by simp
    show "\<forall>k i. sc_slugs ?s k = Some i \<longleftrightarrow> (\<exists>r \<in> set (sc_rooms ?s). raw_slug r = k \<and> raw_id r = i)"
      using slugs new_slug by auto
    show "\<forall>k i. sc_ids ?s i = Some k \<longleftrightarrow> sc_slugs ?s k = Some i"
    proof (intro allI)
      fix k i
      have "sc_ids s i = Some k \<longleftrightarrow> sc_slugs s k = Some i" using Cons.prems(2) by (simp add: scan_ok_def)
      moreover have "sc_slugs s k \<noteq> Some (raw_id raw)" using slugs fresh by metis
      moreover have "sc_ids s i \<noteq> Some (raw_slug raw)" using Cons.prems(2) raw(2) by (simp add: scan_ok_def)
      ultimately show "sc_ids ?s i = Some k \<longleftrightarrow> sc_slugs ?s k = Some i" by auto
    qed
    show "\<forall>r \<in> set (sc_rooms ?s). PlaceKey_parse (place_key_str (raw_slug r)) = Inr (raw_slug r) \<and>
        raw_region r \<in> snd ` set (rb_manifests b)"
      using Cons.prems(2,3) r by (auto simp: scan_ok_def)
  qed
  moreover have "scan_nodes p region ?s ns = Inr s'" using Cons.prems(1) raw by simp
  ultimately show ?case using Cons.IH [of ?s] Cons.prems(3,4) by simp
qed simp

lemma scan_files_ok:
  assumes "scan_files p b s files = Inr s'" and "scan_ok b s" and "length (sc_rooms s) + node_count files < 2 ^ 64"
  shows "scan_ok b s'"
  using assms
proof (induction p b s files rule: scan_files.induct)
  case (2 p b s f r files)
  obtain region nodes s1 where s1: "region_for b (butlast f) = Some region" "read_file f r = Inr nodes"
      "scan_nodes p region s nodes = Inr s1" "scan_files p b s1 files = Inr s'"
    using 2(2) by auto
  have r: "r = Inr nodes" using s1(2) by (simp add: read_file_def)
  have "region \<in> snd ` set (rb_manifests b)"
    using s1(1) by (auto simp: region_for_def dest!: find_in intro: rev_image_eqI)
  from scan_nodes_ok [OF s1(3) 2(3) this] 2(4) r
  have "scan_ok b s1" "length (sc_rooms s1) + node_count files < 2 ^ 64" by (auto simp: node_count_def)
  from 2(1) [OF s1(4) this] show ?case .
qed simp

text \<open>The exits of a room: for each direction the last one authored, to the room its slug names.\<close>

lemma resolve_exits_ok:
  "resolve_exits k ids data exits = Inr d \<Longrightarrow>
     room_id d = room_id data \<and> room_region d = room_region data \<and> room_title d = room_title data \<and>
     room_description d = room_description data \<and>
     (\<forall>dir. room_neighbor d dir = (case map_of (rev exits) dir of
        None \<Rightarrow> room_neighbor data dir | Some target \<Rightarrow> ids (PlaceKey target))) \<and>
     (\<forall>(dir, target) \<in> set exits. ids (PlaceKey target) \<noteq> None)"
proof (induction exits arbitrary: data)
  case (Cons e exits)
  obtain dir target where e: "e = (dir, target)" by fastforce
  obtain i where i: "resolve_exit_target k dir target ids = Inr i" "resolve_exits k ids (with_exit data dir i) exits = Inr d"
    using Cons.prems by (auto simp: e)
  then have t: "ids (PlaceKey target) = Some i" by (auto simp: resolve_exit_target_def PlaceKey_parse_ok)
  have keep: "room_id (with_exit data dir i) = room_id data \<and> room_region (with_exit data dir i) = room_region data \<and>
      room_title (with_exit data dir i) = room_title data \<and> room_description (with_exit data dir i) = room_description data"
    by (cases dir) simp_all
  from Cons.IH [OF i(2)] keep t show ?case
    by (auto simp: e map_add_def split: option.splits)
qed simp

lemma resolve_room_ok:
  assumes "resolve_room ids raw = Inr d"
  shows "room_id d = raw_id raw \<and> room_region d = raw_region raw \<and> room_title d = raw_title raw \<and>
    room_description d = raw_description raw \<and>
    (\<forall>dir. room_neighbor d dir = Option.bind (map_of (rev (raw_exits raw)) dir) (\<lambda>t. ids (PlaceKey t))) \<and>
    (\<forall>(dir, target) \<in> set (raw_exits raw). ids (PlaceKey target) \<noteq> None)"
proof -
  let ?data = "case raw_title raw of None \<Rightarrow> room_new (raw_id raw) (raw_region raw) (raw_description raw)
    | Some t \<Rightarrow> with_title (room_new (raw_id raw) (raw_region raw) (raw_description raw)) t"
  have "room_neighbor ?data dir = None" for dir
    by (cases dir) (simp_all add: room_new_def with_title_def split: option.split)
  moreover have "room_id ?data = raw_id raw" "room_region ?data = raw_region raw" "room_title ?data = raw_title raw"
      "room_description ?data = raw_description raw"
    by (simp_all add: room_new_def with_title_def split: option.split)
  ultimately show ?thesis
    using resolve_exits_ok [of "raw_slug raw" ids ?data "raw_exits raw" d] assms
    by (auto simp: resolve_room_def Let_def split: option.splits)
qed

lemma resolve_rooms_ok:
  "resolve_rooms ids m raws = Inr by_id \<Longrightarrow> distinct (map raw_id raws) \<Longrightarrow>
     dom by_id = dom m \<union> raw_id ` set raws \<and>
     (\<forall>raw \<in> set raws. \<exists>d. resolve_room ids raw = Inr d \<and> by_id (raw_id raw) = Some (Room d)) \<and>
     (\<forall>i. i \<notin> raw_id ` set raws \<longrightarrow> by_id i = m i)"
proof (induction raws arbitrary: m)
  case (Cons raw raws)
  obtain d where d: "resolve_room ids raw = Inr d" "resolve_rooms ids (m(raw_id raw \<mapsto> Room d)) raws = Inr by_id"
    using Cons.prems(1) by auto
  from Cons.IH [OF d(2)] Cons.prems(2) d(1) show ?case by auto
qed simp

text \<open>
  A registry of rooms with its regions: handles and slugs in bijection, each slug valid, a room for
  each of them, which knows its own handle, belongs to a region and leads only to rooms.
\<close>

definition rooms_ok :: "rooms \<Rightarrow> regions \<Rightarrow> bool" where
  "rooms_ok rms rgns \<longleftrightarrow>
     (\<forall>i k. id_to_slug rms i = Some k \<longleftrightarrow> slug_to_id rms k = Some i) \<and>
     (\<forall>i k. id_to_slug rms i = Some k \<longrightarrow> PlaceKey_parse (place_key_str k) = Inr k) \<and>
     dom (rooms_by_id rms) = dom (id_to_slug rms) \<and>
     (\<forall>i pl. rooms_get rms i = Some pl \<longrightarrow> place_id_of pl = i \<and> region_key_of rgns (place_region pl) \<noteq> None \<and>
        (\<forall>d q. neighbor pl d = Some q \<longrightarrow> rooms_get rms q \<noteq> None))"

lemma load_rooms_scan:
  assumes "load_rooms world_dir p = Inr (rms, rgns)"
    and "\<forall>files. collect_kdl_files [] world_dir = Inr files \<longrightarrow> node_count files < 2 ^ 64"
  obtains b s where "scan_ok b s" "binder_ok b" "rgns = rb_regions b" "slug_to_id rms = sc_slugs s" "id_to_slug rms = sc_ids s"
    "resolve_rooms (sc_slugs s) Map.empty (sc_rooms s) = Inr (rooms_by_id rms)" "distinct (map raw_id (sc_rooms s))"
proof -
  obtain files b s where s: "collect_kdl_files [] world_dir = Inr files"
      "binder_load (filter (\<lambda>(path, _). last path = REGION_MANIFEST) files) = Inr b"
      "scan_files p b scan_new (filter (Not \<circ> (\<lambda>(path, _). last path = REGION_MANIFEST)) files) = Inr s"
      "resolve_rooms (sc_slugs s) Map.empty (sc_rooms s) = Inr (rooms_by_id rms)"
      "slug_to_id rms = sc_slugs s" "id_to_slug rms = sc_ids s" "rgns = rb_regions b"
    using assms(1) by (auto simp: load_rooms_def partition_filter_conv)
  have le: "node_count (filter P fs) \<le> node_count fs" for P fs
    by (induction fs) (auto simp: node_count_def)
  have "scan_ok b scan_new" by (simp add: scan_ok_def scan_new_def)
  moreover have "length (sc_rooms scan_new) + node_count (filter (Not \<circ> (\<lambda>(path, _). last path = REGION_MANIFEST)) files) < 2 ^ 64"
    using assms(2) s(1) le order.strict_trans1 by (fastforce simp: scan_new_def)
  ultimately have ok: "scan_ok b s" using scan_files_ok [OF s(3)] by blast
  have "distinct (map (\<lambda>r. unat (place_get (raw_id r))) (sc_rooms s))"
    using ok by (simp only: scan_ok_def distinct_upt)
  then have "distinct (map (\<lambda>i. unat (place_get i)) (map raw_id (sc_rooms s)))" by (simp add: comp_def)
  then have "distinct (map raw_id (sc_rooms s))" by (simp only: distinct_map)
  with ok binder_load_ok [OF s(2)] s show thesis by (intro that)
qed

lemma rooms_registry_ok:
  assumes "load_rooms world_dir p = Inr (rms, rgns)"
    and "\<forall>files. collect_kdl_files [] world_dir = Inr files \<longrightarrow> node_count files < 2 ^ 64"
  shows "rooms_ok rms rgns"
proof -
  obtain b s where s: "scan_ok b s" "binder_ok b" "rgns = rb_regions b" "slug_to_id rms = sc_slugs s"
      "id_to_slug rms = sc_ids s" "resolve_rooms (sc_slugs s) Map.empty (sc_rooms s) = Inr (rooms_by_id rms)"
      "distinct (map raw_id (sc_rooms s))"
    by (rule load_rooms_scan [OF assms])
  note r = resolve_rooms_ok [OF s(6,7)]
  have slugs: "sc_slugs s k = Some i \<longleftrightarrow> (\<exists>raw \<in> set (sc_rooms s). raw_slug raw = k \<and> raw_id raw = i)" for k i
    using s(1) by (simp add: scan_ok_def)
  have ids: "sc_ids s i = Some k \<longleftrightarrow> sc_slugs s k = Some i" for k i using s(1) by (simp add: scan_ok_def)
  have dom: "dom (rooms_by_id rms) = dom (id_to_slug rms)"
    using r s(5) slugs ids by (auto simp: dom_def)
  have "place_id_of pl = i \<and> region_key_of rgns (place_region pl) \<noteq> None \<and>
      (\<forall>d q. neighbor pl d = Some q \<longrightarrow> rooms_get rms q \<noteq> None)" if pl: "rooms_get rms i = Some pl" for i pl
  proof -
    have "i \<in> raw_id ` set (sc_rooms s)" using pl r by (auto simp: rooms_get_def)
    then obtain raw d where raw: "raw \<in> set (sc_rooms s)" "raw_id raw = i" "resolve_room (sc_slugs s) raw = Inr d" "pl = Room d"
      using r pl by (fastforce simp: rooms_get_def)
    note d = resolve_room_ok [OF raw(3)]
    have "raw_region raw \<in> snd ` set (rb_manifests b)" using s(1) raw(1) by (simp add: scan_ok_def)
    then have "region_key_of rgns (room_region d) \<noteq> None"
      using s(2,3) d by (auto simp: binder_ok_def region_key_of_def)
    moreover have "rooms_get rms q \<noteq> None" if "room_neighbor d dir = Some q" for dir q
    proof -
      have "Option.bind (map_of (rev (raw_exits raw)) dir) (\<lambda>t. sc_slugs s (PlaceKey t)) = Some q"
        using that d by simp
      then obtain k where "sc_slugs s k = Some q" by (cases "map_of (rev (raw_exits raw)) dir") auto
      then have "q \<in> dom (id_to_slug rms)" using ids s(5) by auto
      then show ?thesis using dom by (auto simp: rooms_get_def)
    qed
    ultimately show ?thesis using d raw(2,4) by simp
  qed
  moreover have "PlaceKey_parse (place_key_str k) = Inr k" if "id_to_slug rms i = Some k" for i k
    using that s(1,5) slugs ids by (auto simp: scan_ok_def)
  ultimately show ?thesis using dom ids s(4,5) by (simp add: rooms_ok_def)
qed

text \<open>
  C16. What loads is well formed. Whatever the files hold, fewer than \<open>2 ^ 64\<close> nodes in all: if the rooms
  load, handles and slugs correspond one to one, every slug is valid, every handle has its room, every
  room lies in a declared region and every exit of it leads to a loaded room.
\<close>

theorem loaded_rooms_well_formed:
  assumes "load_rooms world_dir p = Inr (rms, rgns)"
    and "\<forall>files. collect_kdl_files [] world_dir = Inr files \<longrightarrow> node_count files < 2 ^ 64"
  shows "rooms_ok rms rgns"
  using assms by (rule rooms_registry_ok)

text \<open>A tenant with one region and two rooms, each an exit away from the other.\<close>

definition room_node :: "string \<Rightarrow> string \<Rightarrow> string \<Rightarrow> kdl_node" where
  "room_node slug dir target = KdlNode (lit ''room'') [KdlString (lit slug)] []
     [KdlNode (lit ''description'') [KdlString (lit ''A place.'')] [] [],
      KdlNode (lit ''exit'') [KdlString (lit dir), KdlString (lit target)] [] []]"

definition town :: fs_node where
  "town = Dir [(lit ''town'', Dir [
     (lit ''rooms.kdl'', File (Inr [room_node ''hall'' ''north'' ''garden'', room_node ''garden'' ''south'' ''hall''])),
     (lit ''region.kdl'', File (Inr [KdlNode (lit ''region'') [KdlString (lit ''town'')] [] []])),
     (lit ''notes.txt'', File (Inl ReadKdl))])]"

lemma town_files: "collect_kdl_files [] town = Inr
    [([lit ''town'', lit ''region.kdl''], Inr [KdlNode (lit ''region'') [KdlString (lit ''town'')] [] []]),
     ([lit ''town'', lit ''rooms.kdl''], Inr [room_node ''hall'' ''north'' ''garden'', room_node ''garden'' ''south'' ''hall''])]"
  by (simp add: town_def extension_def lit_def)

lemma town_slug: "PlaceKey_parse (lit ''hall'') = Inr (PlaceKey (lit ''hall''))"
    "PlaceKey_parse (lit ''garden'') = Inr (PlaceKey (lit ''garden''))" "RegionKey_parse (lit ''town'') = Inr (RegionKey (lit ''town''))"
  by (simp_all add: PlaceKey_parse_ok RegionKey_parse_ok slug_char_def lit_def is_ascii_lower_def is_ascii_digit_def)

lemma town_binder: "binder_load [([lit ''town'', lit ''region.kdl''], Inr [KdlNode (lit ''region'') [KdlString (lit ''town'')] [] []])] =
    Inr \<lparr>rb_manifests = [([lit ''town''], RegionId 1)],
      rb_regions = \<lparr>rgn_by_id = [RegionId 1 \<mapsto> \<lparr>rd_key = RegionKey (lit ''town''), rd_name = None\<rparr>],
        rgn_key_to_id = [RegionKey (lit ''town'') \<mapsto> RegionId 1]\<rparr>\<rparr>"
  using town_slug(3) by (simp add: binder_load_def parse_manifest_def read_file_def node_arg_def vec_get_def)

definition town_room :: "u64 \<Rightarrow> string \<Rightarrow> direction \<Rightarrow> string \<Rightarrow> palette \<Rightarrow> raw_room" where
  "town_room i slug d target p = \<lparr>raw_slug = PlaceKey (lit slug), raw_id = PlaceId i, raw_region = RegionId 1, raw_title = None,
     raw_description = Description (compile_field (lit ''A place.'') field_DESCRIPTION p), raw_exits = [(d, lit target)]\<rparr>"

lemma town_parse:
  "parse_room (room_node ''hall'' ''north'' ''garden'') (PlaceId i) (RegionId 1) p = Inr (town_room i ''hall'' North ''garden'' p)"
  "parse_room (room_node ''garden'' ''south'' ''hall'') (PlaceId i) (RegionId 1) p = Inr (town_room i ''garden'' South ''hall'' p)"
  using town_slug
  by (simp_all add: parse_room_def room_node_def node_arg_def vec_get_def town_room_def parse_exit_def Direction_from_str_def
      Direction_ALL_def lit_def)

lemma town_loads:
  obtains rms rgns where "load_rooms town p = Inr (rms, rgns)"
    and "slug_to_id rms = [PlaceKey (lit ''hall'') \<mapsto> PlaceId 1, PlaceKey (lit ''garden'') \<mapsto> PlaceId 2]"
    and "id_to_slug rms = [PlaceId 1 \<mapsto> PlaceKey (lit ''hall''), PlaceId 2 \<mapsto> PlaceKey (lit ''garden'')]"
    and "rooms_by_id rms (PlaceId 1) \<noteq> None"
proof -
  let ?b = "\<lparr>rb_manifests = [([lit ''town''], RegionId 1)],
      rb_regions = \<lparr>rgn_by_id = [RegionId 1 \<mapsto> \<lparr>rd_key = RegionKey (lit ''town''), rd_name = None\<rparr>],
        rgn_key_to_id = [RegionKey (lit ''town'') \<mapsto> RegionId 1]\<rparr>\<rparr>"
  let ?hall = "town_room 1 ''hall'' North ''garden'' p" and ?garden = "town_room 2 ''garden'' South ''hall'' p"
  let ?slugs = "[PlaceKey (lit ''hall'') \<mapsto> PlaceId 1, PlaceKey (lit ''garden'') \<mapsto> PlaceId 2]"
  let ?ids = "[PlaceId 1 \<mapsto> PlaceKey (lit ''hall''), PlaceId 2 \<mapsto> PlaceKey (lit ''garden'')]"
  have ne: "lit ''hall'' \<noteq> lit ''garden''" "lit ''garden'' \<noteq> lit ''hall''" "lit ''rooms.kdl'' \<noteq> lit ''region.kdl''"
    by (simp_all add: lit_def)
  have adv: "advance 1 = 2" by (simp add: advance_def checked_add_u64_def)
  have name: "kn_name (room_node s d g) = lit ''room''" for s d g by (simp add: room_node_def)
  have sel: "raw_slug ?hall = PlaceKey (lit ''hall'')" "raw_id ?hall = PlaceId 1"
      "raw_slug ?garden = PlaceKey (lit ''garden'')" "raw_id ?garden = PlaceId 2"
    by (simp_all add: town_room_def)
  have nodes: "scan_nodes p (RegionId 1) scan_new [room_node ''hall'' ''north'' ''garden'', room_node ''garden'' ''south'' ''hall''] =
      Inr \<lparr>sc_rooms = [?hall, ?garden], sc_slugs = ?slugs, sc_ids = ?ids, sc_next = advance 2\<rparr>"
    by (simp add: name town_parse scan_new_def ne adv sel del: fun_upd_apply) (simp add: ne)
  have scan: "scan_files p ?b scan_new [([lit ''town'', lit ''rooms.kdl''],
        Inr [room_node ''hall'' ''north'' ''garden'', room_node ''garden'' ''south'' ''hall''])] =
      Inr \<lparr>sc_rooms = [?hall, ?garden], sc_slugs = ?slugs, sc_ids = ?ids, sc_next = advance 2\<rparr>"
    using nodes by (simp add: region_for_def read_file_def)
  obtain h g where hg: "resolve_room ?slugs ?hall = Inr h" "resolve_room ?slugs ?garden = Inr g"
    using town_slug by (simp add: resolve_room_def town_room_def Let_def resolve_exit_target_def ne)
  have "load_rooms town p = Inr (\<lparr>rooms_by_id = [PlaceId 1 \<mapsto> Room h, PlaceId 2 \<mapsto> Room g], slug_to_id = ?slugs,
      id_to_slug = ?ids\<rparr>, rb_regions ?b)"
    by (simp add: load_rooms_def town_files REGION_MANIFEST_def ne town_binder scan hg sel del: bindE_eq_Inr scan_files.simps)
  then show thesis by (rule that) simp_all
qed

lemma loaded_rooms_well_formed_witness:
  "\<exists>rms rgns i. load_rooms town palette_baseline = Inr (rms, rgns) \<and> rooms_ok rms rgns \<and>
     rooms_id_of rms (PlaceKey (lit ''hall'')) = Some i \<and> rooms_get rms i \<noteq> None"
proof -
  obtain rms rgns where l: "load_rooms town palette_baseline = Inr (rms, rgns)"
      "slug_to_id rms = [PlaceKey (lit ''hall'') \<mapsto> PlaceId 1, PlaceKey (lit ''garden'') \<mapsto> PlaceId 2]"
      "rooms_by_id rms (PlaceId 1) \<noteq> None"
    by (rule town_loads)
  have "\<forall>files. collect_kdl_files [] town = Inr files \<longrightarrow> node_count files < 2 ^ 64"
    by (simp add: town_files node_count_def)
  from loaded_rooms_well_formed [OF l(1) this] l show ?thesis
    by (intro exI [of _ rms] exI [of _ rgns] exI [of _ "PlaceId 1"]) (simp add: rooms_id_of_def rooms_get_def lit_def)
qed

section \<open>The files stay in the tenant's folder\<close>

text \<open>
  A configuration cannot reach outside its tenant. The banner and the palette of a configuration
  that loads lie, joined to the tenant's folder, under that folder, and no component on the way goes up.
\<close>

theorem config_files_contained:
  assumes "config_load extracted = Inr cfg" and "f \<in> {tc_banner cfg, tc_palette cfg}"
  shows "\<exists>below. path_join folder f = folder @ below \<and> lit ''..'' \<notin> set below"
proof -
  have "ensure_contained ''banner'' (tc_banner cfg) = Inr ()" "ensure_contained ''palette'' (tc_palette cfg) = Inr ()"
    using assms(1) by (auto simp: config_load_def Let_def split: option.splits)
  then have "\<not> is_absolute f \<and> lit ''..'' \<notin> set (components f)"
    using assms(2) by (auto simp: ensure_contained_def split: if_splits)
  then show ?thesis by (simp add: path_join_def)
qed

lemma config_files_contained_witness:
  "\<exists>cfg below. config_load (Some \<lparr>rc_banner = Some (lit ''art/hi.kdl''), rc_palette = None, rc_start_room = lit ''hall'', rc_locale = None\<rparr>) =
       Inr cfg \<and> path_join [lit ''srv''] (tc_banner cfg) = lit ''srv'' # below \<and> lit ''..'' \<notin> set below"
proof -
  let ?raw = "\<lparr>rc_banner = Some (lit ''art/hi.kdl''), rc_palette = None, rc_start_room = lit ''hall'', rc_locale = None\<rparr>"
  obtain cfg where c: "config_load (Some ?raw) = Inr cfg"
    by (simp add: config_load_def ensure_contained_def is_absolute_def components_def default_palette_def lit_def)
  from config_files_contained [OF c, of "tc_banner cfg" "[lit ''srv'']"] c show ?thesis by auto
qed

end
