(* ===== verification/Tenant.thy ===== *)
theory Tenant
  imports Live_Loop Content
begin

text \<open>
  A tenant from its folder to its running loop: content that loads, together with a database that
  knows only rooms of it, boots and serves.
\<close>

lemma place_map_from_pairs_maps:
  "place_map_from_pairs pairs =
     \<lparr>pm_by_id = map_of (rev pairs), pm_by_key = map_of (rev (map (\<lambda>(i, k). (k, i)) pairs))\<rparr>"
proof -
  have "foldl (\<lambda>m (i, k). m\<lparr>pm_by_id := (pm_by_id m)(i \<mapsto> k), pm_by_key := (pm_by_key m)(k \<mapsto> i)\<rparr>) m pairs =
      m\<lparr>pm_by_id := pm_by_id m ++ map_of (rev pairs),
        pm_by_key := pm_by_key m ++ map_of (rev (map (\<lambda>(i, k). (k, i)) pairs))\<rparr>" for m :: place_map
    by (induction pairs arbitrary: m) (auto simp: map_add_upd_left)
  then show ?thesis by (simp add: place_map_from_pairs_def)
qed

lemma map_of_rev_dist: "distinct (map fst xs) \<Longrightarrow> map_of (rev xs) = map_of xs"
  by (metis distinct_rev map_of_eqI map_of_inject_set rev_map set_rev set_map)

text \<open>Whatever order the registry yields its pairs in, the place map is the registry's.\<close>

lemma place_map_of_rooms:
  assumes "rooms_ok rms rgns" and "place_keys rms pairs"
  shows "place_map_from_pairs pairs = \<lparr>pm_by_id = id_to_slug rms, pm_by_key = slug_to_id rms\<rparr>"
proof -
  have d: "distinct (map fst pairs)" "map_of pairs = id_to_slug rms"
    using assms(2) by (simp_all add: place_keys_def)
  have mem: "(i, k) \<in> set pairs \<longleftrightarrow> slug_to_id rms k = Some i" for i k
    using d assms(1) by (metis map_of_eq_Some_iff rooms_ok_def)
  let ?swap = "map (\<lambda>(i, k). (k, i)) pairs"
  have "distinct (map fst ?swap)"
  proof -
    have "inj_on snd (set pairs)" using mem by (auto simp: inj_on_def)
    moreover have "distinct pairs" using d(1) by (simp add: distinct_map)
    ultimately show ?thesis by (simp add: distinct_map comp_def case_prod_beta inj_on_def)
  qed
  moreover have "map_of ?swap = slug_to_id rms"
  proof
    fix k
    have "map_of ?swap k = Some i \<longleftrightarrow> slug_to_id rms k = Some i" for i
      using calculation mem by (subst map_of_eq_Some_iff) auto
    then show "map_of ?swap k = slug_to_id rms k" by (metis not_None_eq)
  qed
  ultimately show ?thesis
    using d by (simp add: place_map_from_pairs_maps map_of_rev_dist)
qed

text \<open>
  From a folder to a server that does not fail. Let the content of a tenant load and its database be
  consistent and name only rooms that are still authored. Then the tenant boots, in whatever order the
  registry lists its rooms; and let players and clock do anything in any order: connect, type any
  lines, drop and let ticks pass, fewer than \<open>2 ^ 64\<close> events in all. As long as the database executes
  its statements, no step panics and none stops the loop, the database mirrors the world in memory
  at the end, and every session in the world controls a live entity of it.
\<close>

theorem tenant_serves:
  assumes "load_world cfg files = Inr lw"
    and "\<forall>fs. collect_kdl_files [] (tf_world files) = Inr fs \<longrightarrow> node_count fs < 2 ^ 64"
    and "place_keys (lw_rooms lw) pairs" and "tag_ok t"
    and "db_ok db" and "length (db_entities db) \<le> 2 ^ 32" and "fault_free db"
    and "\<forall>s \<in> snd ` set (db_location db). rooms_id_of (lw_rooms lw) (PlaceKey s) \<noteq> None"
    and "length evs < 2 ^ 64"
  shows "\<exists>rt frames rt'.
    boot_tenant uni hash verify db t pairs (rooms_get (lw_rooms lw)) (tc_start_room cfg) (lw_banner lw) (Locale (tc_locale cfg)) =
      Some (Inr rt) \<and>
    loop_run uni order rt evs = Some (frames, Inr rt') \<and> mirrors (rt_world rt') \<and>
    (\<forall>sid bd. ss_sessions (rt_sessions rt') sid = Some (InWorld bd) \<longrightarrow> live (pw_world (rt_world rt')) (bind_puppet bd))"
proof -
  obtain pal start where l: "load_rooms (tf_world files) pal = Inr (lw_rooms lw, lw_regions lw)"
      "PlaceKey_parse (tc_start_room cfg) = Inr start" "rooms_id_of (lw_rooms lw) start \<noteq> None"
    using assms(1) by (auto simp: load_world_def)
  have ok: "rooms_ok (lw_rooms lw) (lw_regions lw)" by (rule rooms_registry_ok [OF l(1) assms(2)])
  note map = place_map_of_rooms [OF ok assms(3)]
  have known: "\<exists>p. place_id_for_slug (place_map_from_pairs pairs) s = Inr p" if "s \<in> snd ` set (db_location db)" for s
  proof -
    have "slug_to_id (lw_rooms lw) (PlaceKey s) \<noteq> None" using bspec [OF assms(8) that] by (simp add: rooms_id_of_def)
    then obtain i where i: "slug_to_id (lw_rooms lw) (PlaceKey s) = Some i" by blast
    then have "PlaceKey_parse s = Inr (PlaceKey s)" using ok unfolding rooms_ok_def by (metis place_key.sel)
    with i show ?thesis by (simp add: place_id_for_slug_def map)
  qed
  have "places_ok (place_map_from_pairs pairs)" using ok by (simp add: places_ok_def map rooms_ok_def)
  with known assms(5,6) have "loadable (place_map_from_pairs pairs) db" by (fastforce simp: loadable_def)
  moreover have "pm_by_key (place_map_from_pairs pairs) start \<noteq> None" using l(3) by (simp add: map rooms_id_of_def)
  moreover have "\<forall>p. rooms_get (lw_rooms lw) p \<noteq> None \<longrightarrow> pm_by_id (place_map_from_pairs pairs) p \<noteq> None"
  proof -
    have "dom (rooms_by_id (lw_rooms lw)) = dom (id_to_slug (lw_rooms lw))" using ok by (simp add: rooms_ok_def)
    then show ?thesis by (auto simp: map rooms_get_def dom_def set_eq_iff)
  qed
  ultimately show ?thesis
    using server_never_fails [OF _ assms(7,4) l(2) _ _ assms(9)] by blast
qed

lemma tenant_serves_witness:
  "\<exists>cfg lw pairs rt frames rt'. load_world cfg \<lparr>tf_world = town, tf_banner = Inr [KdlNode (lit ''banner'') [KdlString (lit ''Hi'')] [] []],
        tf_palette = None\<rparr> = Inr lw \<and>
     boot_tenant hall_uni (\<lambda>p. Some p) (\<lambda>h p. Some (h = p)) hall_db (TenantTag 0) pairs (rooms_get (lw_rooms lw)) (tc_start_room cfg)
       (lw_banner lw) (Locale (tc_locale cfg)) = Some (Inr rt) \<and>
     loop_run hall_uni (\<lambda>_. []) rt
       [Received (FrameConnect (SessionId 1)),
        Received (FrameInput \<lparr>in_session = SessionId 1, in_line = InputLine (lit ''register bob'')\<rparr>), TickDue] = Some (frames, Inr rt') \<and>
     mirrors (rt_world rt')"
proof -
  let ?files = "\<lparr>tf_world = town, tf_banner = Inr [KdlNode (lit ''banner'') [KdlString (lit ''Hi'')] [] []], tf_palette = None\<rparr>"
  let ?cfg = "\<lparr>tc_banner = default_banner, tc_palette = default_palette, tc_start_room = lit ''hall'', tc_locale = default_locale\<rparr>"
  let ?pairs = "[(PlaceId 1, PlaceKey (lit ''hall'')), (PlaceId 2, PlaceKey (lit ''garden''))]"
  let ?evs = "[Received (FrameConnect (SessionId 1)),
        Received (FrameInput \<lparr>in_session = SessionId 1, in_line = InputLine (lit ''register bob'')\<rparr>), TickDue]"
  have ne: "lit ''hall'' \<noteq> lit ''garden''" by (simp add: lit_def)
  obtain rms rgns where r: "load_rooms town palette_baseline = Inr (rms, rgns)"
      "slug_to_id rms = [PlaceKey (lit ''hall'') \<mapsto> PlaceId 1, PlaceKey (lit ''garden'') \<mapsto> PlaceId 2]"
      "id_to_slug rms = [PlaceId 1 \<mapsto> PlaceKey (lit ''hall''), PlaceId 2 \<mapsto> PlaceKey (lit ''garden'')]"
    by (rule town_loads)
  let ?lw = "\<lparr>lw_rooms = rms, lw_regions = rgns, lw_palette = palette_baseline, lw_banner = lit ''Hi'', lw_start = PlaceId 1\<rparr>"
  have l: "load_world ?cfg ?files = Inr ?lw"
    using r town_slug(1) ne by (simp add: load_world_def load_palette_def load_banner_def read_file_def node_arg_def vec_get_def rooms_id_of_def)
  have n: "\<forall>fs. collect_kdl_files [] (tf_world ?files) = Inr fs \<longrightarrow> node_count fs < 2 ^ 64"
    by (simp add: town_files node_count_def)
  have k: "place_keys (lw_rooms ?lw) ?pairs" using r(3) by (simp add: place_keys_def fun_upd_twist)
  have d: "db_ok hall_db" "length (db_entities hall_db) \<le> 2 ^ 32" "fault_free hall_db"
    using hall_loadable by (simp_all add: loadable_def)
  have s: "\<forall>s \<in> snd ` set (db_location hall_db). rooms_id_of (lw_rooms ?lw) (PlaceKey s) \<noteq> None"
    using r(2) ne by (simp add: hall_db_def rooms_id_of_def)
  have e: "length ?evs < 2 ^ 64" by simp
  from tenant_serves [OF l n k tag_ok_0 d s e, of hall_uni "\<lambda>p. Some p" "\<lambda>h p. Some (h = p)" "\<lambda>_. []"] l
  show ?thesis by (intro exI [of _ ?cfg] exI [of _ ?lw] exI [of _ ?pairs]) auto
qed

end
