(* ===== verification/Handshake.thy ===== *)
theory Handshake
  imports Frames
begin

text \<open>
  The channel between gateway and world and the resume handshake on it (crates/mud-ipc: error.rs,
  transport.rs, handshake.rs). The in-memory endpoint is modelled: its two queues, and whether the
  peer is still there; the awaits a full queue causes do not change what is sent. The socket
  transport is I/O around a third-party codec.
\<close>

section \<open>Endpoints\<close>

datatype ipc_error =
    IpcIo
  | IpcCodec
  | SchemaMismatch schema_version schema_version
  | WorldIdMismatch world_id world_id
  | FrameTooLarge "nat option" nat
  | UnexpectedFrame
  | PeerClosed

text \<open>\<open>ep_out\<close> holds what was sent and not yet received by the peer.\<close>

record ('s, 'r) endpoint =
  ep_out :: "'s list"
  ep_in :: "'r list"
  ep_peer :: bool

definition in_memory_pair :: "(gateway_frame, world_frame) endpoint \<times> (world_frame, gateway_frame) endpoint" where
  "in_memory_pair =
     (\<lparr>ep_out = [], ep_in = [], ep_peer = True\<rparr>, \<lparr>ep_out = [], ep_in = [], ep_peer = True\<rparr>)"

definition ep_send :: "('s, 'r) endpoint \<Rightarrow> 's \<Rightarrow> (ipc_error + unit) \<times> ('s, 'r) endpoint" where
  "ep_send ep f = (if ep_peer ep then (Inr (), ep\<lparr>ep_out := ep_out ep @ [f]\<rparr>) else (Inl PeerClosed, ep))"

text \<open>\<open>None\<close> waits for a frame.\<close>

definition ep_recv :: "('s, 'r) endpoint \<Rightarrow> ((ipc_error + 'r option) \<times> ('s, 'r) endpoint) option" where
  "ep_recv ep =
     (case ep_in ep of
        f # fs \<Rightarrow> Some (Inr (Some f), ep\<lparr>ep_in := fs\<rparr>)
      | [] \<Rightarrow> if ep_peer ep then None else Some (Inr None, ep))"

section \<open>The two sides\<close>

definition check_schema_version :: "schema_version \<Rightarrow> ipc_error + unit" where
  "check_schema_version got = (if got = SCHEMA_VERSION then Inr () else Inl (SchemaMismatch SCHEMA_VERSION got))"

definition check_world_id :: "world_id \<Rightarrow> world_id \<Rightarrow> ipc_error + unit" where
  "check_world_id expected got = (if got = expected then Inr () else Inl (WorldIdMismatch expected got))"

text \<open>The announcement of the gateway, up to its await, and what it makes of the frame it awaits.\<close>

definition announce_send ::
  "world_id \<Rightarrow> session_id list \<Rightarrow> (gateway_frame, world_frame) endpoint
    \<Rightarrow> (ipc_error + unit) \<times> (gateway_frame, world_frame) endpoint" where
  "announce_send wid live ep =
     ep_send ep (FrameResume \<lparr>hs_world = wid, hs_version = SCHEMA_VERSION, hs_live = live\<rparr>)"

fun announce_answer :: "world_id \<Rightarrow> world_frame option \<Rightarrow> ipc_error + unit" where
  "announce_answer wid (Some (FrameResumeAck ack)) =
     bindE (check_schema_version (ack_version ack)) (\<lambda>_. check_world_id wid (ack_world ack))"
| "announce_answer wid (Some _) = Inl UnexpectedFrame"
| "announce_answer wid None = Inl PeerClosed"

definition announce_await ::
  "world_id \<Rightarrow> (gateway_frame, world_frame) endpoint
    \<Rightarrow> ((ipc_error + unit) \<times> (gateway_frame, world_frame) endpoint) option" where
  "announce_await wid ep =
     map_option (\<lambda>(r, ep1). (bindE r (announce_answer wid), ep1)) (ep_recv ep)"

fun accept_frame ::
  "world_id \<Rightarrow> gateway_frame option \<Rightarrow> (world_frame, gateway_frame) endpoint
    \<Rightarrow> (ipc_error + session_id list) \<times> (world_frame, gateway_frame) endpoint" where
  "accept_frame wid (Some (FrameResume hs)) ep =
     (case bindE (check_schema_version (hs_version hs)) (\<lambda>_. check_world_id wid (hs_world hs)) of
        Inl e \<Rightarrow> (Inl e, ep)
      | Inr _ \<Rightarrow>
          (case ep_send ep (FrameResumeAck \<lparr>ack_world = wid, ack_version = SCHEMA_VERSION\<rparr>) of
             (r, ep1) \<Rightarrow> (bindE r (\<lambda>_. Inr (hs_live hs)), ep1)))"
| "accept_frame wid (Some _) ep = (Inl UnexpectedFrame, ep)"
| "accept_frame wid None ep = (Inl PeerClosed, ep)"

definition accept_resume ::
  "world_id \<Rightarrow> (world_frame, gateway_frame) endpoint
    \<Rightarrow> ((ipc_error + session_id list) \<times> (world_frame, gateway_frame) endpoint) option" where
  "accept_resume wid ep =
     map_option (\<lambda>(r, ep1). case r of Inl e \<Rightarrow> (Inl e, ep1) | Inr f \<Rightarrow> accept_frame wid f ep1) (ep_recv ep)"

section \<open>Both sides together\<close>

text \<open>
  A gateway for one world id and a world with another over one in-memory pair: the gateway sends,
  the world answers, or fails and drops its end, and the gateway awaits.
\<close>

definition delivered :: "('a, 'b) endpoint \<Rightarrow> ('b, 'a) endpoint \<Rightarrow> bool \<Rightarrow> ('b, 'a) endpoint" where
  "delivered from to open = to\<lparr>ep_in := ep_in to @ ep_out from, ep_peer := open\<rparr>"

definition handshake ::
  "world_id \<Rightarrow> session_id list \<Rightarrow> world_id \<Rightarrow> ((ipc_error + unit) \<times> (ipc_error + session_id list)) option" where
  "handshake gw live wid =
     (case in_memory_pair of (g0, w0) \<Rightarrow>
     (case announce_send gw live g0 of (_, g1) \<Rightarrow>
     (case accept_resume wid (delivered g1 w0 True) of
        None \<Rightarrow> None
      | Some (wr, w1) \<Rightarrow>
          map_option (\<lambda>(gr, _). (gr, wr)) (announce_await gw (delivered w1 g1 (is_ok wr))))))"

lemma handshake_result:
  "handshake gw live wid =
     Some (if gw = wid then (Inr (), Inr live) else (Inl PeerClosed, Inl (WorldIdMismatch wid gw)))"
  by (simp add: handshake_def in_memory_pair_def announce_send_def ep_send_def accept_resume_def ep_recv_def
      delivered_def check_schema_version_def check_world_id_def announce_await_def)

text \<open>
  The handshake never hangs and never half-succeeds: both sides end, they succeed together,
  exactly when they agree on the world, and then the world has learned the very sessions the gateway
  announced; otherwise the world reports both ids and the gateway a closed peer.
\<close>

theorem handshake_agrees:
  "handshake gw live wid =
     Some (if gw = wid then (Inr (), Inr live) else (Inl PeerClosed, Inl (WorldIdMismatch wid gw)))"
  by (rule handshake_result)

text \<open>A world accepts no frame before an announcement of this build and of its own world.\<close>

theorem accept_resume_guards:
  assumes "accept_resume wid ep = Some (Inr live, ep')"
  shows "\<exists>hs rest. ep_in ep = FrameResume hs # rest \<and> hs_version hs = SCHEMA_VERSION \<and> hs_world hs = wid \<and>
    hs_live hs = live \<and> ep_in ep' = rest \<and>
    ep_out ep' = ep_out ep @ [FrameResumeAck \<lparr>ack_world = wid, ack_version = SCHEMA_VERSION\<rparr>]"
proof -
  obtain f fs where "ep_in ep = f # fs" using assms by (cases "ep_in ep") (auto simp: accept_resume_def ep_recv_def split: if_splits)
  with assms show ?thesis
    by (cases f) (auto simp: accept_resume_def ep_recv_def ep_send_def check_schema_version_def check_world_id_def
        split: if_splits)
qed

lemma accept_resume_guards_witness:
  "\<exists>ep'. accept_resume (WorldId 7)
       \<lparr>ep_out = [], ep_in = [FrameResume \<lparr>hs_world = WorldId 7, hs_version = SCHEMA_VERSION, hs_live = [SessionId 3]\<rparr>],
         ep_peer = True\<rparr> = Some (Inr [SessionId 3], ep') \<and>
     ep_out ep' = [FrameResumeAck \<lparr>ack_world = WorldId 7, ack_version = SCHEMA_VERSION\<rparr>]"
proof -
  let ?ep = "\<lparr>ep_out = [], ep_in = [FrameResume \<lparr>hs_world = WorldId 7, hs_version = SCHEMA_VERSION, hs_live = [SessionId 3]\<rparr>],
         ep_peer = True\<rparr> :: (world_frame, gateway_frame) endpoint"
  obtain ep' where "accept_resume (WorldId 7) ?ep = Some (Inr [SessionId 3], ep')"
    by (simp add: accept_resume_def ep_recv_def ep_send_def check_schema_version_def check_world_id_def)
  with accept_resume_guards [OF this] show ?thesis by auto
qed

end
