(* ===== verification/Render.thy ===== *)
theory Render
  imports Telnet Styled_Text
begin

text \<open>
  Color tiers and the renderer of styled text (crates/mud-net: tier.rs, convert.rs, render.rs).
  The \<open>anstyle\<close> crates are parameters: the downsampling of a color to the 256-color and the
  16-color palette, and the escape strings of a style and of its reset.
\<close>

section \<open>Tiers\<close>

datatype tier = Mono | Ansi16 | Xterm256 | Truecolor

definition DEFAULT_TENANT_TIER :: tier where
  "DEFAULT_TENANT_TIER = Ansi16"

definition resolve_tier :: "bool \<Rightarrow> tier \<Rightarrow> tier" where
  "resolve_tier no_color tenant_default = (if no_color then Mono else tenant_default)"

section \<open>Terminal styles\<close>

text \<open>
  The values of the \<open>anstyle\<close> crate that the source builds: a color is 24-bit, an index of the
  256-color palette or one of the 16 standard colors; effects are a set of flags.
\<close>

datatype ansi_color = ColorRgb color | ColorAnsi256 u8 | ColorAnsi u8

datatype ansi_effect = EffBold | EffItalic | EffUnderline | EffBlink | EffInvert

record ansi_style =
  ansi_fg :: "ansi_color option"
  ansi_bg :: "ansi_color option"
  ansi_effects :: "ansi_effect set"

definition ansi_plain :: ansi_style where
  "ansi_plain = \<lparr>ansi_fg = None, ansi_bg = None, ansi_effects = {}\<rparr>"

record ansi_lib =
  rgb_to_xterm :: "color \<Rightarrow> u8"
  rgb_to_ansi :: "color \<Rightarrow> u8"
  style_render :: "ansi_style \<Rightarrow> ustring"
  style_reset :: "ansi_style \<Rightarrow> ustring"

fun color_for_tier :: "ansi_lib \<Rightarrow> color \<Rightarrow> tier \<Rightarrow> ansi_color option" where
  "color_for_tier lib c Mono = None"
| "color_for_tier lib c Truecolor = Some (ColorRgb c)"
| "color_for_tier lib c Xterm256 = Some (ColorAnsi256 (rgb_to_xterm lib c))"
| "color_for_tier lib c Ansi16 = Some (ColorAnsi (rgb_to_ansi lib c))"

definition effect_mapping :: "(attributes \<times> ansi_effect) list" where
  "effect_mapping = [(attr_BOLD, EffBold), (attr_ITALIC, EffItalic), (attr_UNDERLINE, EffUnderline),
     (attr_BLINK, EffBlink), (attr_REVERSE, EffInvert)]"

definition to_effects :: "attributes \<Rightarrow> ansi_effect set" where
  "to_effects attrs =
     foldl (\<lambda>effects (domain, eff). if attr_contains attrs domain then insert eff effects else effects)
       {} effect_mapping"

definition to_anstyle :: "ansi_lib \<Rightarrow> style \<Rightarrow> tier \<Rightarrow> ansi_style" where
  "to_anstyle lib s t = \<lparr>
     ansi_fg = Option.bind (style_fg s) (\<lambda>c. color_for_tier lib c t),
     ansi_bg = Option.bind (style_bg s) (\<lambda>c. color_for_tier lib c t),
     ansi_effects = to_effects (style_attrs s)\<rparr>"

section \<open>Rendering\<close>

text \<open>\<open>resolve\<close> of render.rs; the warning about an unknown role is telemetry.\<close>

fun resolve_style :: "palette \<Rightarrow> span_style \<Rightarrow> style" where
  "resolve_style p Plain = style_new"
| "resolve_style p (Direct s) = s"
| "resolve_style p (Role r) = (case resolve_role p r of Some s \<Rightarrow> s | None \<Rightarrow> style_new)"

definition render_span :: "ansi_lib \<Rightarrow> palette \<Rightarrow> tier \<Rightarrow> span \<Rightarrow> ustring" where
  "render_span lib p t sp =
     (let st = to_anstyle lib (resolve_style p (span_style sp)) t
      in style_render lib st @ span_text sp @ style_reset lib st)"

definition render_text :: "ansi_lib \<Rightarrow> palette \<Rightarrow> tier \<Rightarrow> styled_text \<Rightarrow> ustring" where
  "render_text lib p t text = concat (map (render_span lib p t) (spans text))"

section \<open>A terminal\<close>

text \<open>
  What a terminal shows: each character with the select-graphic-rendition parameters in force,
  those received since the last reset, and the parameters left in force at the end. Escape
  sequences of any other kind show their characters here, so none may occur in the specification.
\<close>

definition sgr :: "ustring \<Rightarrow> ustring" where
  "sgr body = ESC # ch CHR ''['' # body @ [ch CHR ''m'']"

definition sgr_body :: "ustring \<Rightarrow> bool" where
  "sgr_body b \<longleftrightarrow> (\<forall>c \<in> set b. is_ascii_digit c \<or> c = ch CHR '';'')"

function display :: "ustring list \<Rightarrow> ustring \<Rightarrow> (rchar \<times> ustring list) list \<times> ustring list" where
  "display active [] = ([], active)"
| "display active (c # s) =
     (if c = ESC \<and> s \<noteq> [] \<and> hd s = ch CHR ''[''
      then (let body = takeWhile (\<lambda>x. x \<noteq> ch CHR ''m'') (tl s)
            in display (if body = lit ''0'' then [] else active @ [body]) (drop (Suc (length body)) (tl s)))
      else (case display active s of (cells, left) \<Rightarrow> ((c, active) # cells, left)))"
  by pat_completeness auto
termination
  by (relation "measure (\<lambda>(a, s). length s)") (auto simp: neq_Nil_conv)

declare display.simps [simp del]

text \<open>
  The documented behaviour of the escape strings: a style renders to a sequence of
  select-graphic-rendition codes, none of them the reset, and its reset is the reset code, or
  nothing when there is nothing to reset.
\<close>

definition ansi_ok :: "ansi_lib \<Rightarrow> (ansi_style \<Rightarrow> ustring list) \<Rightarrow> bool" where
  "ansi_ok lib codes \<longleftrightarrow>
     (\<forall>st. style_render lib st = concat (map sgr (codes st)) \<and>
        (\<forall>b \<in> set (codes st). sgr_body b \<and> b \<noteq> lit ''0'') \<and>
        style_reset lib st = (if codes st = [] then [] else sgr (lit ''0'')))"

lemma body_no_m: "sgr_body b \<Longrightarrow> takeWhile (\<lambda>x. x \<noteq> ch CHR ''m'') (b @ ch CHR ''m'' # s) = b"
  by (subst takeWhile_append2) (auto simp: sgr_body_def is_ascii_digit_def)

lemma display_sgr:
  "sgr_body b \<Longrightarrow> display active (sgr b @ s) = display (if b = lit ''0'' then [] else active @ [b]) s"
  using body_no_m [of b s] by (simp add: sgr_def display.simps(2) [of _ ESC] Let_def)

lemma display_plain:
  "ESC \<notin> set t \<Longrightarrow> display active (t @ s) =
     (case display active s of (cells, left) \<Rightarrow> (map (\<lambda>c. (c, active)) t @ cells, left))"
  by (induction t) (auto simp: display.simps split: prod.splits)

lemma display_codes:
  "\<forall>b \<in> set bs. sgr_body b \<and> b \<noteq> lit ''0'' \<Longrightarrow> display active (concat (map sgr bs) @ s) = display (active @ bs) s"
proof (induction bs arbitrary: active)
  case (Cons b bs)
  then show ?case using display_sgr [of b active "concat (map sgr bs) @ s"] by simp
qed simp

lemma display_span:
  assumes "ansi_ok lib codes" and "ESC \<notin> set (span_text sp)"
  shows "display [] (render_span lib p t sp @ s) =
    (case display [] s of (cells, left) \<Rightarrow>
       (map (\<lambda>c. (c, codes (to_anstyle lib (resolve_style p (span_style sp)) t))) (span_text sp) @ cells, left))"
proof -
  define st where "st = to_anstyle lib (resolve_style p (span_style sp)) t"
  have ok: "style_render lib st = concat (map sgr (codes st))" "\<forall>b \<in> set (codes st). sgr_body b \<and> b \<noteq> lit ''0''"
      "style_reset lib st = (if codes st = [] then [] else sgr (lit ''0''))"
    using assms(1) by (simp_all add: ansi_ok_def)
  have zero: "sgr_body (lit ''0'')" by (simp add: sgr_body_def lit_def is_ascii_digit_def)
  have "display (codes st) (style_reset lib st @ s) = display [] s"
    using ok(3) display_sgr [OF zero, of "codes st" s] by simp
  then show ?thesis
    using display_codes [OF ok(2), of "[]"] display_plain [OF assms(2), of "codes st" "style_reset lib st @ s"]
    by (simp add: render_span_def Let_def ok(1) st_def [symmetric])
qed

lemma display_spans:
  assumes "ansi_ok lib codes" and "\<forall>sp \<in> set sps. ESC \<notin> set (span_text sp)"
  shows "display [] (concat (map (render_span lib p t) sps) @ s) =
    (case display [] s of (cells, left) \<Rightarrow>
      (concat (map (\<lambda>sp. map (\<lambda>c. (c, codes (to_anstyle lib (resolve_style p (span_style sp)) t))) (span_text sp)) sps)
        @ cells, left))"
  using assms(2)
proof (induction sps)
  case Nil
  then show ?case by (simp split: prod.splits)
next
  case (Cons sp sps)
  then show ?case using display_span [OF assms(1), of sp] by (simp split: prod.splits)
qed

text \<open>
  Styles never bleed. Whatever the palette, the tier and the spans, as long as no span's text
  brings an escape character of its own, a terminal shows exactly the text of the spans, each
  character under the codes of its own span's style for that tier and nothing else, and is left with
  nothing in force.
\<close>

theorem styles_never_bleed:
  assumes "ansi_ok lib codes" and "\<forall>sp \<in> set (spans text). ESC \<notin> set (span_text sp)"
  shows "display [] (render_text lib p t text) =
    (concat (map (\<lambda>sp. map (\<lambda>c. (c, codes (to_anstyle lib (resolve_style p (span_style sp)) t))) (span_text sp))
       (spans text)), [])"
  using display_spans [OF assms, of p t "[]"] by (simp add: render_text_def display.simps)

text \<open>An instance of the escape strings: bold, inverse and the standard colors by their number.\<close>

definition sample_codes :: "ansi_style \<Rightarrow> ustring list" where
  "sample_codes st =
     (if EffBold \<in> ansi_effects st then [lit ''1''] else []) @
     (if EffInvert \<in> ansi_effects st then [lit ''7''] else []) @
     (case ansi_fg st of Some (ColorAnsi w) \<Rightarrow> [lit ''3'' @ [48 + unat w mod 8]] | Some _ \<Rightarrow> [lit ''39''] | None \<Rightarrow> [])"

definition sample_lib :: ansi_lib where
  "sample_lib = \<lparr>rgb_to_xterm = (\<lambda>_. 7), rgb_to_ansi = (\<lambda>_. 1),
     style_render = (\<lambda>st. concat (map sgr (sample_codes st))),
     style_reset = (\<lambda>st. if sample_codes st = [] then [] else sgr (lit ''0''))\<rparr>"

lemma sample_lib_ok: "ansi_ok sample_lib sample_codes"
  by (auto simp: ansi_ok_def sample_lib_def sample_codes_def sgr_body_def lit_def is_ascii_digit_def
      split: option.split_asm ansi_color.split_asm)

lemma styles_never_bleed_witness:
  "display [] (render_text sample_lib palette_baseline Ansi16
     (styled_plain (styled_role styled_new (lit ''x'') role_ERROR) (lit ''y''))) =
     ([(120, [lit ''31'']), (121, [])], [])"
proof -
  have "resolve_role palette_baseline role_ERROR = Some (with_fg style_new (rgb 0xff 0x55 0x55))"
    by (simp add: resolve_role_def palette_baseline_def baseline_roles_def)
  moreover have "to_effects attr_NONE = {}"
    by (simp add: to_effects_def effect_mapping_def attr_contains_def attr_BOLD_def
        attr_ITALIC_def attr_UNDERLINE_def attr_BLINK_def attr_REVERSE_def attr_NONE_def)
  ultimately show ?thesis
    using styles_never_bleed [OF sample_lib_ok, of
        "styled_plain (styled_role styled_new (lit ''x'') role_ERROR) (lit ''y'')" palette_baseline Ansi16]
    by (simp add: styled_plain_def styled_role_def span_plain_def span_role_def styled_new_def push_span_def
        to_anstyle_def sample_codes_def sample_lib_def lit_def ESC_def)
qed

end
