(* ===== verification/Rate_Limit.thy ===== *)
theory Rate_Limit
  imports Complex_Main Prelude
begin

text \<open>
  The per-session rate limiter (crates/mud-net/src/ratelimit.rs). Its \<open>f64\<close> arithmetic is
  taken to be exact: levels, rates and times in seconds are real numbers. With the default rate the
  rounding moves the moment of a single command by far less than a millisecond.
\<close>

datatype decision = Forward | DropCommand

datatype sustained_rate = SustainedRate (rate_get: u32)
datatype burst = Burst (burst_get: u32)

definition DEFAULT_RATE :: sustained_rate where "DEFAULT_RATE = SustainedRate 10"
definition DEFAULT_BURST :: burst where "DEFAULT_BURST = Burst 20"

record rate_limiter =
  drain_per_sec :: real
  rl_capacity :: real
  rl_level :: real
  rl_last :: real

definition limiter_new :: "sustained_rate \<Rightarrow> burst \<Rightarrow> real \<Rightarrow> rate_limiter" where
  "limiter_new rate b now = \<lparr>drain_per_sec = real (unat (rate_get rate)), rl_capacity = real (unat (burst_get b)),
     rl_level = 0, rl_last = now\<rparr>"

definition limiter_check :: "rate_limiter \<Rightarrow> real \<Rightarrow> decision \<times> rate_limiter" where
  "limiter_check l now =
     (let elapsed = max 0 (now - rl_last l);
          level = max (rl_level l - elapsed * drain_per_sec l) 0;
          l1 = l\<lparr>rl_last := max (rl_last l) now\<rparr>
      in if level + 1 \<le> rl_capacity l then (Forward, l1\<lparr>rl_level := level + 1\<rparr>)
         else (DropCommand, l1\<lparr>rl_level := level\<rparr>))"

text \<open>The decisions for commands that arrive at the given times.\<close>

fun limiter_run :: "rate_limiter \<Rightarrow> real list \<Rightarrow> decision list \<times> rate_limiter" where
  "limiter_run l [] = ([], l)"
| "limiter_run l (t # ts) =
     (case limiter_check l t of (d, l1) \<Rightarrow> (case limiter_run l1 ts of (ds, l2) \<Rightarrow> (d # ds, l2)))"

definition limiter_ok :: "rate_limiter \<Rightarrow> bool" where
  "limiter_ok l \<longleftrightarrow> 0 \<le> drain_per_sec l \<and> 0 \<le> rl_level l \<and> rl_level l \<le> rl_capacity l"

lemma limiter_check_ok:
  assumes "limiter_ok l" and "limiter_check l t = (d, l')"
  shows "limiter_ok l' \<and> drain_per_sec l' = drain_per_sec l \<and> rl_capacity l' = rl_capacity l \<and>
    rl_last l' = max (rl_last l) t \<and>
    (if d = Forward then 1 else 0) \<le> rl_level l' - rl_level l + drain_per_sec l * (rl_last l' - rl_last l)"
proof -
  let ?e = "max 0 (t - rl_last l)"
  have e: "0 \<le> ?e" "?e = max (rl_last l) t - rl_last l" by auto
  then have "rl_level l - ?e * drain_per_sec l \<le> rl_capacity l"
    using assms(1) by (smt (verit) limiter_ok_def mult_nonneg_nonneg)
  then show ?thesis
    using assms e by (auto simp: limiter_check_def limiter_ok_def Let_def mult.commute [of "drain_per_sec l"] split: if_splits)
qed

lemma limiter_run_bound:
  assumes "limiter_ok l" and "limiter_run l ts = (ds, l')"
  shows "limiter_ok l' \<and> drain_per_sec l' = drain_per_sec l \<and> rl_capacity l' = rl_capacity l \<and>
    rl_last l' = foldl max (rl_last l) ts \<and>
    real (length (filter (\<lambda>d. d = Forward) ds)) \<le>
      rl_level l' - rl_level l + drain_per_sec l * (rl_last l' - rl_last l)"
  using assms
proof (induction ts arbitrary: l ds)
  case (Cons t ts)
  obtain d l1 where c: "limiter_check l t = (d, l1)" by fastforce
  obtain ds' where r: "limiter_run l1 ts = (ds', l')" "ds = d # ds'"
    using Cons.prems(2) c by (auto split: prod.splits)
  note one = limiter_check_ok [OF Cons.prems(1) c]
  from Cons.IH [OF _ r(1)] one r(2) show ?case
    by (auto simp: algebra_simps)
qed (simp add: limiter_ok_def)



end
