(* ===== verification/Gateway.thy ===== *)
theory Gateway
  imports Handshake Render Rate_Limit
begin

text \<open>
  The gateway (crates/mud-gateway): the minting of session ids (session.rs), the accept loop
  (lib.rs), the router that owns the channel to the world (router.rs) and one task per client
  connection (connection.rs). A task is a function of the events its \<open>select!\<close> takes, in
  any order. Sockets, the clock and the failures of sends and writes come in from outside.
\<close>

datatype gateway_error = AcceptFailed | GatewayIpc ipc_error | SessionIdOverflow | RouterTask

section \<open>Session ids\<close>

text \<open>The atomic counter of a minter; \<open>fetch_add\<close> wraps.\<close>

definition minter_new :: u64 where
  "minter_new = 1"

definition minter_next :: "u64 \<Rightarrow> (gateway_error + session_id) \<times> u64" where
  "minter_next raw = (if raw = 0 then Inl SessionIdOverflow else Inr (SessionId raw), raw + 1)"

text \<open>
  The accept loop, after the handshake: it ends with the router task or with a failed accept or
  mint. The result lists the sessions whose connection task was spawned; \<open>None\<close> is still running.
\<close>

datatype serve_event = RouterFinished "gateway_error + unit" | AcceptedClient bool

fun serve_loop :: "u64 \<Rightarrow> serve_event list \<Rightarrow> session_id list \<times> (gateway_error + unit) option" where
  "serve_loop m [] = ([], None)"
| "serve_loop m (RouterFinished r # evs) = ([], Some r)"
| "serve_loop m (AcceptedClient False # evs) = ([], Some (Inl AcceptFailed))"
| "serve_loop m (AcceptedClient True # evs) =
     (case minter_next m of
        (Inl e, _) \<Rightarrow> ([], Some (Inl e))
      | (Inr sid, m1) \<Rightarrow> (case serve_loop m1 evs of (sids, r) \<Rightarrow> (sid # sids, r)))"

section \<open>The router\<close>

datatype to_connection = ToOutput output_text output_kind | ToEcho echo_mode | ToClose

text \<open>A channel to a connection task is known by a number; \<open>tx\<close> of a registration is that number.\<close>

datatype to_router = RegisterSession session_id nat | ForwardFrame gateway_frame | DeregisterSession session_id

definition OUTPUT_CAPACITY :: nat where "OUTPUT_CAPACITY = 64"

record channel =
  ch_queue :: "to_connection list"
  ch_open :: bool

definition try_send :: "channel \<Rightarrow> to_connection \<Rightarrow> bool \<times> channel" where
  "try_send c payload =
     (if \<not> ch_open c \<or> OUTPUT_CAPACITY \<le> length (ch_queue c) then (False, c)
      else (True, c\<lparr>ch_queue := ch_queue c @ [payload]\<rparr>))"

record router =
  rg_endpoint :: "(gateway_frame, world_frame) endpoint"
  rg_registry :: "session_id \<rightharpoonup> nat"
  rg_chans :: "nat \<Rightarrow> channel"

definition route :: "router \<Rightarrow> session_id \<Rightarrow> to_connection \<Rightarrow> router" where
  "route r sid payload =
     (case rg_registry r sid of
        None \<Rightarrow> r
      | Some c \<Rightarrow> r\<lparr>rg_chans := (rg_chans r)(c := snd (try_send (rg_chans r c) payload))\<rparr>)"

datatype router_event = WorldReady "ipc_error + world_frame option" | CommandReady "to_router option"

fun router_step :: "router \<Rightarrow> router_event \<Rightarrow> router \<times> (gateway_error + unit) option" where
  "router_step r (WorldReady (Inl e)) = (r, Some (Inl (GatewayIpc e)))"
| "router_step r (WorldReady (Inr None)) = (r, Some (Inr ()))"
| "router_step r (WorldReady (Inr (Some (FrameOutput out)))) =
     (route r (out_session out) (ToOutput (out_text out) (out_kind out)), None)"
| "router_step r (WorldReady (Inr (Some (FrameClose sid)))) = (route r sid ToClose, None)"
| "router_step r (WorldReady (Inr (Some (FrameEcho echo)))) =
     (route r (echo_session echo) (ToEcho (echo_to echo)), None)"
| "router_step r (WorldReady (Inr (Some (FrameResumeAck _)))) = (r, None)"
| "router_step r (CommandReady None) = (r, Some (Inr ()))"
| "router_step r (CommandReady (Some (RegisterSession sid c))) = (r\<lparr>rg_registry := (rg_registry r)(sid \<mapsto> c)\<rparr>, None)"
| "router_step r (CommandReady (Some (ForwardFrame f))) =
     (case ep_send (rg_endpoint r) f of
        (Inl e, _) \<Rightarrow> (r, Some (Inl (GatewayIpc e)))
      | (Inr _, ep) \<Rightarrow> (r\<lparr>rg_endpoint := ep\<rparr>, None))"
| "router_step r (CommandReady (Some (DeregisterSession sid))) = (r\<lparr>rg_registry := (rg_registry r)(sid := None)\<rparr>, None)"

section \<open>A connection\<close>

datatype exit_cause = ClientGone | WorldClosed

text \<open>
  \<open>cn_send_fails\<close> and \<open>cn_write_fails\<close> schedule the failures of the sends to the router and of the
  writes to the socket, by their number in the order the task makes them; a failed write is taken
  to have written nothing.
\<close>

record 'l conn =
  cn_machine :: telnet_machine
  cn_limiter :: 'l
  cn_sent :: "to_router list"
  cn_written :: "u8 list"
  cn_send_fails :: "nat \<Rightarrow> bool"
  cn_write_fails :: "nat \<Rightarrow> bool"
  cn_clock :: nat

text \<open>
  What a connection is given: its session, palette and tier, the rendering and transliteration
  libraries, and its rate limiter, which reads the clock at each check.
\<close>

record 'l conn_env =
  ce_session :: session_id
  ce_palette :: palette
  ce_tier :: tier
  ce_lib :: ansi_lib
  ce_deunicode :: "ustring \<Rightarrow> ustring"
  ce_check :: "'l \<Rightarrow> decision \<times> 'l"

definition conn_send :: "'l conn \<Rightarrow> to_router \<Rightarrow> bool \<times> 'l conn" where
  "conn_send c msg =
     (if cn_send_fails c (cn_clock c) then (False, c\<lparr>cn_clock := Suc (cn_clock c)\<rparr>)
      else (True, c\<lparr>cn_clock := Suc (cn_clock c), cn_sent := cn_sent c @ [msg]\<rparr>))"

definition conn_write :: "'l conn \<Rightarrow> u8 list \<Rightarrow> bool \<times> 'l conn" where
  "conn_write c bytes =
     (if cn_write_fails c (cn_clock c) then (False, c\<lparr>cn_clock := Suc (cn_clock c)\<rparr>)
      else (True, c\<lparr>cn_clock := Suc (cn_clock c), cn_written := cn_written c @ bytes\<rparr>))"

fun handle_event :: "'l conn_env \<Rightarrow> 'l conn \<Rightarrow> telnet_event \<Rightarrow> bool \<times> 'l conn" where
  "handle_event env c (Line line) =
     (case ce_check env (cn_limiter c) of
        (Forward, l) \<Rightarrow>
          conn_send (c\<lparr>cn_limiter := l\<rparr>)
            (ForwardFrame (FrameInput \<lparr>in_session = ce_session env, in_line = InputLine line\<rparr>))
      | (DropCommand, l) \<Rightarrow> (True, c\<lparr>cn_limiter := l\<rparr>))"
| "handle_event env c (WindowSize _ _) = (True, c)"
| "handle_event env c (TerminalType _) = (True, c)"

fun handle_events :: "'l conn_env \<Rightarrow> 'l conn \<Rightarrow> telnet_event list \<Rightarrow> bool \<times> 'l conn" where
  "handle_events env c [] = (True, c)"
| "handle_events env c (e # es) =
     (case handle_event env c e of (False, c1) \<Rightarrow> (False, c1) | (True, c1) \<Rightarrow> handle_events env c1 es)"

text \<open>Flushing the queued negotiation replies, if there are any.\<close>

definition flush_replies :: "'l conn \<Rightarrow> 'l conn \<times> exit_cause option" where
  "flush_replies c =
     (case take_output (cn_machine c) of
        (m, replies) \<Rightarrow>
          (let c1 = c\<lparr>cn_machine := m\<rparr>
           in if replies = [] then (c1, None)
              else (case conn_write c1 replies of (ok, c2) \<Rightarrow> (c2, if ok then None else Some ClientGone))))"

definition output_block :: "'l conn_env \<Rightarrow> telnet_machine \<Rightarrow> output_text \<Rightarrow> output_kind \<Rightarrow> u8 list" where
  "output_block env m text kind =
     [13, 10] @
     encode_output (ce_deunicode env) m (render_text (ce_lib env) (ce_palette env) (ce_tier env) (output_styled text)) @
     (case kind of KindLine \<Rightarrow> [13, 10] | KindPrompt \<Rightarrow> []) @
     prompt_frame m"

fun local_echo_of :: "echo_mode \<Rightarrow> local_echo" where
  "local_echo_of ModeEnabled = EchoEnabled"
| "local_echo_of ModeSuppressed = EchoSuppressed"

datatype conn_event = ReadBytes "u8 list" | ReadFailed | FromRouter "to_connection option"

text \<open>One turn of the loop; the read buffer holds 1024 bytes.\<close>

fun connection_step :: "'l conn_env \<Rightarrow> 'l conn \<Rightarrow> conn_event \<Rightarrow> 'l conn \<times> exit_cause option" where
  "connection_step env c (ReadBytes bytes) =
     (if bytes = [] \<or> 1024 < length bytes then (c, Some ClientGone)
      else
        (case receive (cn_machine c) bytes of
           (m, events) \<Rightarrow>
             (case handle_events env (c\<lparr>cn_machine := m\<rparr>) events of
                (False, c1) \<Rightarrow> (c1, Some WorldClosed)
              | (True, c1) \<Rightarrow> flush_replies c1)))"
| "connection_step env c ReadFailed = (c, Some ClientGone)"
| "connection_step env c (FromRouter (Some (ToOutput text kind))) =
     (case conn_write c (output_block env (cn_machine c) text kind) of
        (ok, c1) \<Rightarrow> (c1, if ok then None else Some ClientGone))"
| "connection_step env c (FromRouter (Some (ToEcho mode))) =
     flush_replies (c\<lparr>cn_machine := set_echo (cn_machine c) (local_echo_of mode)\<rparr>)"
| "connection_step env c (FromRouter (Some ToClose)) = (c, Some WorldClosed)"
| "connection_step env c (FromRouter None) = (c, Some WorldClosed)"

fun connection_loop :: "'l conn_env \<Rightarrow> 'l conn \<Rightarrow> conn_event list \<Rightarrow> 'l conn \<times> exit_cause option" where
  "connection_loop env c [] = (c, None)"
| "connection_loop env c (e # es) =
     (case connection_step env c e of
        (c1, Some cause) \<Rightarrow> (c1, Some cause)
      | (c1, None) \<Rightarrow> connection_loop env c1 es)"

definition conn_new :: "'l \<Rightarrow> (nat \<Rightarrow> bool) \<Rightarrow> (nat \<Rightarrow> bool) \<Rightarrow> 'l conn" where
  "conn_new limiter sfails wfails = \<lparr>cn_machine = machine_new, cn_limiter = limiter, cn_sent = [], cn_written = [],
     cn_send_fails = sfails, cn_write_fails = wfails, cn_clock = 0\<rparr>"

text \<open>The goodbye of a task whose loop has ended.\<close>

definition farewell :: "'l conn_env \<Rightarrow> 'l conn \<Rightarrow> exit_cause \<Rightarrow> 'l conn" where
  "farewell env c cause =
     (let c1 = (case cause of
                  ClientGone \<Rightarrow> snd (conn_send c (ForwardFrame (FrameDisconnect (ce_session env))))
                | WorldClosed \<Rightarrow> c)
      in snd (conn_send c1 (DeregisterSession (ce_session env))))"

definition run_connection ::
  "'l conn_env \<Rightarrow> nat \<Rightarrow> 'l \<Rightarrow> (nat \<Rightarrow> bool) \<Rightarrow> (nat \<Rightarrow> bool) \<Rightarrow> conn_event list
    \<Rightarrow> 'l conn \<times> exit_cause option" where
  "run_connection env tx limiter sfails wfails events =
     (case conn_send (conn_new limiter sfails wfails) (RegisterSession (ce_session env) tx) of
        (False, c) \<Rightarrow> (c, None)
      | (True, c) \<Rightarrow>
     (case conn_send c (ForwardFrame (FrameConnect (ce_session env))) of
        (False, c1) \<Rightarrow> (c1, None)
      | (True, c1) \<Rightarrow>
     (case take_output (cn_machine c1) of
        (m, offers) \<Rightarrow>
     (case (case conn_write (c1\<lparr>cn_machine := m\<rparr>) offers of
              (False, c2) \<Rightarrow> (c2, Some ClientGone)
            | (True, c2) \<Rightarrow> connection_loop env c2 events) of
        (c3, None) \<Rightarrow> (c3, None)
      | (c3, Some cause) \<Rightarrow> (farewell env c3 cause, Some cause)))))"

end
