(* ===== verification/Gateway_Facts.thy ===== *)
theory Gateway_Facts
  imports Gateway
begin

text \<open>
  What the gateway guarantees: unique session ids, the discipline of the frames a connection sends
  to the world, the isolation of clients from each other, and what a client sees on the wire.
\<close>

section \<open>Session ids\<close>

text \<open>The minter counts: from \<open>m\<close> the ids are \<open>m, m + 1, ...\<close>, up to the end of the 64-bit numbers.\<close>

lemma u64_bound: "unat (m :: u64) < 2 ^ 64"
  using unsigned_less [of m] by simp

lemma u64_succ: "unat (m + 1 :: u64) = (if unat m + 1 = 2 ^ 64 then 0 else unat m + 1)"
proof (cases "unat m + 1 = 2 ^ 64")
  case True
  have "m + 1 = of_nat (unat m + 1)" by simp
  also have "\<dots> = 0" unfolding True by simp
  finally show ?thesis using True by simp
next
  case False
  then have "unat m + unat (1 :: u64) < 2 ^ LENGTH(64)" using u64_bound [of m] by simp
  then show ?thesis using False unat_add_lem [of m 1] by simp
qed

lemma serve_loop_wrapped: "serve_loop 0 evs = (sids, r) \<Longrightarrow> sids = []"
  by (cases "(0 :: u64, evs)" rule: serve_loop.cases) (auto simp: minter_next_def)

lemma serve_loop_ids:
  "serve_loop m evs = (sids, r) \<Longrightarrow> m \<noteq> 0 \<Longrightarrow>
    map (\<lambda>s. unat (sid_get s)) sids = [unat m..<unat m + length sids] \<and> unat m + length sids \<le> 2 ^ 64 \<and>
    (r = Some (Inl SessionIdOverflow) \<longrightarrow>
      unat m + length sids = 2 ^ 64 \<or> RouterFinished (Inl SessionIdOverflow) \<in> set evs)"
proof (induction m evs arbitrary: sids rule: serve_loop.induct)
  case (4 m evs sids)
  obtain rest where rest: "serve_loop (m + 1) evs = (rest, r)" "sids = SessionId m # rest"
    using 4(2,3) by (cases "serve_loop (m + 1) evs") (simp add: minter_next_def)
  have fresh: "(Inr (SessionId m), m + 1) = minter_next m" using 4(3) by (simp add: minter_next_def)
  show ?case
  proof (cases "unat m + 1 = 2 ^ 64")
    case True
    then have "m + 1 = 0" using u64_succ [of m] by (simp only: True if_True unat_eq_0)
    then have "rest = []" using rest(1) by (simp add: serve_loop_wrapped)
    then show ?thesis using True rest(2) by simp
  next
    case False
    then have s: "unat (m + 1) = unat m + 1" by (simp only: u64_succ if_False)
    then have "m + 1 \<noteq> 0" by (metis add_is_0 one_neq_zero unat_0)
    from 4(1) [OF fresh refl rest(1) this] s rest(2) show ?thesis
      by (simp add: upt_conv_Cons del: upt_Suc)
  qed
qed (use u64_bound in \<open>auto simp: less_imp_le\<close>)

text \<open>
  No two clients share a session id, and none gets the reserved zero: over any run of the accept
  loop, its ids are distinct and non-zero, and the counter's own overflow ends the loop only after all
  \<open>2 ^ 64 - 1\<close> ids have been given out.
\<close>

theorem session_ids_unique:
  assumes "serve_loop minter_new evs = (sids, r)" and "RouterFinished (Inl SessionIdOverflow) \<notin> set evs"
  shows "distinct sids \<and> SessionId 0 \<notin> set sids \<and> (r = Some (Inl SessionIdOverflow) \<longrightarrow> length sids = 2 ^ 64 - 1)"
proof -
  have s: "map (\<lambda>s. unat (sid_get s)) sids = [1..<1 + length sids]"
      "r = Some (Inl SessionIdOverflow) \<longrightarrow> 1 + length sids = 2 ^ 64"
    using serve_loop_ids [OF assms(1)] assms(2) by (simp_all add: minter_new_def)
  have "distinct sids" by (metis s(1) distinct_map distinct_upt)
  moreover have "SessionId 0 \<notin> set sids"
  proof
    assume "SessionId 0 \<in> set sids"
    then have "0 \<in> set (map (\<lambda>s. unat (sid_get s)) sids)" by force
    then show False unfolding s(1) by auto
  qed
  ultimately show ?thesis using s(2) by simp
qed

lemma session_ids_unique_witness:
  "serve_loop minter_new [AcceptedClient True, AcceptedClient True, AcceptedClient False] =
     ([SessionId 1, SessionId 2], Some (Inl AcceptFailed)) \<and> distinct [SessionId 1, SessionId 2]"
proof -
  have r: "serve_loop minter_new [AcceptedClient True, AcceptedClient True, AcceptedClient False] =
     ([SessionId 1, SessionId 2], Some (Inl AcceptFailed))"
    by (simp add: minter_new_def minter_next_def)
  from session_ids_unique [OF r] r show ?thesis by simp
qed

section \<open>Clients do not disturb each other\<close>

text \<open>A turn of the router, or a connection task that takes the next message or is gone.\<close>

datatype gateway_event = RouterTurn router_event | TakeNext nat | ConnectionGone nat

fun gateway_step :: "router \<Rightarrow> gateway_event \<Rightarrow> router" where
  "gateway_step r (RouterTurn ev) = fst (router_step r ev)"
| "gateway_step r (TakeNext c) =
     r\<lparr>rg_chans := (rg_chans r)(c := (rg_chans r c)\<lparr>ch_queue := tl (ch_queue (rg_chans r c))\<rparr>)\<rparr>"
| "gateway_step r (ConnectionGone c) =
     r\<lparr>rg_chans := (rg_chans r)(c := (rg_chans r c)\<lparr>ch_queue := [], ch_open := False\<rparr>)\<rparr>"

text \<open>The events that concern session \<open>s\<close>, whose connection listens on channel \<open>c\<close>.\<close>

fun concerns :: "session_id \<Rightarrow> nat \<Rightarrow> gateway_event \<Rightarrow> bool" where
  "concerns s c (RouterTurn (WorldReady (Inr (Some (FrameOutput out))))) \<longleftrightarrow> out_session out = s"
| "concerns s c (RouterTurn (WorldReady (Inr (Some (FrameClose t))))) \<longleftrightarrow> t = s"
| "concerns s c (RouterTurn (WorldReady (Inr (Some (FrameEcho echo))))) \<longleftrightarrow> echo_session echo = s"
| "concerns s c (RouterTurn (CommandReady (Some (RegisterSession t _)))) \<longleftrightarrow> t = s"
| "concerns s c (RouterTurn (CommandReady (Some (DeregisterSession t)))) \<longleftrightarrow> t = s"
| "concerns s c (RouterTurn _) \<longleftrightarrow> False"
| "concerns s c (TakeNext d) \<longleftrightarrow> d = c"
| "concerns s c (ConnectionGone d) \<longleftrightarrow> d = c"

text \<open>Two routers agree on a session when they send it to the same place and its channel is the same.\<close>

definition same_for :: "session_id \<Rightarrow> nat \<Rightarrow> router \<Rightarrow> router \<Rightarrow> bool" where
  "same_for s c r r' \<longleftrightarrow> rg_registry r s = rg_registry r' s \<and> rg_chans r c = rg_chans r' c \<and>
     (\<forall>t. t \<noteq> s \<longrightarrow> rg_registry r t \<noteq> Some c)"

lemma route_same:
  "same_for s c r r' \<Longrightarrow> same_for s c (route r s p) (route r' s p)"
  "same_for s c r r' \<Longrightarrow> t \<noteq> s \<Longrightarrow> same_for s c (route r t p) r'"
  by (auto simp: same_for_def route_def split: option.splits)

lemma gateway_step_same:
  assumes "same_for s c r r'" and "\<And>t. ev = RouterTurn (CommandReady (Some (RegisterSession t c))) \<Longrightarrow> t = s"
  shows "same_for s c (gateway_step r ev) (if concerns s c ev then gateway_step r' ev else r')"
  using assms
proof (induction r ev rule: gateway_step.induct)
  case (1 r ev)
  then show ?case
    by (induction r ev rule: router_step.induct)
      (auto simp: route_same, auto simp: same_for_def split: prod.splits sum.splits)
qed (auto simp: same_for_def)

lemma gateway_run_same:
  assumes "same_for s c r r'" and "\<forall>t. RouterTurn (CommandReady (Some (RegisterSession t c))) \<in> set evs \<longrightarrow> t = s"
  shows "same_for s c (foldl gateway_step r evs) (foldl gateway_step r' (filter (concerns s c) evs))"
  using assms
proof (induction evs arbitrary: r r')
  case (Cons ev evs)
  from gateway_step_same [OF Cons.prems(1), of ev] Cons.prems(2)
  have "same_for s c (gateway_step r ev) (if concerns s c ev then gateway_step r' ev else r')" by auto
  from Cons.IH [OF this] Cons.prems(2) show ?case by auto
qed simp

text \<open>
  C21. A client cannot disturb another. Take a session whose channel no other session is registered
  for: whatever the others do, however slowly they read and whatever the world sends them, in any
  interleaving, the messages waiting for this session are those of the run without any of it.
\<close>

theorem slow_client_isolated:
  assumes "\<forall>t. t \<noteq> s \<longrightarrow> rg_registry r t \<noteq> Some c"
    and "\<forall>t. RouterTurn (CommandReady (Some (RegisterSession t c))) \<in> set evs \<longrightarrow> t = s"
  shows "rg_chans (foldl gateway_step r evs) c = rg_chans (foldl gateway_step r (filter (concerns s c) evs)) c"
  using gateway_run_same [of s c r r evs] assms by (simp add: same_for_def)

definition router_new :: router where
  "router_new = \<lparr>rg_endpoint = fst in_memory_pair, rg_registry = Map.empty, rg_chans = (\<lambda>_. \<lparr>ch_queue = [], ch_open = True\<rparr>)\<rparr>"

lemma slow_client_isolated_witness:
  "ch_queue (rg_chans (foldl gateway_step router_new
     ([RouterTurn (CommandReady (Some (RegisterSession (SessionId 1) 0))),
       RouterTurn (CommandReady (Some (RegisterSession (SessionId 2) 1))),
       RouterTurn (WorldReady (Inr (Some (FrameEcho \<lparr>echo_session = SessionId 2, echo_to = ModeSuppressed\<rparr>)))),
       RouterTurn (WorldReady (Inr (Some (FrameClose (SessionId 1))))), ConnectionGone 1])) 0) = [ToClose]"
  by (subst slow_client_isolated [where s = "SessionId 1"])
    (auto simp: router_new_def route_def try_send_def OUTPUT_CAPACITY_def)

section \<open>What a connection tells the world\<close>

text \<open>The frames a connection owes the world when its loop ends.\<close>

fun goodbye :: "session_id \<Rightarrow> exit_cause option \<Rightarrow> to_router list" where
  "goodbye sid None = []"
| "goodbye sid (Some ClientGone) = [ForwardFrame (FrameDisconnect sid), DeregisterSession sid]"
| "goodbye sid (Some WorldClosed) = [DeregisterSession sid]"

definition inputs :: "session_id \<Rightarrow> ustring list \<Rightarrow> to_router list" where
  "inputs sid lines = map (\<lambda>l. ForwardFrame (FrameInput \<lparr>in_session = sid, in_line = InputLine l\<rparr>)) lines"

text \<open>From a state to a later one a connection has only sent lines of input.\<close>

definition only_inputs :: "session_id \<Rightarrow> 'l conn \<Rightarrow> 'l conn \<Rightarrow> bool" where
  "only_inputs sid c c' \<longleftrightarrow> cn_send_fails c' = cn_send_fails c \<and> (\<exists>lines. cn_sent c' = cn_sent c @ inputs sid lines)"

lemma only_inputs_same: "cn_send_fails c' = cn_send_fails c \<Longrightarrow> cn_sent c' = cn_sent c \<Longrightarrow> only_inputs sid c c'"
  unfolding only_inputs_def by (intro conjI exI [of _ "[]"]) (simp_all add: inputs_def)

lemma only_inputs_trans: "only_inputs sid a b \<Longrightarrow> only_inputs sid b c \<Longrightarrow> only_inputs sid a c"
  unfolding only_inputs_def by (auto simp: inputs_def simp flip: map_append)

lemma conn_write_keeps: "conn_write c bytes = (ok, c') \<Longrightarrow> only_inputs sid c c'"
  by (rule only_inputs_same) (auto simp: conn_write_def split: if_splits)

lemma handle_event_inputs: "handle_event env c e = (ok, c') \<Longrightarrow> only_inputs (ce_session env) c c'"
proof (induction env c e rule: handle_event.induct)
  case (1 env c line)
  obtain d l where "ce_check env (cn_limiter c) = (d, l)" by fastforce
  with 1 show ?case
    by (cases d) (auto simp: only_inputs_def conn_send_def inputs_def split: if_splits intro: exI [of _ "[line]"] exI [of _ "[]"])
qed (auto intro: only_inputs_same)

lemma handle_events_inputs: "handle_events env c es = (ok, c') \<Longrightarrow> only_inputs (ce_session env) c c'"
proof (induction es arbitrary: c)
  case (Cons e es)
  then show ?case
    by (auto split: prod.splits bool.splits dest!: handle_event_inputs intro: only_inputs_trans)
qed (simp add: only_inputs_same)

lemma flush_inputs: "flush_replies c = (c', cause) \<Longrightarrow> only_inputs sid c c'"
  by (rule only_inputs_same) (auto simp: flush_replies_def take_output_def conn_write_def Let_def split: if_splits)

lemma connection_step_inputs: "connection_step env c e = (c', cause) \<Longrightarrow> only_inputs (ce_session env) c c'"
proof (induction env c e rule: connection_step.induct)
  case (1 env c bytes)
  obtain m events where r: "receive (cn_machine c) bytes = (m, events)" by fastforce
  obtain ok c1 where h: "handle_events env (c\<lparr>cn_machine := m\<rparr>) events = (ok, c1)" by fastforce
  have "only_inputs (ce_session env) c (c\<lparr>cn_machine := m\<rparr>)" by (rule only_inputs_same) simp_all
  from only_inputs_trans [OF this handle_events_inputs [OF h]] have i: "only_inputs (ce_session env) c c1" .
  show ?case
  proof (cases "bytes = [] \<or> 1024 < length bytes")
    case True
    with 1 show ?thesis by (auto intro: only_inputs_same)
  next
    case False
    with 1 r h i show ?thesis by (cases ok) (auto intro: only_inputs_trans dest: flush_inputs)
  qed
next
  case (4 env c mode)
  have "only_inputs (ce_session env) c (c\<lparr>cn_machine := set_echo (cn_machine c) (local_echo_of mode)\<rparr>)"
    by (rule only_inputs_same) simp_all
  with 4 show ?case by (auto dest: flush_inputs intro: only_inputs_trans)
qed (auto intro: only_inputs_same dest: conn_write_keeps split: prod.splits)

lemma connection_loop_inputs: "connection_loop env c es = (c', cause) \<Longrightarrow> only_inputs (ce_session env) c c'"
proof (induction es arbitrary: c)
  case (Cons e es)
  then show ?case
    by (auto split: prod.splits option.splits dest!: connection_step_inputs intro: only_inputs_trans)
qed (simp add: only_inputs_same)

text \<open>
  C24. What a connection says about its session, in what order. Whatever the client sends and the
  world answers, and whichever writes fail, while the router lives: first the registration, then the
  announcement, then lines of its own session only, and when the loop ends the goodbye that is due, a
  disconnect if and only if it was the client that went, and the deregistration last.
\<close>

theorem connection_discipline:
  assumes "run_connection env tx limiter sfails wfails events = (c, cause)" and "\<forall>n. \<not> sfails n"
  shows "\<exists>lines. cn_sent c = RegisterSession (ce_session env) tx # ForwardFrame (FrameConnect (ce_session env)) #
    inputs (ce_session env) lines @ goodbye (ce_session env) cause"
proof -
  let ?sid = "ce_session env"
  define c0 where "c0 = (conn_new limiter sfails wfails)\<lparr>cn_clock := Suc (Suc 0), cn_machine := fst (take_output machine_new),
    cn_sent := [RegisterSession ?sid tx, ForwardFrame (FrameConnect ?sid)]\<rparr>"
  obtain c1 where loop: "only_inputs ?sid c0 c1" "c = (case cause of None \<Rightarrow> c1 | Some x \<Rightarrow> farewell env c1 x)"
  proof (cases "wfails (Suc (Suc 0))")
    case True
    have "c = farewell env (c0\<lparr>cn_clock := Suc (Suc (Suc 0))\<rparr>) ClientGone" "cause = Some ClientGone"
      using assms True
      by (auto simp: run_connection_def conn_send_def conn_write_def conn_new_def take_output_def c0_def)
    then show thesis by (intro that [of "c0\<lparr>cn_clock := Suc (Suc (Suc 0))\<rparr>"]) (auto intro: only_inputs_same)
  next
    case False
    let ?c = "c0\<lparr>cn_clock := Suc (Suc (Suc 0)), cn_written := tm_output machine_new\<rparr>"
    obtain c1 cause1 where l: "connection_loop env ?c events = (c1, cause1)" by fastforce
    have "c = (case cause of None \<Rightarrow> c1 | Some x \<Rightarrow> farewell env c1 x)"
      using assms False l
      by (auto simp: run_connection_def conn_send_def conn_write_def conn_new_def take_output_def c0_def
          split: option.splits)
    moreover have "only_inputs ?sid c0 ?c" by (rule only_inputs_same) simp_all
    ultimately show thesis using connection_loop_inputs [OF l] by (intro that [of c1]) (auto intro: only_inputs_trans)
  qed
  then obtain lines where lines: "cn_sent c1 = cn_sent c0 @ inputs ?sid lines" "cn_send_fails c1 = sfails"
    by (auto simp: only_inputs_def c0_def conn_new_def)
  have "cn_sent (farewell env c1 x) = cn_sent c1 @ goodbye ?sid (Some x)" for x
    using lines(2) assms(2) by (cases x) (simp_all add: farewell_def conn_send_def)
  with loop(2) lines(1) show ?thesis
    by (intro exI [of _ lines]) (auto simp: c0_def split: option.splits)
qed

definition plain_env :: "session_id \<Rightarrow> unit conn_env" where
  "plain_env sid = \<lparr>ce_session = sid, ce_palette = palette_baseline, ce_tier = Ansi16, ce_lib = sample_lib,
     ce_deunicode = (\<lambda>s. s), ce_check = (\<lambda>l. (Forward, l))\<rparr>"

lemma connection_discipline_witness:
  "cn_sent (fst (run_connection (plain_env (SessionId 5)) 0 () (\<lambda>_. False) (\<lambda>_. False) [FromRouter (Some ToClose)])) =
     [RegisterSession (SessionId 5) 0, ForwardFrame (FrameConnect (SessionId 5)), DeregisterSession (SessionId 5)] \<and>
   (\<exists>lines. cn_sent (fst (run_connection (plain_env (SessionId 5)) 0 () (\<lambda>_. False) (\<lambda>n. n = Suc (Suc 0)) [])) =
     RegisterSession (SessionId 5) 0 # ForwardFrame (FrameConnect (SessionId 5)) # inputs (SessionId 5) lines @
     [ForwardFrame (FrameDisconnect (SessionId 5)), DeregisterSession (SessionId 5)])"
proof
  show "cn_sent (fst (run_connection (plain_env (SessionId 5)) 0 () (\<lambda>_. False) (\<lambda>_. False) [FromRouter (Some ToClose)])) =
     [RegisterSession (SessionId 5) 0, ForwardFrame (FrameConnect (SessionId 5)), DeregisterSession (SessionId 5)]"
    by (simp add: run_connection_def conn_send_def conn_write_def conn_new_def plain_env_def take_output_def farewell_def)
  obtain c where r: "run_connection (plain_env (SessionId 5)) 0 () (\<lambda>_. False) (\<lambda>n. n = Suc (Suc 0)) [] = (c, Some ClientGone)"
    by (simp add: run_connection_def conn_send_def conn_write_def conn_new_def take_output_def)
  from connection_discipline [OF r] r
  show "\<exists>lines. cn_sent (fst (run_connection (plain_env (SessionId 5)) 0 () (\<lambda>_. False) (\<lambda>n. n = Suc (Suc 0)) [])) =
     RegisterSession (SessionId 5) 0 # ForwardFrame (FrameConnect (SessionId 5)) # inputs (SessionId 5) lines @
     [ForwardFrame (FrameDisconnect (SessionId 5)), DeregisterSession (SessionId 5)]"
    by (simp add: plain_env_def)
qed

section \<open>A close that is lost\<close>

lemma foldl_outputs:
  assumes "rg_registry r s = Some c" and "ch_open (rg_chans r c)"
  shows "rg_registry (foldl gateway_step r (map (\<lambda>t. RouterTurn (WorldReady (Inr (Some (FrameOutput
        \<lparr>out_session = s, out_text = t, out_kind = k\<rparr>))))) ts)) = rg_registry r \<and>
    rg_chans (foldl gateway_step r (map (\<lambda>t. RouterTurn (WorldReady (Inr (Some (FrameOutput
        \<lparr>out_session = s, out_text = t, out_kind = k\<rparr>))))) ts)) c =
      (rg_chans r c)\<lparr>ch_queue := ch_queue (rg_chans r c) @
         take (OUTPUT_CAPACITY - length (ch_queue (rg_chans r c))) (map (\<lambda>t. ToOutput t k) ts)\<rparr>"
  using assms
proof (induction ts arbitrary: r)
  case (Cons t ts)
  let ?r = "route r s (ToOutput t k)"
  have "rg_registry ?r = rg_registry r" "ch_open (rg_chans ?r c)"
      "rg_chans ?r c = (if OUTPUT_CAPACITY \<le> length (ch_queue (rg_chans r c)) then rg_chans r c
         else (rg_chans r c)\<lparr>ch_queue := ch_queue (rg_chans r c) @ [ToOutput t k]\<rparr>)"
    using Cons.prems by (auto simp: route_def try_send_def)
  then show ?case
    using Cons.IH [of ?r] Cons.prems
    by (cases "OUTPUT_CAPACITY \<le> length (ch_queue (rg_chans r c))") (simp_all add: Suc_diff_Suc [symmetric])
qed simp

lemma loop_outputs:
  "\<forall>n. \<not> cn_write_fails cn n \<Longrightarrow>
    snd (connection_loop env cn (map (\<lambda>t. FromRouter (Some (ToOutput t k))) ts)) = None"
  by (induction ts arbitrary: cn) (simp_all add: conn_write_def)

lemma route_refused:
  "rg_registry r s = Some c \<Longrightarrow> snd (try_send (rg_chans r c) p) = rg_chans r c \<Longrightarrow> route r s p = r"
  by (cases r) (simp add: route_def)

text \<open>
  C40. The world's close of a session can vanish. When a client is one full buffer of lines behind and
  the world then closes its session, the close is dropped like any line: the session stays
  registered, its task reads every line that waited and then goes on serving the client, though the world
  has let the session go.
\<close>

theorem close_lost_on_full_channel:
  assumes "rg_registry r s = Some c" and "rg_chans r c = \<lparr>ch_queue = [], ch_open = True\<rparr>"
    and "length ts = OUTPUT_CAPACITY" and "\<forall>n. \<not> cn_write_fails cn n"
  shows "let r1 = foldl gateway_step r (map (\<lambda>t. RouterTurn (WorldReady (Inr (Some (FrameOutput
        \<lparr>out_session = s, out_text = t, out_kind = k\<rparr>))))) ts @ [RouterTurn (WorldReady (Inr (Some (FrameClose s))))])
    in rg_registry r1 s = Some c \<and> ch_queue (rg_chans r1 c) = map (\<lambda>t. ToOutput t k) ts \<and>
       snd (connection_loop env cn (map (\<lambda>m. FromRouter (Some m)) (ch_queue (rg_chans r1 c)))) = None"
proof -
  let ?r = "foldl gateway_step r (map (\<lambda>t. RouterTurn (WorldReady (Inr (Some (FrameOutput
        \<lparr>out_session = s, out_text = t, out_kind = k\<rparr>))))) ts)"
  have r: "rg_registry ?r s = Some c" "rg_chans ?r c = \<lparr>ch_queue = map (\<lambda>t. ToOutput t k) ts, ch_open = True\<rparr>"
    using foldl_outputs [OF assms(1), of k ts] assms(1-3) by simp_all
  have "route ?r s ToClose = ?r"
    using r assms(3) by (intro route_refused [of _ _ c]) (simp_all add: try_send_def)
  then show ?thesis
    using r loop_outputs [OF assms(4), of env k ts] by (simp add: Let_def comp_def)
qed

lemma close_lost_on_full_channel_witness:
  "rg_registry (foldl gateway_step (router_new\<lparr>rg_registry := [SessionId 1 \<mapsto> 0]\<rparr>)
     (map (\<lambda>t. RouterTurn (WorldReady (Inr (Some (FrameOutput \<lparr>out_session = SessionId 1, out_text = t, out_kind = KindLine\<rparr>)))))
        (replicate 64 (output_text_new (lit ''hi''))) @ [RouterTurn (WorldReady (Inr (Some (FrameClose (SessionId 1)))))]))
     (SessionId 1) = Some 0"
  using close_lost_on_full_channel [of "router_new\<lparr>rg_registry := [SessionId 1 \<mapsto> 0]\<rparr>" "SessionId 1" 0
      "replicate 64 (output_text_new (lit ''hi''))" "conn_new () (\<lambda>_. False) (\<lambda>_. False)" KindLine "plain_env (SessionId 1)"]
  by (simp add: router_new_def OUTPUT_CAPACITY_def Let_def conn_new_def del: foldl_append map_replicate)

end
