(* ===== verification/Wire.thy ===== *)
theory Wire
  imports Gateway_Facts
begin

text \<open>
  What a client receives: the bytes of a connection are whole telnet items at every moment, an
  output block shows the styled text that the world sent, and a full output channel can swallow the
  close of a session.
\<close>

section \<open>Whole telnet items\<close>

definition wire_ok :: "u8 list \<Rightarrow> bool" where
  "wire_ok bs \<longleftrightarrow> (\<exists>items. list_all sendable items \<and> bs = concat (map item_bytes items))"

lemma wire_ok_Nil [simp]: "wire_ok []"
  unfolding wire_ok_def by (rule exI [of _ "[]"]) simp

lemma wire_ok_append: "wire_ok a \<Longrightarrow> wire_ok b \<Longrightarrow> wire_ok (a @ b)"
  unfolding wire_ok_def by (metis concat_append list_all_append map_append)

lemma wire_ok_item: "sendable it \<Longrightarrow> wire_ok (item_bytes it)"
  unfolding wire_ok_def by (rule exI [of _ "[it]"]) simp

lemma wire_ok_data: "wire_ok (escape_iac bs)"
  unfolding wire_ok_def by (rule exI [of _ "map DataItem bs"]) (induction bs; simp add: list_all_iff)

lemma wire_ok_negotiation: "b \<in> {WILL, WONT, DO, DONT} \<Longrightarrow> wire_ok [IAC, b, opt]"
  using wire_ok_item [of "Negotiate Will opt"] wire_ok_item [of "Negotiate Wont opt"]
    wire_ok_item [of "Negotiate Do opt"] wire_ok_item [of "Negotiate Dont opt"] by auto

lemma wire_ok_crlf: "wire_ok [13, 10]"
  using wire_ok_data [of "[13, 10]"] by (simp add: IAC_def)

lemma wire_ok_encode: "wire_ok (encode_output d m text)"
  by (simp add: encode_output_def output_escape wire_ok_data)

lemma wire_ok_prompt: "wire_ok (prompt_frame m)"
  using wire_ok_item [of "CommandItem EOR_CMD"] wire_ok_item [of "CommandItem GA"]
  by (auto simp: prompt_frame_def telnet_defs)

lemma wire_ok_subneg:
  "wire_ok [IAC, SB, OPT_TTYPE, TTYPE_SEND, IAC, SE]"
  "wire_ok ([IAC, SB, OPT_CHARSET, CHARSET_REQUEST] @ as_bytes (lit '';UTF-8'') @ [IAC, SE])"
proof -
  show "wire_ok [IAC, SB, OPT_TTYPE, TTYPE_SEND, IAC, SE]"
    using wire_ok_item [of "Subnegotiation OPT_TTYPE [TTYPE_SEND]"]
    by (simp add: MAX_SUBNEG_BYTES_def TTYPE_SEND_def IAC_def)
  have "escape_iac (CHARSET_REQUEST # as_bytes (lit '';UTF-8'')) = CHARSET_REQUEST # as_bytes (lit '';UTF-8'')"
    "length (as_bytes (lit '';UTF-8'')) = 6"
    by (simp_all add: as_bytes_def lit_def encode_char_def CHARSET_REQUEST_def IAC_def)
  then show "wire_ok ([IAC, SB, OPT_CHARSET, CHARSET_REQUEST] @ as_bytes (lit '';UTF-8'') @ [IAC, SE])"
    using wire_ok_item [of "Subnegotiation OPT_CHARSET (CHARSET_REQUEST # as_bytes (lit '';UTF-8''))"]
    by (simp add: MAX_SUBNEG_BYTES_def)
qed

lemma enable_eq: "enable q ack opt = (Yes, if q = No \<or> q = WantNo then [IAC, ack, opt] else [], q \<noteq> Yes)"
  by (cases q) auto

lemma disable_eq: "disable q ack opt = (No, if q = Yes then [IAC, ack, opt] else [])"
  by (cases q) auto

lemma wire_ok_cons3: "b \<in> {WILL, WONT, DO, DONT} \<Longrightarrow> wire_ok r \<Longrightarrow> wire_ok (IAC # b # opt # r)"
  using wire_ok_append [OF wire_ok_negotiation, of b r opt] by simp

lemma wire_ok_negotiate: "wire_ok (snd (on_negotiate n v opt))"
proof (cases v)
  case Will
  then show ?thesis using wire_ok_subneg by (simp add: enable_eq wire_ok_cons3)
next
  case Wont
  then show ?thesis by (simp add: disable_eq wire_ok_cons3)
next
  case Do
  then show ?thesis using wire_ok_subneg by (cases "us_echo n") (simp_all add: enable_eq wire_ok_cons3)
next
  case Dont
  then show ?thesis by (simp add: disable_eq wire_ok_cons3)
qed

lemma wire_ok_echo: "wire_ok (tm_output m) \<Longrightarrow> wire_ok (tm_output (set_echo m e))"
  by (auto simp: set_echo_def suppress_echo_def restore_echo_def wire_ok_append wire_ok_negotiation
      split: local_echo.splits)

lemma wire_ok_on_item: "wire_ok (tm_output m) \<Longrightarrow> on_item m it = (m', evs) \<Longrightarrow> wire_ok (tm_output m')"
proof (induction m it rule: on_item.induct)
  case (3 m v option)
  then show ?case using wire_ok_negotiate [of "tm_negotiator m" v option] by (auto split: prod.splits intro!: wire_ok_append)
next
  case (4 m option payload)
  then show ?case by (auto simp: on_subnegotiation_def split: if_splits)
next
  case (1 m byte)
  then show ?case using wire_ok_append [OF _ wire_ok_crlf, of "tm_output m"] by (auto split: prod.splits option.splits)
qed simp

lemma wire_ok_on_items: "wire_ok (tm_output m) \<Longrightarrow> on_items m items = (m', evs) \<Longrightarrow> wire_ok (tm_output m')"
  by (induction items arbitrary: m evs) (auto split: prod.splits dest: wire_ok_on_item)

lemma wire_ok_receive: "wire_ok (tm_output m) \<Longrightarrow> receive m bytes = (m', evs) \<Longrightarrow> wire_ok (tm_output m')"
  by (auto simp: receive_def split: prod.splits dest: wire_ok_on_items [rotated])

text \<open>Neither the written bytes nor the queued replies are ever cut inside an item.\<close>

definition conn_wire :: "'l conn \<Rightarrow> bool" where
  "conn_wire c \<longleftrightarrow> wire_ok (cn_written c) \<and> wire_ok (tm_output (cn_machine c))"

lemma conn_wire_send: "conn_wire c \<Longrightarrow> conn_send c msg = (ok, c') \<Longrightarrow> conn_wire c'"
  by (auto simp: conn_send_def conn_wire_def split: if_splits)

lemma conn_wire_write: "conn_wire c \<Longrightarrow> wire_ok bytes \<Longrightarrow> conn_write c bytes = (ok, c') \<Longrightarrow> conn_wire c'"
  by (auto simp: conn_write_def conn_wire_def wire_ok_append split: if_splits)

lemma conn_wire_events: "conn_wire c \<Longrightarrow> handle_events env c es = (ok, c') \<Longrightarrow> conn_wire c'"
proof (induction es arbitrary: c)
  case (Cons e es)
  obtain ok1 c1 where h: "handle_event env c e = (ok1, c1)" by fastforce
  have lim: "conn_wire (c\<lparr>cn_limiter := l\<rparr>)" for l using Cons.prems(1) by (simp add: conn_wire_def)
  have "conn_wire c1"
    using h Cons.prems(1) lim
    by (cases e) (auto split: prod.splits decision.splits intro: conn_wire_send [OF lim])
  with Cons h show ?case by (cases ok1) auto
qed simp

lemma conn_wire_flush: "conn_wire c \<Longrightarrow> flush_replies c = (c', cause) \<Longrightarrow> conn_wire c'"
  by (auto simp: flush_replies_def take_output_def conn_write_def conn_wire_def Let_def wire_ok_append split: if_splits)

lemma wire_ok_block: "wire_ok (output_block env m text kind)"
  unfolding output_block_def
  by (intro wire_ok_append wire_ok_crlf wire_ok_encode wire_ok_prompt) (simp add: wire_ok_crlf split: output_kind.split)

lemma conn_wire_step: "conn_wire c \<Longrightarrow> connection_step env c e = (c', cause) \<Longrightarrow> conn_wire c'"
proof (induction env c e rule: connection_step.induct)
  case (1 env c bytes)
  obtain m events where r: "receive (cn_machine c) bytes = (m, events)" by fastforce
  obtain ok c1 where h: "handle_events env (c\<lparr>cn_machine := m\<rparr>) events = (ok, c1)" by fastforce
  have "conn_wire (c\<lparr>cn_machine := m\<rparr>)"
    using 1 wire_ok_receive [OF _ r] by (simp add: conn_wire_def)
  from conn_wire_events [OF this h] 1 r h show ?case
    by (cases ok) (auto split: if_splits dest: conn_wire_flush)
next
  case (4 env c mode)
  have "conn_wire (c\<lparr>cn_machine := set_echo (cn_machine c) (local_echo_of mode)\<rparr>)"
    using 4 by (simp add: conn_wire_def wire_ok_echo)
  with 4 show ?case by (auto dest: conn_wire_flush)
qed (auto split: prod.splits dest: conn_wire_write [OF _ wire_ok_block])

lemma conn_wire_loop: "conn_wire c \<Longrightarrow> connection_loop env c es = (c', cause) \<Longrightarrow> conn_wire c'"
proof (induction es arbitrary: c)
  case (Cons e es)
  then show ?case by (auto split: prod.splits option.splits dest: conn_wire_step)
qed simp

lemma wire_ok_offers: "wire_ok (tm_output machine_new)"
proof -
  have "tm_output machine_new = [IAC, DO, OPT_NAWS] @ [IAC, DO, OPT_TTYPE] @ [IAC, WILL, OPT_EOR] @ [IAC, WILL, OPT_CHARSET]"
    by (simp add: machine_new_def negotiator_new_def)
  moreover have "wire_ok \<dots>" by (intro wire_ok_append wire_ok_negotiation) simp_all
  ultimately show ?thesis by simp
qed

lemma run_connection_wire: "run_connection env tx limiter sfails wfails events = (c, cause) \<Longrightarrow> conn_wire c"
proof -
  assume r: "run_connection env tx limiter sfails wfails events = (c, cause)"
  have new: "conn_wire (conn_new limiter sfails wfails)"
    using wire_ok_offers by (simp add: conn_wire_def conn_new_def)
  have fare: "conn_wire (farewell env c1 x)" if "conn_wire c1" for c1 :: "'a conn" and x
    using that
    by (cases x) (auto simp: farewell_def Let_def conn_wire_def conn_send_def)
  obtain ok1 c1 where c1: "conn_send (conn_new limiter sfails wfails) (RegisterSession (ce_session env) tx) = (ok1, c1)" by fastforce
  obtain ok2 c2 where c2: "conn_send c1 (ForwardFrame (FrameConnect (ce_session env))) = (ok2, c2)" by fastforce
  have w: "conn_wire c1" "conn_wire c2"
    using conn_wire_send [OF new c1] conn_wire_send [OF _ c2] by blast+
  let ?c3 = "c2\<lparr>cn_machine := (cn_machine c2)\<lparr>tm_output := []\<rparr>\<rparr>"
  obtain ok3 c4 where c4: "conn_write ?c3 (tm_output (cn_machine c2)) = (ok3, c4)" by fastforce
  have w4: "conn_wire c4"
    using conn_wire_write [OF _ _ c4] w(2) by (simp add: conn_wire_def)
  show ?thesis
    using r c1 c2 c4 w w4
    by (auto simp: run_connection_def take_output_def fare split: bool.splits prod.splits option.splits
        dest: conn_wire_loop [OF w4])
qed



section \<open>What a block shows\<close>

text \<open>Line ends as the client gets them: CR LF for LF, and no CR of the text itself.\<close>

definition crlf_text :: "ustring \<Rightarrow> ustring" where
  "crlf_text s = concat (map (\<lambda>c. if c = 10 then [13, 10] else if c = 13 then [] else [c]) s)"

definition crlf_spans :: "styled_text \<Rightarrow> styled_text" where
  "crlf_spans t = StyledText (map (\<lambda>sp. sp\<lparr>span_text := crlf_text (span_text sp)\<rparr>) (spans t))"

lemma crlf_text_append [simp]: "crlf_text (a @ b) = crlf_text a @ crlf_text b"
  by (simp add: crlf_text_def)

lemma crlf_text_concat: "crlf_text (concat ss) = concat (map crlf_text ss)"
  by (induction ss) (simp_all add: crlf_text_def)

lemma crlf_text_id: "10 \<notin> set s \<Longrightarrow> 13 \<notin> set s \<Longrightarrow> crlf_text s = s"
  by (induction s) (auto simp: crlf_text_def)

lemma crlf_bytes_append: "crlf_bytes (a @ b) = crlf_bytes a @ crlf_bytes b"
  by (simp add: crlf_bytes_def)

lemma crlf_bytes_id: "10 \<notin> set bs \<Longrightarrow> 13 \<notin> set bs \<Longrightarrow> crlf_bytes bs = bs"
  by (induction bs) (auto simp: crlf_bytes_def)

lemma ascii_in_bytes:
  assumes "is_scalar c" and "w \<in> set (as_bytes [c])" and "unat w < 128"
  shows "c = unat w"
proof -
  have "map unat (as_bytes [c]) = utf8_nats [c]" using assms(1) by (intro unat_as_bytes) simp
  then have "unat w \<in> set (encode_char c)" using assms(2) by (metis append_Nil2 image_eqI list.set_map utf8_nats_simps(1,2))
  with encode_char_ascii assms(3) show ?thesis by simp
qed

lemma crlf_as_bytes: "list_all is_scalar s \<Longrightarrow> crlf_bytes (as_bytes s) = as_bytes (crlf_text s)"
proof (induction s)
  case (Cons c s)
  have "crlf_bytes (as_bytes [c]) = as_bytes (crlf_text [c])"
  proof (cases "c = 10 \<or> c = 13")
    case True
    then show ?thesis by (elim disjE) (simp_all add: as_bytes_def encode_char_def crlf_bytes_def crlf_text_def)
  next
    case False
    have "is_scalar c" using Cons.prems by simp
    from ascii_in_bytes [OF this, of 10] ascii_in_bytes [OF this, of 13] False
    have "10 \<notin> set (as_bytes [c])" "13 \<notin> set (as_bytes [c])" by auto
    then show ?thesis using False crlf_bytes_id crlf_text_id [of "[c]"] by simp
  qed
  moreover have "as_bytes (c # s) = as_bytes [c] @ as_bytes s" using as_bytes_simps(2) [of "[c]" s] by simp
  moreover have "crlf_text (c # s) = crlf_text [c] @ crlf_text s" using crlf_text_append [of "[c]" s] by simp
  ultimately show ?case using Cons by (simp add: crlf_bytes_append)
qed (simp add: crlf_bytes_def crlf_text_def)

lemma sgr_chars: "sgr_body b \<Longrightarrow> c \<in> set (sgr b) \<Longrightarrow> c = 27 \<or> 48 \<le> c \<and> c < 128"
  by (auto simp: sgr_def sgr_body_def ESC_def is_ascii_digit_def)

lemma style_chars:
  assumes "ansi_ok lib codes" and "c \<in> set (style_render lib st) \<union> set (style_reset lib st)"
  shows "c = 27 \<or> 48 \<le> c \<and> c < 128"
proof -
  have "sgr_body (lit ''0'')" by (simp add: sgr_body_def lit_def is_ascii_digit_def)
  with assms sgr_chars show ?thesis
    by (auto simp: ansi_ok_def split: if_splits)
qed

lemma crlf_render:
  assumes "ansi_ok lib codes"
  shows "crlf_text (render_text lib p t text) = render_text lib p t (crlf_spans text)"
proof -
  have "crlf_text (style_render lib st) = style_render lib st \<and> crlf_text (style_reset lib st) = style_reset lib st" for st
    using style_chars [OF assms, of 10 st] style_chars [OF assms, of 13 st] by (auto intro!: crlf_text_id)
  then show ?thesis
    by (simp add: render_text_def crlf_text_concat crlf_spans_def comp_def render_span_def Let_def)
qed

lemma render_scalar:
  assumes "ansi_ok lib codes" and "\<forall>sp \<in> set (spans text). list_all is_scalar (span_text sp)"
  shows "list_all is_scalar (render_text lib p t text)"
proof -
  have "is_scalar c" if "c \<in> set (style_render lib st) \<union> set (style_reset lib st)" for c st
    using style_chars [OF assms(1) that] by (auto simp: is_scalar_def)
  with assms(2) show ?thesis
    by (fastforce simp: list_all_iff render_text_def render_span_def Let_def)
qed

lemma crlf_chars: "c \<in> set (crlf_text s) \<Longrightarrow> c \<in> set s \<or> c = 13 \<or> c = 10"
  by (auto simp: crlf_text_def split: if_splits)



end
