(* ===== verification/Catalog.thy ===== *)
theory Catalog
  imports Entity_Id Loader Rate_Limit
begin

text \<open>
  The operator's side of the server (crates/mudd: catalog.rs, scaffold.rs, config.rs, tenant.rs):
  the tenant catalogue, the starter folder of a new tenant, the server's settings and the tenant
  subcommands. The host's file system is a map from paths to entries, and every call to it may
  fail: a list of outcomes says how. The TOML library and figment are parameters.
\<close>

section \<open>The host\<close>

datatype tenant_name = TenantName (tenant_name_str: ustring)

datatype cli_error =
    CliIo
  | CatalogToml
  | BadSettings
  | NoHome
  | InvalidTenantName ustring
  | TagOutsideRange tenant_name u16
  | DuplicateTenantName tenant_name
  | DuplicatePort u16
  | DuplicateTag tenant_tag
  | AlreadyRegistered tenant_name
  | NoFreePort u16
  | TagsInUse
  | NotRegistered tenant_name
  | ConfirmationMismatch tenant_name
  | HalfFormedFolder path
  | NoTenants

text \<open>
  Paths are lists of components, \<open>/\<close> first when absolute; every entry other than the root stands
  under its own path. They are compared as written: links and \<open>..\<close> are not resolved. Asking whether
  a path exists is the one call that never fails.
\<close>

definition root_part :: ustring where "root_part = lit ''/''"

definition path_of :: "ustring \<Rightarrow> path" where
  "path_of p = (if is_absolute p then root_part # components p else components p)"

definition push_path :: "path \<Rightarrow> ustring \<Rightarrow> path" where
  "push_path base p = (if is_absolute p then path_of p else base @ components p)"

definition path_parent :: "path \<Rightarrow> path option" where
  "path_parent p = (if p = [] \<or> p = [root_part] then None else Some (butlast p))"

datatype fs_entry = PlainFile ustring | Folder

text \<open>
  How a call ends: done, refused, cut short after so many units (characters written, directories
  made), or cut short with the listed paths already deleted. An empty list means that all is done.
\<close>

datatype io_outcome = IoOk | IoDenied | IoShort nat | IoCut "path list"

record host =
  host_fs :: "path \<Rightarrow> fs_entry option"
  host_io :: "io_outcome list"
  host_in :: ustring
  host_out :: "ustring list"

type_synonym 'a action = "host \<Rightarrow> (cli_error + 'a) \<times> host"

definition give :: "cli_error + 'a \<Rightarrow> 'a action" where
  "give r h = (r, h)"

definition and_then :: "'a action \<Rightarrow> ('a \<Rightarrow> 'b action) \<Rightarrow> 'b action" where
  "and_then m f h = (case m h of (Inl e, h1) \<Rightarrow> (Inl e, h1) | (Inr x, h1) \<Rightarrow> f x h1)"

text \<open>A call with the outcome that is due: what it does when done, and what it leaves when it fails.\<close>

definition io_call :: "(io_outcome \<Rightarrow> 'a action) \<Rightarrow> 'a action" where
  "io_call f h = (case host_io h of [] \<Rightarrow> f IoOk h | r # rs \<Rightarrow> f r (h\<lparr>host_io := rs\<rparr>))"

definition is_folder :: "host \<Rightarrow> path \<Rightarrow> bool" where
  "is_folder h p \<longleftrightarrow> p = [] \<or> p = [root_part] \<or> host_fs h p = Some Folder"

definition path_exists :: "host \<Rightarrow> path \<Rightarrow> bool" where
  "path_exists h p \<longleftrightarrow> p = [root_part] \<or> host_fs h p \<noteq> None"

definition read_to_string :: "path \<Rightarrow> ustring action" where
  "read_to_string p =
     io_call (\<lambda>r h. (case (r, host_fs h p) of (IoOk, Some (PlainFile t)) \<Rightarrow> Inr t | _ \<Rightarrow> Inl CliIo, h))"

text \<open>\<open>fs::write\<close> creates or empties the file before it writes.\<close>

definition write_file :: "path \<Rightarrow> ustring \<Rightarrow> unit action" where
  "write_file p t =
     io_call (\<lambda>r h.
       if p = [] \<or> \<not> is_folder h (butlast p) \<or> is_folder h p then (Inl CliIo, h)
       else (case r of
               IoOk \<Rightarrow> (Inr (), h\<lparr>host_fs := (host_fs h)(p \<mapsto> PlainFile t)\<rparr>)
             | IoShort n \<Rightarrow> (Inl CliIo, h\<lparr>host_fs := (host_fs h)(p \<mapsto> PlainFile (take n t))\<rparr>)
             | _ \<Rightarrow> (Inl CliIo, h)))"

definition above :: "path \<Rightarrow> path list" where
  "above p = filter (\<lambda>q. q \<noteq> [] \<and> q \<noteq> [root_part]) (prefixes p)"

definition make_folders :: "path list \<Rightarrow> host \<Rightarrow> host" where
  "make_folders ps h = h\<lparr>host_fs := \<lambda>q. if q \<in> set ps then Some Folder else host_fs h q\<rparr>"

definition create_dir_all :: "path \<Rightarrow> unit action" where
  "create_dir_all p =
     (if p = [] then give (Inr ())
      else io_call (\<lambda>r h.
        if list_ex (\<lambda>q. \<not> is_folder h q \<and> host_fs h q \<noteq> None) (above p) then (Inl CliIo, h)
        else (case r of
                IoOk \<Rightarrow> (Inr (), make_folders (above p) h)
              | IoShort n \<Rightarrow> (Inl CliIo, make_folders (take n (above p)) h)
              | _ \<Rightarrow> (Inl CliIo, h))))"

definition remove_dir_all :: "path \<Rightarrow> unit action" where
  "remove_dir_all p =
     io_call (\<lambda>r h.
       if host_fs h p \<noteq> Some Folder then (Inl CliIo, h)
       else (case r of
               IoOk \<Rightarrow> (Inr (), h\<lparr>host_fs := \<lambda>q. if prefix p q then None else host_fs h q\<rparr>)
             | IoCut ps \<Rightarrow> (Inl CliIo, h\<lparr>host_fs := \<lambda>q. if strict_prefix p q \<and> q \<in> set ps then None else host_fs h q\<rparr>)
             | _ \<Rightarrow> (Inl CliIo, h)))"

definition write_line :: "ustring \<Rightarrow> unit action" where
  "write_line t =
     io_call (\<lambda>r h. case r of
         IoOk \<Rightarrow> (Inr (), h\<lparr>host_out := host_out h @ [t]\<rparr>)
       | IoShort n \<Rightarrow> (Inl CliIo, h\<lparr>host_out := host_out h @ [take n t]\<rparr>)
       | _ \<Rightarrow> (Inl CliIo, h))"

text \<open>\<open>read_line\<close> keeps the line feed.\<close>

definition read_line :: "ustring action" where
  "read_line =
     io_call (\<lambda>r h. case r of
         IoOk \<Rightarrow>
           (let l = takeWhile (\<lambda>c. c \<noteq> 10) (host_in h); rest = drop (length l) (host_in h)
            in (Inr (l @ take 1 rest), h\<lparr>host_in := drop 1 rest\<rparr>))
       | _ \<Rightarrow> (Inl CliIo, h))"

section \<open>The catalogue\<close>

definition name_start :: "rchar \<Rightarrow> bool" where
  "name_start c \<longleftrightarrow> is_ascii_lower c \<or> is_ascii_digit c"

definition name_rest :: "rchar \<Rightarrow> bool" where
  "name_rest c \<longleftrightarrow> is_ascii_lower c \<or> is_ascii_digit c \<or> c = ch CHR ''-'' \<or> c = ch CHR ''_''"

definition TenantName_parse :: "ustring \<Rightarrow> cli_error + tenant_name" where
  "TenantName_parse v =
     (let starts_alnum = (case v of [] \<Rightarrow> False | c # _ \<Rightarrow> name_start c); rest_valid = list_all name_rest (drop 1 v)
      in if \<not> (starts_alnum \<and> rest_valid) then Inl (InvalidTenantName v) else Inr (TenantName v))"

record catalog_entry =
  ce_name :: tenant_name
  ce_port :: u16
  ce_tag :: tenant_tag

record raw_catalog_entry =
  re_name :: tenant_name
  re_port :: u16
  re_tag :: u16

record catalog =
  cat_entries :: "catalog_entry list"

definition catalog_default :: catalog where "catalog_default = \<lparr>cat_entries = []\<rparr>"

text \<open>The rows of the file as the TOML library gives and takes them; a name goes through its parser.\<close>

type_synonym toml_row = "ustring \<times> u16 \<times> u16"

record toml_lib =
  toml_write :: "toml_row list \<Rightarrow> ustring option"
  toml_read :: "ustring \<Rightarrow> toml_row list option"

fun deserialize_rows :: "toml_row list \<Rightarrow> cli_error + raw_catalog_entry list" where
  "deserialize_rows [] = Inr []"
| "deserialize_rows ((n, p, t) # rows) =
     bindE (map_err (\<lambda>_. CatalogToml) (TenantName_parse n)) (\<lambda>name.
     bindE (deserialize_rows rows) (\<lambda>es. Inr (\<lparr>re_name = name, re_port = p, re_tag = t\<rparr> # es)))"

fun check_rows ::
  "tenant_name set \<Rightarrow> u16 set \<Rightarrow> tenant_tag set \<Rightarrow> raw_catalog_entry list \<Rightarrow> cli_error + catalog_entry list" where
  "check_rows names ports tags [] = Inr []"
| "check_rows names ports tags (r # rs) =
     bindE (if re_tag r \<ge> 1 then map_err (\<lambda>_. TagOutsideRange (re_name r) (re_tag r)) (TenantTag_new (re_tag r))
            else Inl (TagOutsideRange (re_name r) (re_tag r))) (\<lambda>tag.
     if re_name r \<in> names then Inl (DuplicateTenantName (re_name r))
     else if re_port r \<in> ports then Inl (DuplicatePort (re_port r))
     else if tag \<in> tags then Inl (DuplicateTag tag)
     else bindE (check_rows (insert (re_name r) names) (insert (re_port r) ports) (insert tag tags) rs) (\<lambda>es.
       Inr (\<lparr>ce_name = re_name r, ce_port = re_port r, ce_tag = tag\<rparr> # es)))"

definition catalog_load :: "toml_lib \<Rightarrow> path \<Rightarrow> catalog action" where
  "catalog_load toml p h =
     (if \<not> path_exists h p then (Inr catalog_default, h)
      else and_then (read_to_string p) (\<lambda>text.
        give (bindE (ok_or (toml_read toml text) CatalogToml) (\<lambda>rows.
          bindE (deserialize_rows rows) (\<lambda>raw.
          bindE (check_rows {} {} {} raw) (\<lambda>es. Inr \<lparr>cat_entries = es\<rparr>))))) h)"

definition serialize_rows :: "catalog \<Rightarrow> toml_row list" where
  "serialize_rows c = map (\<lambda>e. (tenant_name_str (ce_name e), ce_port e, tag_get (ce_tag e))) (cat_entries c)"

definition catalog_save :: "toml_lib \<Rightarrow> catalog \<Rightarrow> path \<Rightarrow> unit action" where
  "catalog_save toml c p =
     and_then (give (ok_or (toml_write toml (serialize_rows c)) CatalogToml)) (\<lambda>text.
     and_then (case path_parent p of Some parent \<Rightarrow> create_dir_all parent | None \<Rightarrow> give (Inr ())) (\<lambda>_.
     write_file p text))"

text \<open>The searches: over \<open>base..=u16::MAX\<close>, and over the tags from 1 up.\<close>

definition free_port :: "u16 \<Rightarrow> catalog_entry list \<Rightarrow> u16 option" where
  "free_port base es = find (\<lambda>p. p \<notin> ce_port ` set es) (map of_nat [unat base..<2 ^ 16])"

definition free_tag :: "catalog_entry list \<Rightarrow> tenant_tag option" where
  "free_tag es =
     find (\<lambda>t. t \<notin> ce_tag ` set es)
       (List.map_filter (\<lambda>n. case TenantTag_new (of_nat n) of Inr t \<Rightarrow> Some t | Inl _ \<Rightarrow> None)
         [1..<Suc (unat TenantTag_MAX)])"

definition catalog_add :: "catalog \<Rightarrow> tenant_name \<Rightarrow> u16 \<Rightarrow> (cli_error + catalog_entry) \<times> catalog" where
  "catalog_add c name base =
     (if list_ex (\<lambda>e. ce_name e = name) (cat_entries c) then (Inl (AlreadyRegistered name), c)
      else (case free_port base (cat_entries c) of
              None \<Rightarrow> (Inl (NoFreePort base), c)
            | Some port \<Rightarrow>
                (case free_tag (cat_entries c) of
                   None \<Rightarrow> (Inl TagsInUse, c)
                 | Some tag \<Rightarrow>
                     (let entry = \<lparr>ce_name = name, ce_port = port, ce_tag = tag\<rparr>
                      in (Inr entry, \<lparr>cat_entries = cat_entries c @ [entry]\<rparr>)))))"

definition catalog_remove :: "catalog \<Rightarrow> tenant_name \<Rightarrow> (cli_error + catalog_entry) \<times> catalog" where
  "catalog_remove c name =
     (case dropWhile (\<lambda>e. ce_name e \<noteq> name) (cat_entries c) of
        [] \<Rightarrow> (Inl (NotRegistered name), c)
      | e # rest \<Rightarrow> (Inr e, \<lparr>cat_entries = takeWhile (\<lambda>e. ce_name e \<noteq> name) (cat_entries c) @ rest\<rparr>))"

section \<open>The starter folder\<close>

datatype scaffolded = Created | Registered

definition scaffold_banner :: "tenant_name \<Rightarrow> ustring" where
  "scaffold_banner name = lit ''banner \"Welcome to '' @ tenant_name_str name @ lit ''.\"'' @ [10]"

definition scaffold_region :: ustring where
  "scaffold_region = lit ''region \"start\" {'' @ [10] @ lit ''    name \"Start\"'' @ [10] @ lit ''}'' @ [10]"

definition scaffold_room :: ustring where
  "scaffold_room = lit ''room \"start\" {'' @ [10] @ lit ''    title \"Start\"'' @ [10] @
     lit ''    description \"A quiet starting room. Edit world/start/start.kdl to begin building.\"'' @ [10] @ lit ''}'' @ [10]"

definition scaffold_config :: ustring where
  "scaffold_config = lit ''start_room = \"start\"'' @ [10]"

definition config_path :: "path \<Rightarrow> path" where
  "config_path dir = push_path dir (lit ''config.toml'')"

definition ensure_tenant_dir :: "path \<Rightarrow> tenant_name \<Rightarrow> scaffolded action" where
  "ensure_tenant_dir dir name h =
     (if path_exists h dir then
        (if path_exists h (config_path dir) then (Inr Registered, h) else (Inl (HalfFormedFolder dir), h))
      else
        (let region_dir = push_path (push_path dir (lit ''world'')) (lit ''start'')
         in and_then (create_dir_all region_dir) (\<lambda>_.
            and_then (write_file (push_path dir (lit ''welcome.kdl'')) (scaffold_banner name)) (\<lambda>_.
            and_then (write_file (push_path region_dir (lit ''region.kdl'')) scaffold_region) (\<lambda>_.
            and_then (write_file (push_path region_dir (lit ''start.kdl'')) scaffold_room) (\<lambda>_.
            and_then (write_file (config_path dir) scaffold_config) (\<lambda>_.
            give (Inr Created)))))) h))"

section \<open>Settings\<close>

datatype log_format = LogText | LogJson
datatype ip_addr = IpV4 u32 | IpV6 "128 word"
datatype socket_addr = SocketAddr (sock_ip: ip_addr) (sock_port: u16)

definition LOCALHOST :: ip_addr where "LOCALHOST = IpV4 0x7F000001"
definition DEFAULT_LISTEN :: socket_addr where "DEFAULT_LISTEN = SocketAddr LOCALHOST 4000"

record settings =
  set_rate :: sustained_rate
  set_burst :: burst
  set_log_format :: log_format
  set_tenants_dir :: path
  set_bind :: ip_addr
  set_base_port :: u16
  set_catalog_path :: path

record overrides =
  ov_rate :: "u32 option"
  ov_burst :: "u32 option"
  ov_log_format :: "log_format option"

record raw_settings =
  rs_rate :: u32
  rs_burst :: u32
  rs_log_format :: log_format
  rs_tenants_dir :: "ustring option"
  rs_bind :: ip_addr
  rs_base_port :: u16

definition default_base_port :: u16 where "default_base_port = 4000"

definition raw_settings_default :: raw_settings where
  "raw_settings_default =
     \<lparr>rs_rate = 10, rs_burst = 20, rs_log_format = LogText, rs_tenants_dir = None,
      rs_bind = LOCALHOST, rs_base_port = default_base_port\<rparr>"

text \<open>\<open>env\<close> is the process environment; figment merges the defaults, the file and the \<open>MUDD_\<close> variables.\<close>

definition default_config_path :: "(ustring \<Rightarrow> ustring option) \<Rightarrow> cli_error + path" where
  "default_config_path env =
     bindE (case env (lit ''XDG_CONFIG_HOME'') of
              Some v \<Rightarrow> Inr (path_of v)
            | None \<Rightarrow> bindE (ok_or (env (lit ''HOME'')) NoHome) (\<lambda>home. Inr (push_path (path_of home) (lit ''.config''))))
       (\<lambda>config_home. Inr (push_path (push_path config_home (lit ''ferrodun'')) (lit ''config.toml'')))"

definition default_tenants_dir :: "(ustring \<Rightarrow> ustring option) \<Rightarrow> cli_error + path" where
  "default_tenants_dir env =
     bindE (case env (lit ''XDG_DATA_HOME'') of
              Some v \<Rightarrow> Inr (path_of v)
            | None \<Rightarrow> bindE (ok_or (env (lit ''HOME'')) NoHome) (\<lambda>home.
                Inr (push_path (push_path (path_of home) (lit ''.local'')) (lit ''share''))))
       (\<lambda>data_home. Inr (push_path (push_path data_home (lit ''ferrodun'')) (lit ''tenants'')))"

definition settings_resolve ::
  "(ustring \<Rightarrow> ustring option) \<Rightarrow> (raw_settings \<Rightarrow> path \<Rightarrow> raw_settings option) \<Rightarrow> path option \<Rightarrow> overrides
    \<Rightarrow> cli_error + settings" where
  "settings_resolve env figment cfg ov =
     bindE (case cfg of Some p \<Rightarrow> Inr p | None \<Rightarrow> default_config_path env) (\<lambda>p.
     bindE (ok_or (figment raw_settings_default p) BadSettings) (\<lambda>raw.
     bindE (case rs_tenants_dir raw of Some d \<Rightarrow> Inr (path_of d) | None \<Rightarrow> default_tenants_dir env) (\<lambda>tenants_dir.
     let catalog_path = push_path (case path_parent p of Some d \<Rightarrow> d | None \<Rightarrow> path_of (lit ''.'')) (lit ''catalog.toml'')
     in Inr \<lparr>set_rate = SustainedRate (case ov_rate ov of Some r \<Rightarrow> r | None \<Rightarrow> rs_rate raw),
           set_burst = Burst (case ov_burst ov of Some b \<Rightarrow> b | None \<Rightarrow> rs_burst raw),
           set_log_format = (case ov_log_format ov of Some f \<Rightarrow> f | None \<Rightarrow> rs_log_format raw),
           set_tenants_dir = tenants_dir, set_bind = rs_bind raw, set_base_port = rs_base_port raw,
           set_catalog_path = catalog_path\<rparr>)))"

record tenant_entry =
  te_dir :: path
  te_listen :: socket_addr
  te_tag :: tenant_tag

record serve_args =
  sa_tenant_dir :: "path option"
  sa_listen :: "socket_addr option"
  sa_overrides :: overrides

definition tenants_from_catalog :: "settings \<Rightarrow> catalog \<Rightarrow> cli_error + tenant_entry list" where
  "tenants_from_catalog s c =
     (if cat_entries c = [] then Inl NoTenants
      else Inr (map (\<lambda>e. \<lparr>te_dir = push_path (set_tenants_dir s) (tenant_name_str (ce_name e)),
                         te_listen = SocketAddr (set_bind s) (ce_port e), te_tag = ce_tag e\<rparr>) (cat_entries c)))"

definition serve_tenants :: "toml_lib \<Rightarrow> settings \<Rightarrow> serve_args \<Rightarrow> tenant_entry list action" where
  "serve_tenants toml s args =
     (case sa_tenant_dir args of
        Some dir \<Rightarrow>
          give (Inr [\<lparr>te_dir = dir, te_listen = (case sa_listen args of Some a \<Rightarrow> a | None \<Rightarrow> DEFAULT_LISTEN),
                      te_tag = TenantTag_default\<rparr>])
      | None \<Rightarrow>
          and_then (catalog_load toml (set_catalog_path s)) (\<lambda>c. give (tenants_from_catalog s c)))"

section \<open>The subcommands\<close>

text \<open>The lines a command reports; a path is shown as its parts between slashes.\<close>

definition show_path :: "path \<Rightarrow> ustring" where
  "show_path p =
     (case p of
        [] \<Rightarrow> []
      | c # cs \<Rightarrow> if c = root_part then root_part @ join (lit ''/'') cs else join (lit ''/'') p)"

definition tenant_dir :: "settings \<Rightarrow> tenant_name \<Rightarrow> path" where
  "tenant_dir s name = push_path (set_tenants_dir s) (tenant_name_str name)"

definition tenant_add :: "toml_lib \<Rightarrow> settings \<Rightarrow> ustring \<Rightarrow> unit action" where
  "tenant_add toml s v =
     and_then (give (TenantName_parse v)) (\<lambda>name.
     and_then (catalog_load toml (set_catalog_path s)) (\<lambda>c.
     case catalog_add c name (set_base_port s) of (r, c1) \<Rightarrow>
     and_then (give r) (\<lambda>entry.
     and_then (ensure_tenant_dir (tenant_dir s name) name) (\<lambda>outcome.
     and_then (catalog_save toml c1 (set_catalog_path s)) (\<lambda>_.
     write_line (lit ''added tenant '' @ tenant_name_str name @ lit '': port '' @ show_nat (unat (ce_port entry)) @
       lit '', tag '' @ show_nat (unat (tag_get (ce_tag entry))) @ lit '', '' @
       (case outcome of Created \<Rightarrow> lit ''created'' | Registered \<Rightarrow> lit ''registered existing folder'') @
       lit '' '' @ show_path (tenant_dir s name)))))))"

text \<open>With \<open>purge\<close>, the folder goes too, once the name has been typed again.\<close>

definition confirm_purge :: "settings \<Rightarrow> tenant_name \<Rightarrow> unit action" where
  "confirm_purge s name =
     and_then (write_line (lit ''This permanently deletes '' @ show_path (tenant_dir s name) @
       lit ''. Type the tenant name to confirm:'')) (\<lambda>_.
     and_then read_line (\<lambda>line.
     give (if trim line \<noteq> tenant_name_str name then Inl (ConfirmationMismatch name) else Inr ())))"

definition tenant_remove :: "toml_lib \<Rightarrow> settings \<Rightarrow> ustring \<Rightarrow> bool \<Rightarrow> unit action" where
  "tenant_remove toml s v purge =
     and_then (give (TenantName_parse v)) (\<lambda>name.
     and_then (catalog_load toml (set_catalog_path s)) (\<lambda>c.
     case catalog_remove c name of (r, c1) \<Rightarrow>
     and_then (give r) (\<lambda>entry.
     and_then (if purge then confirm_purge s name else give (Inr ())) (\<lambda>_.
     and_then (catalog_save toml c1 (set_catalog_path s)) (\<lambda>_.
     and_then (if purge then remove_dir_all (tenant_dir s name) else give (Inr ())) (\<lambda>_.
     write_line (lit ''removed tenant '' @ tenant_name_str name @ lit '': port '' @ show_nat (unat (ce_port entry)) @
       lit '' and tag '' @ show_nat (unat (tag_get (ce_tag entry))) @ lit '' are free for reuse'')))))))"

fun write_lines :: "ustring list \<Rightarrow> unit action" where
  "write_lines [] = give (Inr ())"
| "write_lines (l # ls) = and_then (write_line l) (\<lambda>_. write_lines ls)"

definition tenant_list :: "toml_lib \<Rightarrow> settings \<Rightarrow> unit action" where
  "tenant_list toml s =
     and_then (catalog_load toml (set_catalog_path s)) (\<lambda>c.
     if cat_entries c = [] then write_line (lit ''no tenants registered: run `mudd tenant add <name>`'')
     else write_lines (map (\<lambda>e. tenant_name_str (ce_name e) @ lit ''  port='' @ show_nat (unat (ce_port e)) @
       lit ''  tag='' @ show_nat (unat (tag_get (ce_tag e))) @ lit ''  dir='' @ show_path (tenant_dir s (ce_name e)))
       (cat_entries c)))"

datatype tenant_command = TenantAdd ustring | TenantRemove ustring bool | TenantList

definition run_tenant ::
  "(ustring \<Rightarrow> ustring option) \<Rightarrow> (raw_settings \<Rightarrow> path \<Rightarrow> raw_settings option) \<Rightarrow> toml_lib \<Rightarrow> path option
    \<Rightarrow> tenant_command \<Rightarrow> unit action" where
  "run_tenant env figment toml cfg cmd =
     and_then (give (settings_resolve env figment cfg \<lparr>ov_rate = None, ov_burst = None, ov_log_format = None\<rparr>)) (\<lambda>s.
     case cmd of
       TenantAdd name \<Rightarrow> tenant_add toml s name
     | TenantRemove name purge \<Rightarrow> tenant_remove toml s name purge
     | TenantList \<Rightarrow> tenant_list toml s)"

end
