(* ===== verification/Catalog_Facts.thy ===== *)
theory Catalog_Facts
  imports Catalog
begin

text \<open>
  What the catalogue promises: entries that never collide, the lowest free port and tag for a new
  tenant, a file that is replaced only once the tenant's folder is complete, and a boot registry
  of tenants that share nothing.
\<close>

section \<open>The invariant of the catalogue\<close>

definition name_valid :: "tenant_name \<Rightarrow> bool" where
  "name_valid n \<longleftrightarrow> TenantName_parse (tenant_name_str n) = Inr n"

definition catalog_ok :: "catalog \<Rightarrow> bool" where
  "catalog_ok c \<longleftrightarrow>
     distinct (map ce_name (cat_entries c)) \<and> distinct (map ce_port (cat_entries c)) \<and> distinct (map ce_tag (cat_entries c)) \<and>
     (\<forall>e \<in> set (cat_entries c). name_valid (ce_name e) \<and> 1 \<le> tag_get (ce_tag e) \<and> tag_ok (ce_tag e))"

lemma TenantName_parse_ok: "TenantName_parse v = Inr n \<Longrightarrow> n = TenantName v \<and> name_valid n"
  by (auto simp: TenantName_parse_def name_valid_def Let_def split: if_splits)

lemma catalog_ok_default: "catalog_ok catalog_default"
  by (simp add: catalog_ok_def catalog_default_def)

lemma deserialize_rows_valid: "deserialize_rows rows = Inr raw \<Longrightarrow> \<forall>r \<in> set raw. name_valid (re_name r)"
proof (induction rows arbitrary: raw rule: deserialize_rows.induct)
  case (2 n p t rows)
  then obtain name es where "TenantName_parse n = Inr name" "deserialize_rows rows = Inr es"
      "raw = \<lparr>re_name = name, re_port = p, re_tag = t\<rparr> # es"
    by auto
  with 2 TenantName_parse_ok show ?case by simp
qed simp

lemma tag_of_row:
  "(if t \<ge> 1 then map_err f (TenantTag_new t) else Inl x) = Inr tag \<longleftrightarrow>
     tag = TenantTag t \<and> 1 \<le> tag_get tag \<and> tag_ok tag"
  by (auto simp: TenantTag_new_def tag_ok_def)

lemma check_rows_ok:
  assumes "check_rows names ports tags raw = Inr es" and "\<forall>r \<in> set raw. name_valid (re_name r)"
  shows "catalog_ok \<lparr>cat_entries = es\<rparr> \<and>
    ce_name ` set es \<inter> names = {} \<and> ce_port ` set es \<inter> ports = {} \<and> ce_tag ` set es \<inter> tags = {}"
  using assms
proof (induction raw arbitrary: names ports tags es)
  case (Cons r raw)
  then obtain tag es' where *: "tag = TenantTag (re_tag r)" "1 \<le> tag_get tag" "tag_ok tag"
      "re_name r \<notin> names" "re_port r \<notin> ports" "tag \<notin> tags"
      "check_rows (insert (re_name r) names) (insert (re_port r) ports) (insert tag tags) raw = Inr es'"
      "es = \<lparr>ce_name = re_name r, ce_port = re_port r, ce_tag = tag\<rparr> # es'"
    by (auto simp: tag_of_row split: if_splits)
  from Cons.IH [OF *(7)] Cons.prems(2) *(2-6) show ?case
    by (auto simp: catalog_ok_def *(8))
qed (simp add: catalog_ok_def)

lemma and_then_Inr:
  "and_then m f h = (Inr y, h') \<longleftrightarrow> (\<exists>x h1. m h = (Inr x, h1) \<and> f x h1 = (Inr y, h'))"
  by (auto simp: and_then_def split: prod.splits sum.splits)

lemma give_eq [simp]: "give r h = (r', h') \<longleftrightarrow> r = r' \<and> h = h'"
  by (auto simp: give_def)

lemma read_keeps_fs: "host_fs (snd (read_to_string p h)) = host_fs h"
  by (simp add: read_to_string_def io_call_def split: list.splits)

lemma catalog_load_keeps_fs: "host_fs (snd (catalog_load toml p h)) = host_fs h"
  using read_keeps_fs [of p h]
  by (auto simp: catalog_load_def and_then_def give_def split: prod.splits sum.splits)

text \<open>A catalogue that loads is well formed, whoever wrote the file.\<close>

lemma catalog_load_ok: "catalog_load toml p h = (Inr c, h') \<Longrightarrow> catalog_ok c"
  by (auto simp: catalog_load_def and_then_Inr catalog_ok_default split: if_splits
      dest!: check_rows_ok [OF _ deserialize_rows_valid])

section \<open>Assignment\<close>

lemma find_map_filter_upt:
  assumes "find P (map f [m..<n]) = Some x"
  shows "\<exists>k. m \<le> k \<and> k < n \<and> x = f k \<and> P x \<and> (\<forall>j. m \<le> j \<and> j < k \<longrightarrow> \<not> P (f j))"
proof -
  obtain i where i: "i < n - m" "P (map f [m..<n] ! i)" "x = map f [m..<n] ! i" "\<forall>j<i. \<not> P (map f [m..<n] ! j)"
    using assms by (auto simp: find_Some_iff)
  moreover have "\<not> P (f j)" if "m \<le> j" "j < m + i" for j
    using i(1,4) that spec [OF i(4), of "j - m"] by simp
  ultimately show ?thesis by (intro exI [of _ "m + i"]) auto
qed

lemma find_upt_first: "m < n \<Longrightarrow> P (f m) \<Longrightarrow> find P (map f [m..<n]) = Some (f m)"
  by (simp add: upt_conv_Cons)

lemma free_port_Some:
  assumes "free_port base es = Some p"
  shows "base \<le> p \<and> p \<notin> ce_port ` set es \<and> (\<forall>q. base \<le> q \<and> q < p \<longrightarrow> q \<in> ce_port ` set es)"
proof -
  obtain k where k: "unat base \<le> k" "k < 2 ^ 16" "p = of_nat k" "p \<notin> ce_port ` set es"
      "\<forall>j. unat base \<le> j \<and> j < k \<longrightarrow> of_nat j \<in> ce_port ` set es"
    using find_map_filter_upt [OF assms [unfolded free_port_def]] by blast
  have u: "unat p = k" using k(2,3) by (simp add: unsigned_of_nat take_bit_nat_eq_self)
  have "q \<in> ce_port ` set es" if "base \<le> q" "q < p" for q
    using spec [OF k(5), of "unat q"] that u by (simp add: word_le_nat_alt word_less_nat_alt)
  then show ?thesis using k u by (simp add: word_le_nat_alt)
qed

lemma free_port_None: "free_port base es = None \<longleftrightarrow> (\<forall>p. base \<le> p \<longrightarrow> p \<in> ce_port ` set es)"
proof
  assume n: "free_port base es = None"
  show "\<forall>p. base \<le> p \<longrightarrow> p \<in> ce_port ` set es"
  proof (intro allI impI)
    fix p :: u16 assume "base \<le> p"
    moreover have "unat p < 2 ^ LENGTH(16)" by (rule unsigned_less)
    ultimately have "unat p \<in> {unat base..<2 ^ 16}" by (simp add: word_le_nat_alt)
    then show "p \<in> ce_port ` set es"
      using n by (auto simp: free_port_def find_None_iff dest: bspec [of _ _ "unat p"])
  qed
next
  assume a: "\<forall>p. base \<le> p \<longrightarrow> p \<in> ce_port ` set es"
  have "base \<le> of_nat k" if "unat base \<le> k" "k < 2 ^ 16" for k
    using that by (simp add: word_le_nat_alt unsigned_of_nat take_bit_nat_eq_self)
  with a show "free_port base es = None" by (auto simp: free_port_def find_None_iff)
qed

lemma map_filter_total: "(\<And>x. x \<in> set xs \<Longrightarrow> f x = Some (g x)) \<Longrightarrow> List.map_filter f xs = map g xs"
  by (induction xs) (auto simp: map_filter_simps)

lemma tag_candidates:
  "List.map_filter (\<lambda>n. case TenantTag_new (of_nat n) of Inr t \<Rightarrow> Some t | Inl _ \<Rightarrow> None) [1..<Suc (unat TenantTag_MAX)] =
   map (\<lambda>n. TenantTag (of_nat n)) [1..<Suc (unat TenantTag_MAX)]"
proof (rule map_filter_total)
  fix n assume n: "n \<in> set [1..<Suc (unat TenantTag_MAX)]"
  have "unat TenantTag_MAX = 4095" by (simp add: TenantTag_MAX_def TENANT_BITS_def)
  with n have "n < 4096" by auto
  then have "(of_nat n :: u16) \<le> TenantTag_MAX"
    by (simp add: TenantTag_MAX_def TENANT_BITS_def word_le_nat_alt unsigned_of_nat take_bit_nat_eq_self)
  then show "(case TenantTag_new (of_nat n) of Inr t \<Rightarrow> Some t | Inl _ \<Rightarrow> None) = Some (TenantTag (of_nat n))"
    by (simp add: TenantTag_new_def)
qed

lemma free_tag_Some:
  assumes "free_tag es = Some t"
  shows "1 \<le> tag_get t \<and> tag_ok t \<and> t \<notin> ce_tag ` set es \<and>
    (\<forall>u. 1 \<le> tag_get u \<and> tag_get u < tag_get t \<longrightarrow> u \<in> ce_tag ` set es)"
proof -
  have m: "unat TenantTag_MAX = 4095" by (simp add: TenantTag_MAX_def TENANT_BITS_def)
  obtain k where k: "1 \<le> k" "k < 4096" "t = TenantTag (of_nat k)" "t \<notin> ce_tag ` set es"
      "\<forall>j. 1 \<le> j \<and> j < k \<longrightarrow> TenantTag (of_nat j) \<in> ce_tag ` set es"
    using find_map_filter_upt [OF assms [unfolded free_tag_def tag_candidates]] by (auto simp: m)
  have u: "unat (tag_get t) = k" using k(2,3) by (simp add: unsigned_of_nat take_bit_nat_eq_self)
  have "v \<in> ce_tag ` set es" if "1 \<le> tag_get v" "tag_get v < tag_get t" for v
    using spec [OF k(5), of "unat (tag_get v)"] that u by (simp add: word_le_nat_alt word_less_nat_alt)
  then show ?thesis using k u m by (simp add: tag_ok_def word_le_nat_alt)
qed

lemma catalog_add_Inr:
  assumes "catalog_ok c" and "name_valid name" and "catalog_add c name base = (Inr e, c1)"
  shows "catalog_ok c1 \<and> cat_entries c1 = cat_entries c @ [e] \<and> ce_name e = name \<and>
    free_port base (cat_entries c) = Some (ce_port e) \<and> free_tag (cat_entries c) = Some (ce_tag e) \<and>
    (\<forall>f \<in> set (cat_entries c). ce_name f \<noteq> name)"
proof -
  have "\<not> list_ex (\<lambda>f. ce_name f = name) (cat_entries c)" using assms(3) by (auto simp: catalog_add_def split: if_splits)
  then obtain p t where "free_port base (cat_entries c) = Some p" "free_tag (cat_entries c) = Some t"
      "e = \<lparr>ce_name = name, ce_port = p, ce_tag = t\<rparr>" "c1 = \<lparr>cat_entries = cat_entries c @ [e]\<rparr>"
      "\<forall>f \<in> set (cat_entries c). ce_name f \<noteq> name"
    using assms(3) by (auto simp: catalog_add_def Let_def list_ex_iff split: option.splits)
  with assms(1,2) free_port_Some free_tag_Some show ?thesis by (fastforce simp: catalog_ok_def)
qed

lemma catalog_remove_Inr:
  assumes "catalog_remove c name = (Inr e, c1)"
  shows "\<exists>before after. cat_entries c = before @ e # after \<and> cat_entries c1 = before @ after \<and> ce_name e = name"
proof (cases "dropWhile (\<lambda>e. ce_name e \<noteq> name) (cat_entries c)")
  case (Cons f rest)
  then have "e = f" "c1 = \<lparr>cat_entries = takeWhile (\<lambda>e. ce_name e \<noteq> name) (cat_entries c) @ rest\<rparr>"
    using assms by (simp_all add: catalog_remove_def)
  moreover have "ce_name f = name" using Cons hd_dropWhile [of "\<lambda>e. ce_name e \<noteq> name" "cat_entries c"] by simp
  moreover have "cat_entries c = takeWhile (\<lambda>e. ce_name e \<noteq> name) (cat_entries c) @ f # rest"
    using Cons takeWhile_dropWhile_id [of "\<lambda>e. ce_name e \<noteq> name" "cat_entries c"] by simp
  ultimately show ?thesis by auto
next
  case Nil
  with assms show ?thesis unfolding catalog_remove_def Nil by simp
qed

lemma catalog_remove_ok:
  assumes "catalog_ok c" and "catalog_remove c name = (Inr e, c1)"
  shows "catalog_ok c1"
  using catalog_remove_Inr [OF assms(2)] assms(1) by (auto simp: catalog_ok_def)

section \<open>The file\<close>

lemma deserialize_serialize:
  assumes "catalog_ok c"
  shows "deserialize_rows (serialize_rows c) =
    Inr (map (\<lambda>e. \<lparr>re_name = ce_name e, re_port = ce_port e, re_tag = tag_get (ce_tag e)\<rparr>) (cat_entries c))"
proof -
  have "\<forall>e \<in> set es. name_valid (ce_name e) \<Longrightarrow>
      deserialize_rows (serialize_rows \<lparr>cat_entries = es\<rparr>) =
        Inr (map (\<lambda>e. \<lparr>re_name = ce_name e, re_port = ce_port e, re_tag = tag_get (ce_tag e)\<rparr>) es)" for es
    by (induction es) (auto simp: serialize_rows_def name_valid_def)
  from this [of "cat_entries c"] assms show ?thesis by (simp add: catalog_ok_def serialize_rows_def)
qed

lemma check_rows_serialized:
  assumes "catalog_ok \<lparr>cat_entries = es\<rparr>"
    and "ce_name ` set es \<inter> names = {}" "ce_port ` set es \<inter> ports = {}" "ce_tag ` set es \<inter> tags = {}"
  shows "check_rows names ports tags
    (map (\<lambda>e. \<lparr>re_name = ce_name e, re_port = ce_port e, re_tag = tag_get (ce_tag e)\<rparr>) es) = Inr es"
  using assms
proof (induction es arbitrary: names ports tags)
  case (Cons e es)
  have t: "1 \<le> tag_get (ce_tag e)" "tag_ok (ce_tag e)" using Cons.prems(1) by (simp_all add: catalog_ok_def)
  have "check_rows (insert (ce_name e) names) (insert (ce_port e) ports) (insert (ce_tag e) tags)
      (map (\<lambda>e. \<lparr>re_name = ce_name e, re_port = ce_port e, re_tag = tag_get (ce_tag e)\<rparr>) es) = Inr es"
    by (rule Cons.IH) (use Cons.prems in \<open>auto simp: catalog_ok_def\<close>)
  moreover have "TenantTag_new (tag_get (ce_tag e)) = Inr (ce_tag e)" using t by (simp add: TenantTag_new_def tag_ok_def)
  ultimately show ?case using Cons.prems t by simp
qed simp

text \<open>What a save of \<open>c\<close> writes is loaded as \<open>c\<close>, as long as the TOML library reads back its own output.\<close>

lemma catalog_file_loads:
  assumes "catalog_ok c" and "toml_write toml (serialize_rows c) = Some text"
    and "toml_read toml text = Some (serialize_rows c)"
    and "host_fs h p = Some (PlainFile text)" and "host_io h = []"
  shows "catalog_load toml p h = (Inr c, h)"
proof -
  have "catalog_ok \<lparr>cat_entries = cat_entries c\<rparr>" using assms(1) by (simp add: catalog_ok_def)
  from check_rows_serialized [OF this, of "{}" "{}" "{}"] assms deserialize_serialize [OF assms(1)] show ?thesis
    by (cases c) (simp add: catalog_load_def path_exists_def and_then_def read_to_string_def io_call_def give_def)
qed

section \<open>Paths and folders\<close>

lemma components_name: "name_valid n \<Longrightarrow> components (tenant_name_str n) = [tenant_name_str n]"
  "name_valid n \<Longrightarrow> \<not> is_absolute (tenant_name_str n)"
proof -
  assume v: "name_valid n"
  obtain c cs where n: "tenant_name_str n = c # cs" "name_start c" "list_all name_rest cs"
    using v by (cases "tenant_name_str n") (auto simp: name_valid_def TenantName_parse_def Let_def split: if_splits)
  have slash: "\<not> name_start (ch CHR ''/'')" "\<not> name_rest (ch CHR ''/'')" "\<not> name_start (ch CHR ''.'')"
    by (simp_all add: name_start_def name_rest_def is_ascii_lower_def is_ascii_digit_def)
  with n(2,3) have sep: "ch CHR ''/'' \<notin> set (c # cs)" by (auto simp: list_all_iff)
  have "c # cs \<noteq> lit ''.''" using n(2) slash(3) by (auto simp: lit_def)
  then show "components (tenant_name_str n) = [tenant_name_str n]"
    by (simp only: components_def n(1) split_on_no_sep [OF sep]) simp
  show "\<not> is_absolute (tenant_name_str n)" using n(1) sep by (auto simp: is_absolute_def)
qed

lemma tenant_dir_eq: "name_valid n \<Longrightarrow> tenant_dir s n = set_tenants_dir s @ [tenant_name_str n]"
  by (simp add: tenant_dir_def push_path_def components_name)

lemma push_fixed:
  "push_path d (lit ''world'') = d @ [lit ''world'']" "push_path d (lit ''start'') = d @ [lit ''start'']"
  "push_path d (lit ''welcome.kdl'') = d @ [lit ''welcome.kdl'']" "push_path d (lit ''region.kdl'') = d @ [lit ''region.kdl'']"
  "push_path d (lit ''start.kdl'') = d @ [lit ''start.kdl'']" "push_path d (lit ''config.toml'') = d @ [lit ''config.toml'']"
  "push_path d (lit ''catalog.toml'') = d @ [lit ''catalog.toml'']"
  by (simp_all add: push_path_def is_absolute_def components_def lit_def)

lemma in_above: "q \<in> set (above p) \<longleftrightarrow> prefix q p \<and> q \<noteq> [] \<and> q \<noteq> [root_part]"
  by (simp add: above_def)

section \<open>What a call leaves\<close>

lemma io_callD:
  assumes "io_call f h = y"
  obtains o' h0 where "f o' h0 = y" "host_fs h0 = host_fs h" "host_io h = [] \<Longrightarrow> o' = IoOk \<and> h0 = h"
  using assms that by (cases "host_io h") (fastforce simp: io_call_def)+

lemma is_folder_fs: "host_fs h0 = host_fs h \<Longrightarrow> is_folder h0 p = is_folder h p"
  by (simp add: is_folder_def)

lemma write_file_cases:
  assumes "write_file p t h = (r, h1)"
  shows "(r = Inr () \<and> host_fs h1 = (host_fs h)(p \<mapsto> PlainFile t)) \<or>
    (r = Inl CliIo \<and> (host_fs h1 = host_fs h \<or> (\<exists>n. host_fs h1 = (host_fs h)(p \<mapsto> PlainFile (take n t)))))"
proof -
  obtain o' h0 where o: "(if p = [] \<or> \<not> is_folder h0 (butlast p) \<or> is_folder h0 p then (Inl CliIo, h0)
       else (case o' of
               IoOk \<Rightarrow> (Inr (), h0\<lparr>host_fs := (host_fs h0)(p \<mapsto> PlainFile t)\<rparr>)
             | IoShort n \<Rightarrow> (Inl CliIo, h0\<lparr>host_fs := (host_fs h0)(p \<mapsto> PlainFile (take n t))\<rparr>)
             | _ \<Rightarrow> (Inl CliIo, h0))) = (r, h1)" "host_fs h0 = host_fs h"
    using io_callD [OF assms [unfolded write_file_def]] by blast
  then show ?thesis by (cases o') (auto split: if_splits)
qed

lemma create_dir_all_cases:
  assumes "create_dir_all p h = (r, h1)"
  shows "\<exists>ps. set ps \<subseteq> set (above p) \<and> host_fs h1 = (\<lambda>q. if q \<in> set ps then Some Folder else host_fs h q) \<and>
    (r = Inr () \<longrightarrow> p = [] \<or> ps = above p)"
proof (cases "p = []")
  case True
  with assms show ?thesis by (intro exI [of _ "[]"]) (auto simp: create_dir_all_def)
next
  case False
  obtain o' h0 where o: "(if list_ex (\<lambda>q. \<not> is_folder h0 q \<and> host_fs h0 q \<noteq> None) (above p) then (Inl CliIo, h0)
        else (case o' of
                IoOk \<Rightarrow> (Inr (), make_folders (above p) h0)
              | IoShort n \<Rightarrow> (Inl CliIo, make_folders (take n (above p)) h0)
              | _ \<Rightarrow> (Inl CliIo, h0))) = (r, h1)" "host_fs h0 = host_fs h"
    using io_callD [OF assms [unfolded create_dir_all_def if_not_P [OF False]]] by blast
  define bad where "bad \<longleftrightarrow> list_ex (\<lambda>q. \<not> is_folder h0 q \<and> host_fs h0 q \<noteq> None) (above p)"
  have "(\<exists>ps. set ps \<subseteq> set (above p) \<and> h1 = make_folders ps h0 \<and> (r = Inr () \<longrightarrow> ps = above p)) \<or> (h1 = h0 \<and> r = Inl CliIo)"
    using o(1) unfolding bad_def [symmetric] by (cases o') (auto split: if_splits dest: in_set_takeD)
  then show ?thesis
  proof (elim disjE exE conjE)
    fix ps assume "set ps \<subseteq> set (above p)" "h1 = make_folders ps h0" "r = Inr () \<longrightarrow> ps = above p"
    then show ?thesis using o(2) by (intro exI [of _ ps]) (auto simp: make_folders_def)
  qed (use o(2) in \<open>simp add: exI [of _ "[]"]\<close>)
qed

lemma and_then_cases:
  assumes "and_then m f h = (r, h2)"
  obtains (failed) e where "m h = (Inl e, h2)" "r = Inl e"
    | (went_on) x h1 where "m h = (Inr x, h1)" "f x h1 = (r, h2)"
  using assms by (auto simp: and_then_def split: prod.splits sum.splits)

text \<open>A scaffold touches only the folder and what is above it, and leaves a configuration when it succeeds.\<close>

definition untouched :: "path \<Rightarrow> path set \<Rightarrow> host \<Rightarrow> host \<Rightarrow> bool" where
  "untouched dir qs h h1 \<longleftrightarrow> (\<forall>q. \<not> prefix dir q \<and> q \<notin> qs \<longrightarrow> host_fs h1 q = host_fs h q)"

lemma untouched_trans: "untouched d qs h h1 \<Longrightarrow> untouched d qs h1 h2 \<Longrightarrow> untouched d qs h h2"
  by (simp add: untouched_def)

lemma write_file_untouched: "write_file (d @ p) t h = (r, h1) \<Longrightarrow> untouched d qs h h1"
  by (drule write_file_cases) (auto simp: untouched_def)

lemma scaffold_writes:
  assumes "and_then (write_file (d @ p) t) f h = (r, h2)"
    and "\<And>h1. f () h1 = (r, h2) \<Longrightarrow> untouched d qs h1 h2 \<and> (r = Inr y \<longrightarrow> Q)"
  shows "untouched d qs h h2 \<and> (r = Inr y \<longrightarrow> Q)"
  using assms(1)
proof (cases rule: and_then_cases)
  case (failed e)
  with write_file_untouched [of d p t h _ h2 qs] show ?thesis by simp
next
  case (went_on x h1)
  with assms(2) [of h1] write_file_untouched [of d p t h _ h1 qs] untouched_trans [of d qs h h1 h2]
  show ?thesis by auto
qed

lemma ensure_tenant_dir_effect:
  assumes "ensure_tenant_dir dir name h = (r, h1)"
  shows "untouched dir (set (above (dir @ [lit ''world'', lit ''start'']))) h h1 \<and>
    (r = Inr sc \<longrightarrow> path_exists h1 (config_path dir))"
proof (cases "path_exists h dir")
  case True
  with assms show ?thesis by (auto simp: ensure_tenant_dir_def untouched_def split: if_splits)
next
  case False
  let ?qs = "set (above (dir @ [lit ''world'', lit ''start'']))"
  have last: "untouched dir ?qs g h1 \<and> (r = Inr sc \<longrightarrow> path_exists h1 (config_path dir))"
    if "and_then (write_file (dir @ [lit ''config.toml'']) scaffold_config) (\<lambda>_. give (Inr Created)) g = (r, h1)" for g
    using that
  proof (cases rule: and_then_cases)
    case (failed e)
    with write_file_untouched [of dir "[lit ''config.toml'']" _ g _ h1] show ?thesis by simp
  next
    case (went_on x g1)
    with write_file_untouched [OF went_on(1)] write_file_cases [OF went_on(1)]
    show ?thesis by (auto simp: config_path_def push_fixed path_exists_def)
  qed
  have writes: "untouched dir ?qs g h1 \<and> (r = Inr sc \<longrightarrow> path_exists h1 (config_path dir))"
    if "and_then (write_file (dir @ [lit ''welcome.kdl'']) (scaffold_banner name)) (\<lambda>_.
        and_then (write_file (dir @ [lit ''world'', lit ''start'', lit ''region.kdl'']) scaffold_region) (\<lambda>_.
        and_then (write_file (dir @ [lit ''world'', lit ''start'', lit ''start.kdl'']) scaffold_room) (\<lambda>_.
        and_then (write_file (dir @ [lit ''config.toml'']) scaffold_config) (\<lambda>_. give (Inr Created))))) g = (r, h1)" for g
    using that by - (erule scaffold_writes last)+
  from assms False have "and_then (create_dir_all (dir @ [lit ''world'', lit ''start''])) (\<lambda>_.
      and_then (write_file (dir @ [lit ''welcome.kdl'']) (scaffold_banner name)) (\<lambda>_.
        and_then (write_file (dir @ [lit ''world'', lit ''start'', lit ''region.kdl'']) scaffold_region) (\<lambda>_.
        and_then (write_file (dir @ [lit ''world'', lit ''start'', lit ''start.kdl'']) scaffold_room) (\<lambda>_.
        and_then (write_file (dir @ [lit ''config.toml'']) scaffold_config) (\<lambda>_. give (Inr Created)))))) h = (r, h1)"
    by (simp add: ensure_tenant_dir_def Let_def push_fixed config_path_def)
  then show ?thesis
  proof (cases rule: and_then_cases)
    case (failed e)
    with create_dir_all_cases [of "dir @ [lit ''world'', lit ''start'']" h _ h1] show ?thesis by (auto simp: untouched_def)
  next
    case (went_on x g)
    have "untouched dir ?qs h g"
      using create_dir_all_cases [OF went_on(1)] by (auto simp: untouched_def)
    with writes [OF went_on(2)] show ?thesis by (auto intro: untouched_trans)
  qed
qed

lemma write_line_fs: "write_line t h = (r, h1) \<Longrightarrow> host_fs h1 = host_fs h"
proof -
  assume w: "write_line t h = (r, h1)"
  obtain o' h0 where "(case o' of
         IoOk \<Rightarrow> (Inr (), h0\<lparr>host_out := host_out h0 @ [t]\<rparr>)
       | IoShort n \<Rightarrow> (Inl CliIo, h0\<lparr>host_out := host_out h0 @ [take n t]\<rparr>)
       | _ \<Rightarrow> (Inl CliIo, h0)) = (r, h1)" "host_fs h0 = host_fs h"
    using io_callD [OF w [unfolded write_line_def]] by blast
  then show ?thesis by (cases o') auto
qed

text \<open>A save replaces the file, or some prefix of the new text is all that is left of it, or it does nothing to it.\<close>

lemma catalog_save_effect:
  assumes "catalog_save toml c p h = (r, h2)"
  shows "(host_fs h2 p = host_fs h p \<and> r \<noteq> Inr () \<or>
      (\<exists>text n. toml_write toml (serialize_rows c) = Some text \<and> host_fs h2 p = Some (PlainFile (take n text)) \<and>
         (r = Inr () \<longrightarrow> take n text = text))) \<and>
    (\<forall>q. q \<noteq> p \<and> \<not> strict_prefix q p \<longrightarrow> host_fs h2 q = host_fs h q) \<and>
    (\<forall>q. host_fs h q \<noteq> None \<longrightarrow> host_fs h2 q \<noteq> None)"
  using assms unfolding catalog_save_def
proof (cases rule: and_then_cases)
  case (went_on tx h0)
  then have tw: "toml_write toml (serialize_rows c) = Some tx" and h0: "h0 = h" by auto
  let ?dirs = "case path_parent p of Some parent \<Rightarrow> create_dir_all parent | None \<Rightarrow> give (Inr ())"
  have made: "host_fs g p = host_fs h p \<and> (\<forall>q. \<not> strict_prefix q p \<longrightarrow> host_fs g q = host_fs h q) \<and>
      (\<forall>q. host_fs h q \<noteq> None \<longrightarrow> host_fs g q \<noteq> None)" if g: "?dirs h = (rd, g)" for rd g
  proof (cases "path_parent p")
    case (Some d)
    then have d: "d = butlast p" "p \<noteq> []" by (auto simp: path_parent_def split: if_splits)
    obtain ps where ps: "set ps \<subseteq> set (above d)" "host_fs g = (\<lambda>q. if q \<in> set ps then Some Folder else host_fs h q)"
      using create_dir_all_cases [of d h rd g] g Some by auto
    have "strict_prefix q p" if "q \<in> set (above d)" for q
    proof -
      have "strict_prefix (butlast p) p" using d(2) by (metis append_butlast_last_id strict_prefixI' )
      then show ?thesis using that d(1) by (metis in_above prefix_order.le_less_trans)
    qed
    with ps show ?thesis by auto
  qed (use g in simp)
  from went_on(2) h0 have "and_then ?dirs (\<lambda>_. write_file p tx) h = (r, h2)" by simp
  then show ?thesis
  proof (cases rule: and_then_cases)
    case (failed e)
    with made [OF failed(1)] show ?thesis by auto
  next
    case (went_on u g)
    from write_file_cases [OF went_on(2)] show ?thesis
    proof (elim disjE conjE exE)
      assume "r = Inr ()" "host_fs h2 = (host_fs g)(p \<mapsto> PlainFile tx)"
      with made [OF went_on(1)] tw show ?thesis by (auto intro: exI [of _ "length tx"])
    next
      fix n assume "r = Inl CliIo" "host_fs h2 = (host_fs g)(p \<mapsto> PlainFile (take n tx))"
      with made [OF went_on(1)] tw show ?thesis by auto
    qed (use made [OF went_on(1)] in auto)
  qed
qed auto

section \<open>The commands\<close>

lemma save_then_line:
  assumes "and_then (catalog_save toml c P) (\<lambda>_. write_line t) h = (r, h')" and "path_exists h q"
  shows "host_fs h' P = host_fs h P \<and> r \<noteq> Inr () \<or>
    (\<exists>text n. toml_write toml (serialize_rows c) = Some text \<and> path_exists h' q \<and>
       host_fs h' P = Some (PlainFile (take n text)) \<and> (r = Inr () \<longrightarrow> take n text = text))"
proof -
  obtain sr h3 where sv: "catalog_save toml c P h = (sr, h3)" by fastforce
  have saved: "path_exists h3 q"
    using assms(2) catalog_save_effect [OF sv] by (auto simp: path_exists_def)
  have same: "(sr = Inr () \<or> r \<noteq> Inr ()) \<and> host_fs h' = host_fs h3"
    using assms(1) by (rule and_then_cases) (use sv in \<open>auto dest: write_line_fs\<close>)
  with saved have there: "path_exists h' q" by (simp add: path_exists_def)
  from conjunct1 [OF catalog_save_effect [OF sv]] show ?thesis
  proof (elim disjE exE conjE)
    assume "host_fs h3 P = host_fs h P" "sr \<noteq> Inr ()"
    with same show ?thesis by simp
  next
    fix tx n assume t: "toml_write toml (serialize_rows c) = Some tx" "host_fs h3 P = Some (PlainFile (take n tx))"
      "sr = Inr () \<longrightarrow> take n tx = tx"
    have "r = Inr () \<longrightarrow> take n tx = tx" using t(3) same by blast
    with there t(1,2) same show ?thesis by (intro disjI2 exI conjI) simp_all
  qed
qed



lemma free_tag_None: "free_tag es = None \<longleftrightarrow> (\<forall>t. 1 \<le> tag_get t \<and> tag_ok t \<longrightarrow> t \<in> ce_tag ` set es)"
proof
  have m: "unat TenantTag_MAX = 4095" by (simp add: TenantTag_MAX_def TENANT_BITS_def)
  assume n: "free_tag es = None"
  show "\<forall>t. 1 \<le> tag_get t \<and> tag_ok t \<longrightarrow> t \<in> ce_tag ` set es"
  proof (intro allI impI)
    fix t assume "1 \<le> tag_get t \<and> tag_ok t"
    then have "unat (tag_get t) \<in> {1..<Suc (unat TenantTag_MAX)}" by (simp add: tag_ok_def word_le_nat_alt)
    then show "t \<in> ce_tag ` set es"
      using n unfolding free_tag_def tag_candidates
      by (auto simp: find_None_iff simp del: upt_Suc dest!: bspec [of _ _ "unat (tag_get t)"])
  qed
next
  assume a: "\<forall>t. 1 \<le> tag_get t \<and> tag_ok t \<longrightarrow> t \<in> ce_tag ` set es"
  have m: "unat TenantTag_MAX = 4095" by (simp add: TenantTag_MAX_def TENANT_BITS_def)
  have "1 \<le> (of_nat k :: u16) \<and> tag_ok (TenantTag (of_nat k))" if "1 \<le> k" "k < 4096" for k
    using that m by (simp add: tag_ok_def word_le_nat_alt unsigned_of_nat take_bit_nat_eq_self)
  with a m show "free_tag es = None"
    unfolding free_tag_def tag_candidates by (auto simp: find_None_iff simp del: upt_Suc)
qed

text \<open>
  C38. A new tenant is registered exactly when its name is free, a port from the base port up is free and
  one of the 4095 tags is; it gets the lowest free port and the lowest free tag, joins at the end of a
  catalogue that stays well formed, and removing it gives the old catalogue back.
\<close>

theorem catalog_assigns_lowest:
  assumes "catalog_ok c" and "TenantName_parse v = Inr name"
  shows "(is_ok (fst (catalog_add c name base)) \<longleftrightarrow>
      (\<forall>f \<in> set (cat_entries c). ce_name f \<noteq> name) \<and> (\<exists>p \<ge> base. p \<notin> ce_port ` set (cat_entries c)) \<and>
      (\<exists>t. 1 \<le> tag_get t \<and> tag_ok t \<and> t \<notin> ce_tag ` set (cat_entries c))) \<and>
    (\<forall>e c1. catalog_add c name base = (Inr e, c1) \<longrightarrow>
      catalog_ok c1 \<and> cat_entries c1 = cat_entries c @ [e] \<and> ce_name e = name \<and>
      base \<le> ce_port e \<and> (\<forall>p. base \<le> p \<and> p < ce_port e \<longrightarrow> p \<in> ce_port ` set (cat_entries c)) \<and>
      (\<forall>t. 1 \<le> tag_get t \<and> tag_get t < tag_get (ce_tag e) \<longrightarrow> t \<in> ce_tag ` set (cat_entries c)) \<and>
      catalog_remove c1 name = (Inr e, c))"
proof (intro conjI allI impI)
  show "is_ok (fst (catalog_add c name base)) \<longleftrightarrow>
      (\<forall>f \<in> set (cat_entries c). ce_name f \<noteq> name) \<and> (\<exists>p \<ge> base. p \<notin> ce_port ` set (cat_entries c)) \<and>
      (\<exists>t. 1 \<le> tag_get t \<and> tag_ok t \<and> t \<notin> ce_tag ` set (cat_entries c))"
    using free_port_None [of base "cat_entries c"] free_tag_None [of "cat_entries c"]
    by (auto simp: catalog_add_def list_ex_iff Let_def split: option.splits)
next
  fix e c1 assume "catalog_add c name base = (Inr e, c1)"
  note add = catalog_add_Inr [OF assms(1) conjunct2 [OF TenantName_parse_ok [OF assms(2)]] this]
  then show "catalog_ok c1" "cat_entries c1 = cat_entries c @ [e]" "ce_name e = name" by simp_all
  show "base \<le> ce_port e" "\<And>p. base \<le> p \<and> p < ce_port e \<Longrightarrow> p \<in> ce_port ` set (cat_entries c)"
    using add free_port_Some by blast+
  show "\<And>t. 1 \<le> tag_get t \<and> tag_get t < tag_get (ce_tag e) \<Longrightarrow> t \<in> ce_tag ` set (cat_entries c)"
    using add free_tag_Some by blast
  have "\<forall>f \<in> set (cat_entries c). ce_name f \<noteq> name" using add by blast
  then show "catalog_remove c1 name = (Inr e, c)"
    using add by (cases c) (simp add: catalog_remove_def dropWhile_append2 takeWhile_append2)
qed

lemma catalog_assigns_lowest_witness:
  "let c = \<lparr>cat_entries = [\<lparr>ce_name = TenantName (lit ''b''), ce_port = 4001, ce_tag = TenantTag 2\<rparr>]\<rparr>;
       e = \<lparr>ce_name = TenantName (lit ''a''), ce_port = 4000, ce_tag = TenantTag 1\<rparr>
   in catalog_remove \<lparr>cat_entries = cat_entries c @ [e]\<rparr> (TenantName (lit ''a'')) = (Inr e, c)"
proof -
  let ?c = "\<lparr>cat_entries = [\<lparr>ce_name = TenantName (lit ''b''), ce_port = 4001, ce_tag = TenantTag 2\<rparr>]\<rparr>"
  let ?e = "\<lparr>ce_name = TenantName (lit ''a''), ce_port = 4000, ce_tag = TenantTag 1\<rparr>"
  have m: "TenantTag_MAX = 4095" by (simp add: TenantTag_MAX_def TENANT_BITS_def)
  have n: "TenantName_parse (lit ''a'') = Inr (TenantName (lit ''a''))" "TenantName_parse (lit ''b'') = Inr (TenantName (lit ''b''))"
    by (simp_all add: TenantName_parse_def lit_def name_start_def is_ascii_lower_def)
  have ok: "catalog_ok ?c" using n(2) by (simp add: catalog_ok_def name_valid_def tag_ok_def TenantTag_MAX_def TENANT_BITS_def)
  have "free_port 4000 (cat_entries ?c) = Some (of_nat (unat (4000 :: u16)))"
    unfolding free_port_def by (rule find_upt_first) simp_all
  then have p: "free_port 4000 (cat_entries ?c) = Some 4000" by simp
  have "free_tag (cat_entries ?c) = Some (TenantTag (of_nat 1))"
    unfolding free_tag_def tag_candidates by (rule find_upt_first) (simp_all add: m)
  then have t: "free_tag (cat_entries ?c) = Some (TenantTag 1)" by simp
  have "catalog_add ?c (TenantName (lit ''a'')) 4000 = (Inr ?e, \<lparr>cat_entries = cat_entries ?c @ [?e]\<rparr>)"
    using p t by (simp add: catalog_add_def Let_def)
  with catalog_assigns_lowest [OF ok n(1), of 4000] show ?thesis unfolding Let_def by blast
qed

text \<open>
  C23. Tenants served from one catalogue share nothing: whatever is in the file, if it yields a boot
  registry then its tenants have folders, listen addresses and tags that are all different, each
  folder is a direct child of the tenants directory, and none has the tag of the development mode.
\<close>

theorem served_tenants_disjoint:
  assumes "serve_tenants toml s args h = (Inr ts, h')" and "sa_tenant_dir args = None"
  shows "ts \<noteq> [] \<and> distinct (map te_dir ts) \<and> distinct (map te_listen ts) \<and> distinct (map te_tag ts) \<and>
    (\<forall>t \<in> set ts. te_tag t \<noteq> TenantTag_default \<and> tag_ok (te_tag t) \<and> (\<exists>n. te_dir t = set_tenants_dir s @ [n]))"
proof -
  obtain c where c: "catalog_load toml (set_catalog_path s) h = (Inr c, h')" "tenants_from_catalog s c = Inr ts"
    using assms by (auto simp: serve_tenants_def and_then_Inr)
  note ok = catalog_load_ok [OF c(1)]
  let ?t = "\<lambda>e. \<lparr>te_dir = set_tenants_dir s @ [tenant_name_str (ce_name e)], te_listen = SocketAddr (set_bind s) (ce_port e), te_tag = ce_tag e\<rparr>"
  have dir: "push_path (set_tenants_dir s) (tenant_name_str (ce_name e)) = set_tenants_dir s @ [tenant_name_str (ce_name e)]"
    if "e \<in> set (cat_entries c)" for e
    using ok that by (simp add: catalog_ok_def push_path_def components_name)
  have ts: "ts = map ?t (cat_entries c)" "cat_entries c \<noteq> []"
    using c(2) dir by (auto simp: tenants_from_catalog_def split: if_splits)
  have "distinct (map te_dir ts) \<longleftrightarrow> distinct (map (\<lambda>e. [tenant_name_str (ce_name e)]) (cat_entries c))"
    by (simp add: ts(1) distinct_map inj_on_def)
  also have "\<dots> \<longleftrightarrow> distinct (map ce_name (cat_entries c))" by (auto simp: distinct_map inj_on_def intro: tenant_name.expand)
  finally have "distinct (map te_dir ts)" using ok by (simp add: catalog_ok_def)
  moreover have "distinct (map te_listen ts)" using ok by (simp add: ts(1) catalog_ok_def distinct_map inj_on_def)
  moreover have "distinct (map te_tag ts)" using ok by (simp add: ts(1) catalog_ok_def distinct_map inj_on_def)
  moreover have "te_tag t \<noteq> TenantTag_default \<and> tag_ok (te_tag t) \<and> (\<exists>n. te_dir t = set_tenants_dir s @ [n])" if "t \<in> set ts" for t
    using that ok by (auto simp: ts(1) catalog_ok_def TenantTag_default_def)
  ultimately show ?thesis using ts by simp
qed

section \<open>A fresh folder\<close>

text \<open>Every entry of a host stands in a folder; a path is clear when no plain file is on the way.\<close>

definition host_ok :: "host \<Rightarrow> bool" where
  "host_ok h \<longleftrightarrow> (\<forall>q. host_fs h q \<noteq> None \<longrightarrow> q \<noteq> [] \<and> q \<noteq> [root_part] \<and> is_folder h (butlast q))"

definition clear_path :: "host \<Rightarrow> path \<Rightarrow> bool" where
  "clear_path h p \<longleftrightarrow> (\<forall>q. prefix q p \<longrightarrow> host_fs h q = None \<or> host_fs h q = Some Folder)"

lemma host_ok_prefix:
  assumes "host_ok h" and "host_fs h (p @ q) \<noteq> None" and "p \<noteq> []" and "p \<noteq> [root_part]"
  shows "host_fs h p \<noteq> None"
  using assms(2)
proof (induction q rule: rev_induct)
  case (snoc x q)
  have "is_folder h (p @ q)" using assms(1) snoc.prems by (auto simp: host_ok_def simp flip: append_assoc)
  then have "host_fs h (p @ q) \<noteq> None" using assms(3,4) by (cases q rule: rev_cases) (auto simp: is_folder_def append_eq_Cons_conv)
  then show ?case by (rule snoc.IH)
qed simp

definition scaffold_fs :: "path \<Rightarrow> tenant_name \<Rightarrow> (path \<Rightarrow> fs_entry option) \<Rightarrow> path \<Rightarrow> fs_entry option" where
  "scaffold_fs dir name fs =
     (\<lambda>q. if q \<in> set (above (dir @ [lit ''world'', lit ''start''])) then Some Folder else fs q)
       (dir @ [lit ''welcome.kdl''] \<mapsto> PlainFile (scaffold_banner name),
        dir @ [lit ''world'', lit ''start'', lit ''region.kdl''] \<mapsto> PlainFile scaffold_region,
        dir @ [lit ''world'', lit ''start'', lit ''start.kdl''] \<mapsto> PlainFile scaffold_room,
        dir @ [lit ''config.toml''] \<mapsto> PlainFile scaffold_config)"

lemma write_file_done:
  assumes "host_io h = []" and "p \<noteq> []" and "is_folder h (butlast p)" and "\<not> is_folder h p"
  shows "write_file p t h = (Inr (), h\<lparr>host_fs := (host_fs h)(p \<mapsto> PlainFile t)\<rparr>)"
  using assms by (simp add: write_file_def io_call_def)

lemma scaffold_above:
  assumes "dir \<noteq> []" and "dir \<noteq> [root_part]"
  shows "dir \<in> set (above (dir @ [lit ''world'', lit ''start'']))"
    and "dir @ [lit ''world'', lit ''start''] \<in> set (above (dir @ [lit ''world'', lit ''start'']))"
    and "dir @ [lit ''welcome.kdl''] \<notin> set (above (dir @ [lit ''world'', lit ''start'']))"
    and "dir @ [lit ''config.toml''] \<notin> set (above (dir @ [lit ''world'', lit ''start'']))"
    and "dir @ [lit ''world'', lit ''start'', x] \<notin> set (above (dir @ [lit ''world'', lit ''start'']))"
  using assms by (auto simp: in_above)

lemma scaffold_clear:
  assumes "\<And>q. host_fs h (dir @ q) = None" and "clear_path h dir"
  shows "clear_path h (dir @ [lit ''world'', lit ''start''])"
  unfolding clear_path_def
proof (intro allI impI)
  fix q assume "prefix q (dir @ [lit ''world'', lit ''start''])"
  then have "prefix q dir \<or> (\<exists>r. q = dir @ r)" by (metis prefix_append)
  then show "host_fs h q = None \<or> host_fs h q = Some Folder" using assms by (auto simp: clear_path_def)
qed

lemma clear_above: "clear_path h p \<Longrightarrow> \<not> list_ex (\<lambda>q. \<not> is_folder h q \<and> host_fs h q \<noteq> None) (above p)"
  by (fastforce simp: list_ex_iff in_above clear_path_def is_folder_def)

lemma create_dir_all_done:
  assumes "host_io h = []" and "clear_path h p" and "p \<noteq> []"
  shows "create_dir_all p h = (Inr (), make_folders (above p) h)"
  using clear_above [OF assms(2)] assms(1,3) by (simp add: create_dir_all_def io_call_def)

lemma scaffold_done:
  assumes "host_ok h" and "host_io h = []" and "host_fs h dir = None" and "dir \<noteq> []" and "dir \<noteq> [root_part]"
    and "clear_path h dir"
  shows "ensure_tenant_dir dir name h = (Inr Created, h\<lparr>host_fs := scaffold_fs dir name (host_fs h)\<rparr>)"
proof -
  have free: "host_fs h (dir @ q) = None" for q using host_ok_prefix [OF assms(1), of dir q] assms(3-5) by blast
  note clear = scaffold_clear [OF free assms(6)]
  note mem = scaffold_above [OF assms(4,5)]
  have e: "\<not> path_exists h dir" using assms(3,5) by (simp add: path_exists_def)
  show ?thesis
    using assms(2,4) e mem
    by (simp add: ensure_tenant_dir_def Let_def push_fixed config_path_def and_then_def give_def create_dir_all_done [OF assms(2) clear]
        write_file_done is_folder_def make_folders_def free scaffold_fs_def butlast_append)
qed

lemma catalog_save_done:
  assumes "host_io h = []" and "clear_path h (butlast p)" and "\<not> is_folder h p"
    and "toml_write toml (serialize_rows c) = Some tx"
  obtains h2 where "catalog_save toml c p h = (Inr (), h2)" "host_io h2 = []" "host_fs h2 p = Some (PlainFile tx)"
    "\<forall>q. \<not> prefix q p \<longrightarrow> host_fs h2 q = host_fs h q"
proof -
  have p: "p \<noteq> []" "p \<noteq> [root_part]" using assms(3) by (auto simp: is_folder_def)
  obtain g where g: "(case path_parent p of Some parent \<Rightarrow> create_dir_all parent | None \<Rightarrow> give (Inr ())) h = (Inr (), g)"
      "host_io g = []" "is_folder g (butlast p)" "host_fs g p = host_fs h p" "\<forall>q. \<not> prefix q p \<longrightarrow> host_fs g q = host_fs h q"
  proof (cases "butlast p = []")
    case True
    with p have "path_parent p = Some []" by (simp add: path_parent_def)
    then show ?thesis using True assms(1) by (intro that [of h]) (simp_all add: create_dir_all_def is_folder_def)
  next
    case False
    have "\<not> prefix p (butlast p)"
      using p(1) by (metis length_butlast diff_less length_greater_0_conv not_less prefix_length_le zero_less_one)
    moreover have "prefix q p" if "prefix q (butlast p)" for q using that by (meson prefix_order.trans prefixeq_butlast)
    ultimately show ?thesis using False p create_dir_all_done [OF assms(1,2) False] assms(1)
      by (intro that [of "make_folders (above (butlast p)) h"])
        (auto simp: path_parent_def make_folders_def is_folder_def in_above)
  qed
  let ?g1 = "g\<lparr>host_fs := (host_fs g)(p \<mapsto> PlainFile tx)\<rparr>"
  have "write_file p tx g = (Inr (), ?g1)"
    by (rule write_file_done [OF g(2) p(1) g(3)]) (use p g(4) assms(3) in \<open>simp add: is_folder_def\<close>)
  then have "catalog_save toml c p h = (Inr (), ?g1)"
    using assms(4) g(1) by (simp add: catalog_save_def and_then_def give_def)
  then show ?thesis by (rule that) (use g(2,5) in auto)
qed

text \<open>
  The configuration is written last so that an interrupted scaffold is not taken for a tenant. That holds
  for every earlier call; but a write of the configuration that is itself cut short leaves the file,
  and the next call registers the folder with whatever is in it.
\<close>

lemma cut_configuration_is_registered:
  assumes "host_ok h" and "host_io h = [IoOk, IoOk, IoOk, IoOk, IoShort n]" and "host_fs h dir = None" and "dir \<noteq> []"
    and "dir \<noteq> [root_part]" and "clear_path h dir"
  shows "\<exists>h1. ensure_tenant_dir dir name h = (Inl CliIo, h1) \<and> ensure_tenant_dir dir name h1 = (Inr Registered, h1) \<and>
    host_fs h1 (config_path dir) = Some (PlainFile (take n scaffold_config))"
proof -
  have free: "host_fs h (dir @ q) = None" for q using host_ok_prefix [OF assms(1), of dir q] assms(3-5) by blast
  have "\<not> list_ex (\<lambda>q. \<not> is_folder h q \<and> host_fs h q \<noteq> None) (above (dir @ [lit ''world'', lit ''start'']))"
    by (rule clear_above [OF scaffold_clear [OF free assms(6)]])
  then have none: "\<not> list_ex (\<lambda>q. \<not> is_folder (h\<lparr>host_io := ios\<rparr>) q \<and> host_fs h q \<noteq> None) (above (dir @ [lit ''world'', lit ''start'']))" for ios
    by (simp add: is_folder_def)
  note mem = scaffold_above [OF assms(4,5)]
  have e: "\<not> path_exists h dir" using assms(3,5) by (simp add: path_exists_def)
  show ?thesis
    using assms(4,5) e mem none
    by (simp add: ensure_tenant_dir_def Let_def push_fixed config_path_def and_then_def give_def create_dir_all_def io_call_def assms(2)
        write_file_def is_folder_def make_folders_def free butlast_append path_exists_def)
qed

text \<open>A purge that is not confirmed with the tenant's name leaves every file as it was.\<close>

definition typed_line :: "host \<Rightarrow> ustring" where
  "typed_line h =
     (let l = takeWhile (\<lambda>c. c \<noteq> 10) (host_in h) in l @ take 1 (drop (length l) (host_in h)))"

lemma write_line_keeps: "write_line t g = (x, g1) \<Longrightarrow> host_fs g1 = host_fs g \<and> host_in g1 = host_in g"
  by (auto simp: write_line_def io_call_def split: list.splits io_outcome.splits)

lemma read_line_keeps: "read_line g = (x, g1) \<Longrightarrow> host_fs g1 = host_fs g \<and> (\<forall>l. x = Inr l \<longrightarrow> l = typed_line g)"
  by (auto simp: read_line_def io_call_def Let_def typed_line_def split: list.splits io_outcome.splits)

lemma catalog_load_keeps: "catalog_load toml p g = (x, g1) \<Longrightarrow> host_fs g1 = host_fs g \<and> host_in g1 = host_in g"
  by (auto simp: catalog_load_def and_then_def give_def read_to_string_def io_call_def
      split: if_splits prod.splits sum.splits list.splits)

lemma confirm_purge_refused:
  assumes "confirm_purge s name g = (x, g1)" and "trim (typed_line g) \<noteq> tenant_name_str name"
  shows "host_fs g1 = host_fs g \<and> x \<noteq> Inr ()"
  using assms(1) unfolding confirm_purge_def
proof (cases rule: and_then_cases)
  case (failed e)
  with write_line_keeps [OF failed(1)] show ?thesis by simp
next
  case (went_on u g2)
  note k = write_line_keeps [OF went_on(1)]
  from went_on(2) show ?thesis
  proof (cases rule: and_then_cases)
    case (failed e)
    with k read_line_keeps [OF failed(1)] show ?thesis by simp
  next
    case (went_on l g3)
    with k read_line_keeps [OF went_on(1)] assms(2) show ?thesis by (auto simp: typed_line_def)
  qed
qed

lemma unconfirmed_purge_keeps_files:
  assumes "tenant_remove toml s v True h = (r, h')" and "trim (typed_line h) \<noteq> v"
  shows "host_fs h' = host_fs h \<and> r \<noteq> Inr ()"
  using assms(1) unfolding tenant_remove_def if_True
proof (cases rule: and_then_cases)
  case (went_on name h1)
  then have n: "tenant_name_str name = v" and h1: "h1 = h" using TenantName_parse_ok [of v name] by auto
  from went_on(2) show ?thesis
  proof (cases rule: and_then_cases)
    case (failed e)
    with catalog_load_keeps [OF failed(1)] h1 show ?thesis by simp
  next
    case (went_on c h2)
    note l = catalog_load_keeps [OF went_on(1) [unfolded h1]]
    show ?thesis
    proof (cases "catalog_remove c name")
      case (Pair cr c1)
      from went_on(2) [unfolded Pair prod.case] show ?thesis
      proof (cases rule: and_then_cases)
        case (went_on entry h3)
        then have h3: "h3 = h2" by simp
        from went_on(2) show ?thesis
        proof (cases rule: and_then_cases)
          case (failed e)
          with confirm_purge_refused [OF failed(1)] l h3 n assms(2) show ?thesis by (simp add: typed_line_def)
        next
          case (went_on u h4)
          with confirm_purge_refused [OF went_on(1)] l h3 n assms(2) show ?thesis by (simp add: typed_line_def)
        qed
      qed (use l in auto)
    qed
  qed
qed auto

lemma parallel_inside:
  assumes "parallel P T" and "prefix q P"
  shows "\<not> prefix (T @ x) q"
  using assms by (meson append_prefixD parallelE prefix_order.trans prefix_same_cases parallelD1 parallelD2)

lemma scaffold_beside:
  assumes "parallel P T" and "clear_path h (butlast P)" and "\<not> is_folder h P"
  shows "clear_path (h\<lparr>host_fs := scaffold_fs (T @ v) name (host_fs h)\<rparr>) (butlast P) \<and>
    \<not> is_folder (h\<lparr>host_fs := scaffold_fs (T @ v) name (host_fs h)\<rparr>) P"
proof
  let ?h = "h\<lparr>host_fs := scaffold_fs (T @ v) name (host_fs h)\<rparr>"
  have off: "scaffold_fs (T @ v) name (host_fs h) q =
      (if q \<in> set (above (T @ v @ [lit ''world'', lit ''start''])) then Some Folder else host_fs h q)" if "prefix q P" for q
  proof -
    have "q \<noteq> T @ x" for x using parallel_inside [OF assms(1) that, of x] by auto
    then show ?thesis by (simp add: scaffold_fs_def)
  qed
  show "clear_path ?h (butlast P)"
    unfolding clear_path_def
  proof (intro allI impI)
    fix q assume q: "prefix q (butlast P)"
    then have "prefix q P" by (meson prefix_order.trans prefixeq_butlast)
    with off q assms(2) show "host_fs ?h q = None \<or> host_fs ?h q = Some Folder" by (auto simp: clear_path_def)
  qed
  have "\<not> prefix P (T @ x)" for x
    using assms(1) by (metis parallelD1 parallelD2 prefix_append parallel_append append_Nil2 prefix_order.refl)
  then have "host_fs ?h P = host_fs h P" using off [of P] by (simp add: in_above)
  with assms(3) show "\<not> is_folder ?h P" by (simp add: is_folder_def)
qed

lemma tenants_listed:
  assumes "catalog_ok c" and "cat_entries c \<noteq> []"
  shows "tenants_from_catalog s c =
    Inr (map (\<lambda>e. \<lparr>te_dir = set_tenants_dir s @ [tenant_name_str (ce_name e)],
            te_listen = SocketAddr (set_bind s) (ce_port e), te_tag = ce_tag e\<rparr>) (cat_entries c))"
proof -
  have "push_path (set_tenants_dir s) (tenant_name_str (ce_name e)) = set_tenants_dir s @ [tenant_name_str (ce_name e)]"
    if "e \<in> set (cat_entries c)" for e
    using assms that by (simp add: catalog_ok_def push_path_def components_name)
  with assms(2) show ?thesis by (simp add: tenants_from_catalog_def)
qed

text \<open>
  C27. Adding a tenant to a host whose calls succeed works and lasts: where the name is free, a port and a
  tag are left and no file is in the way, the command succeeds, the folder holds the starter files and nothing
  else, and serving the catalogue then means serving the tenants of before and, last, the new one at its
  own folder, port and tag. The TOML library only has to read back what it has written.
\<close>

theorem added_tenant_is_served:
  assumes "host_ok h" and "host_io h = []" and "catalog_load toml (set_catalog_path s) h = (Inr c, h)"
    and "TenantName_parse v = Inr name" and "is_ok (fst (catalog_add c name (set_base_port s)))"
    and "host_fs h (set_tenants_dir s @ [v]) = None" and "clear_path h (set_tenants_dir s)"
    and "parallel (set_catalog_path s) (set_tenants_dir s)"
    and "clear_path h (butlast (set_catalog_path s))" and "\<not> is_folder h (set_catalog_path s)"
    and "\<And>rows. \<exists>t. toml_write toml rows = Some t \<and> toml_read toml t = Some rows"
    and "sa_tenant_dir args = None"
  shows "\<exists>entry h'. fst (catalog_add c name (set_base_port s)) = Inr entry \<and> tenant_add toml s v h = (Inr (), h') \<and>
    serve_tenants toml s args h' =
      (Inr (map (\<lambda>e. \<lparr>te_dir = set_tenants_dir s @ [tenant_name_str (ce_name e)],
                 te_listen = SocketAddr (set_bind s) (ce_port e), te_tag = ce_tag e\<rparr>) (cat_entries c @ [entry])), h') \<and>
    ce_name entry = name \<and>
    (\<forall>q. prefix (set_tenants_dir s @ [v]) q \<longrightarrow>
       host_fs h' q = scaffold_fs (set_tenants_dir s @ [v]) name (host_fs h) q)"
proof -
  let ?P = "set_catalog_path s" and ?T = "set_tenants_dir s"
  have name: "name = TenantName v" "name_valid name" using TenantName_parse_ok [OF assms(4)] by auto
  have dir: "tenant_dir s name = ?T @ [v]" using tenant_dir_eq [OF name(2), of s] name(1) by simp
  obtain entry c1 where add: "catalog_add c name (set_base_port s) = (Inr entry, c1)"
    using assms(5) by (cases "catalog_add c name (set_base_port s)") (auto simp: is_ok_iff)
  note added = catalog_add_Inr [OF catalog_load_ok [OF assms(3)] name(2) add]
  obtain tx where tx: "toml_write toml (serialize_rows c1) = Some tx" "toml_read toml tx = Some (serialize_rows c1)"
    using assms(11) by blast
  have v: "[v] \<noteq> [root_part]"
    using components_name(2) [OF name(2)] by (auto simp: name(1) root_part_def is_absolute_def lit_def)
  have nr: "?T @ [v] \<noteq> [root_part]" using v by (cases ?T) auto
  have clear: "clear_path h (?T @ [v])" using assms(6,7) by (auto simp: clear_path_def)
  let ?h1 = "h\<lparr>host_fs := scaffold_fs (?T @ [v]) name (host_fs h)\<rparr>"
  have ens: "ensure_tenant_dir (?T @ [v]) name h = (Inr Created, ?h1)"
    by (rule scaffold_done [OF assms(1,2,6) _ nr clear]) simp
  have P: "?P \<noteq> []" "?P \<noteq> [root_part]" "host_fs h ?P \<noteq> Some Folder" using assms(10) by (auto simp: is_folder_def)
  have c1: "clear_path ?h1 (butlast ?P)" and "\<not> is_folder ?h1 ?P"
    using scaffold_beside [OF assms(8,9,10)] by blast+
  with catalog_save_done [of ?h1, OF _ c1 _ tx(1)] assms(2) obtain g where save: "catalog_save toml c1 ?P ?h1 = (Inr (), g)"
      "host_io g = []" "host_fs g ?P = Some (PlainFile tx)" "\<forall>q. \<not> prefix q ?P \<longrightarrow> host_fs g q = host_fs ?h1 q"
    by auto
  obtain h' where out: "tenant_add toml s v h = (Inr (), h')" "host_fs h' = host_fs g" "host_io h' = []"
    using save(2) by (simp add: tenant_add_def and_then_def give_def assms(4,3) add dir ens save(1) write_line_def io_call_def)
  have ok: "catalog_ok c1" using added by blast
  have "catalog_load toml ?P h' = (Inr c1, h')"
    by (rule catalog_file_loads [OF ok tx]) (simp_all add: out(2,3) save(3))
  moreover have "tenants_from_catalog s c1 =
      Inr (map (\<lambda>e. \<lparr>te_dir = ?T @ [tenant_name_str (ce_name e)], te_listen = SocketAddr (set_bind s) (ce_port e), te_tag = ce_tag e\<rparr>)
        (cat_entries c @ [entry]))"
    using tenants_listed [OF ok, of s] added by simp
  moreover have "host_fs h' q = scaffold_fs (?T @ [v]) name (host_fs h) q" if "prefix (?T @ [v]) q" for q
  proof -
    have "\<not> prefix q ?P" using parallel_inside [OF assms(8)] that by blast
    with save(4) show ?thesis by (simp add: out(2))
  qed
  ultimately show ?thesis
    using add out(1) added assms(12) by (auto simp: serve_tenants_def and_then_def give_def)
qed

text \<open>A codec that reads back what it writes, and a bare host, for the witnesses.\<close>

fun rows_text :: "toml_row list \<Rightarrow> ustring" where
  "rows_text [] = []"
| "rows_text ((n, p, t) # rows) = length n # unat p # unat t # n @ rows_text rows"

fun text_rows :: "ustring \<Rightarrow> toml_row list option" where
  "text_rows (n # p # t # s) = map_option (\<lambda>rows. (take n s, of_nat p, of_nat t) # rows) (text_rows (drop n s))"
| "text_rows [] = Some []"
| "text_rows _ = None"

lemma text_rows_text: "text_rows (rows_text rows) = Some rows"
  by (induction rows rule: rows_text.induct) simp_all

definition sample_settings :: settings where
  "sample_settings =
     \<lparr>set_rate = DEFAULT_RATE, set_burst = DEFAULT_BURST, set_log_format = LogText, set_tenants_dir = [lit ''tenants''],
      set_bind = LOCALHOST, set_base_port = 4000, set_catalog_path = [lit ''etc'', lit ''catalog.toml'']\<rparr>"

definition bare_host :: host where
  "bare_host = \<lparr>host_fs = Map.empty, host_io = [], host_in = [], host_out = []\<rparr>"

definition sample_args :: serve_args where
  "sample_args = \<lparr>sa_tenant_dir = None, sa_listen = None, sa_overrides = \<lparr>ov_rate = None, ov_burst = None, ov_log_format = None\<rparr>\<rparr>"

lemma mygame_parses: "TenantName_parse (lit ''mygame'') = Inr (TenantName (lit ''mygame''))"
  by (simp add: TenantName_parse_def lit_def name_start_def name_rest_def is_ascii_lower_def is_ascii_digit_def)

lemma first_tenant:
  "catalog_add catalog_default name 4000 =
     (Inr \<lparr>ce_name = name, ce_port = 4000, ce_tag = TenantTag 1\<rparr>,
      \<lparr>cat_entries = [\<lparr>ce_name = name, ce_port = 4000, ce_tag = TenantTag 1\<rparr>]\<rparr>)"
proof -
  have m: "unat TenantTag_MAX = 4095" by (simp add: TenantTag_MAX_def TENANT_BITS_def)
  have "free_port 4000 [] = Some (of_nat (unat (4000 :: u16)))" unfolding free_port_def by (rule find_upt_first) simp_all
  moreover have "free_tag [] = Some (TenantTag (of_nat 1))"
    unfolding free_tag_def tag_candidates by (rule find_upt_first) (simp_all add: m)
  ultimately show ?thesis by (simp add: catalog_add_def catalog_default_def Let_def)
qed

lemma added_tenant_is_served_witness:
  "\<exists>h'. tenant_add \<lparr>toml_write = \<lambda>rows. Some (rows_text rows), toml_read = text_rows\<rparr> sample_settings (lit ''mygame'') bare_host = (Inr (), h') \<and>
     serve_tenants \<lparr>toml_write = \<lambda>rows. Some (rows_text rows), toml_read = text_rows\<rparr> sample_settings sample_args h' =
       (Inr [\<lparr>te_dir = [lit ''tenants'', lit ''mygame''], te_listen = SocketAddr LOCALHOST 4000, te_tag = TenantTag 1\<rparr>], h')"
proof -
  let ?toml = "\<lparr>toml_write = \<lambda>rows. Some (rows_text rows), toml_read = text_rows\<rparr>"
  have h: "host_ok bare_host" "host_io bare_host = []" by (simp_all add: host_ok_def bare_host_def)
  have c: "catalog_load ?toml (set_catalog_path sample_settings) bare_host = (Inr catalog_default, bare_host)"
    by (simp add: catalog_load_def path_exists_def bare_host_def sample_settings_def)
  have a: "is_ok (fst (catalog_add catalog_default (TenantName (lit ''mygame'')) (set_base_port sample_settings)))"
    by (simp add: sample_settings_def first_tenant)
  have p: "host_fs bare_host (set_tenants_dir sample_settings @ [lit ''mygame'']) = None"
    "clear_path bare_host (set_tenants_dir sample_settings)" "clear_path bare_host (butlast (set_catalog_path sample_settings))"
    "parallel (set_catalog_path sample_settings) (set_tenants_dir sample_settings)"
    "\<not> is_folder bare_host (set_catalog_path sample_settings)"
    by (simp_all add: bare_host_def sample_settings_def clear_path_def parallel_def is_folder_def)
  have t: "\<exists>t. toml_write ?toml rows = Some t \<and> toml_read ?toml t = Some rows" for rows by (simp add: text_rows_text)
  have s: "sa_tenant_dir sample_args = None" by (simp add: sample_args_def)
  show ?thesis
    using added_tenant_is_served [OF h c mygame_parses a p(1,2,4,3,5) t s]
    by (auto simp: sample_settings_def first_tenant [unfolded catalog_default_def] catalog_default_def)
qed

lemma served_tenants_disjoint_witness:
  "\<exists>ts. fst (serve_tenants \<lparr>toml_write = \<lambda>_. None,
        toml_read = \<lambda>_. Some [(lit ''mygame'', 4000, 1), (lit ''a'', 4001, 2)]\<rparr> sample_settings sample_args
        (bare_host\<lparr>host_fs := [[lit ''etc'', lit ''catalog.toml''] \<mapsto> PlainFile []]\<rparr>)) = Inr ts \<and>
      length ts = 2 \<and> distinct (map te_dir ts) \<and> distinct (map te_listen ts) \<and> distinct (map te_tag ts)"
proof -
  let ?toml = "\<lparr>toml_write = \<lambda>_. None, toml_read = \<lambda>_. Some [(lit ''mygame'', 4000, 1), (lit ''a'', 4001, 2)]\<rparr>"
  let ?h = "bare_host\<lparr>host_fs := [[lit ''etc'', lit ''catalog.toml''] \<mapsto> PlainFile []]\<rparr>"
  have a: "TenantName_parse (lit ''a'') = Inr (TenantName (lit ''a''))"
    by (simp add: TenantName_parse_def lit_def name_start_def is_ascii_lower_def)
  have ne: "lit ''a'' \<noteq> lit ''mygame''" by (simp add: lit_def)
  have "\<exists>ts. serve_tenants ?toml sample_settings sample_args ?h = (Inr ts, ?h) \<and> length ts = 2"
    by (simp add: serve_tenants_def sample_args_def and_then_def give_def catalog_load_def path_exists_def read_to_string_def io_call_def
        bare_host_def sample_settings_def mygame_parses a TenantTag_new_def TenantTag_MAX_def TENANT_BITS_def ne tenants_from_catalog_def del: bindE_eq_Inr)
  then obtain ts where ts: "serve_tenants ?toml sample_settings sample_args ?h = (Inr ts, ?h)" "length ts = 2" by blast
  show ?thesis
    using served_tenants_disjoint [OF ts(1)] ts by (auto simp: sample_args_def)
qed

end
