(* ===== verification/Server.thy ===== *)
theory Server
  imports Tenant Catalog_Facts Gateway
begin

text \<open>
  The server as a whole (crates/mudd: boot.rs, main.rs): from the boot registry to one assembled stack per
  tenant, and from a starter folder to a tenant that serves. What a boot reads of each folder, opens
  and binds is an environment.
\<close>

section \<open>Boot\<close>

record gateway_config =
  gc_world_id :: world_id
  gc_rate :: sustained_rate
  gc_burst :: burst
  gc_palette :: palette
  gc_tier :: tier

record server_config =
  srv_rate :: sustained_rate
  srv_burst :: burst
  srv_tenants :: "tenant_entry list"
  srv_log_format :: log_format

text \<open>
  The environment of a boot: the extracted configuration and the content files of a folder, the
  database as opened there, the random number drawn for a new world id, the order in which the room
  registry lists its rooms, and the address a listener is bound to.
\<close>

record boot_env =
  benv_config :: "path \<Rightarrow> raw_config option"
  benv_files :: "path \<Rightarrow> tenant_config \<Rightarrow> tenant_files"
  benv_open :: "path \<Rightarrow> db_error + tenant_db"
  benv_draw :: "path \<Rightarrow> u32"
  benv_order :: "rooms \<Rightarrow> (place_id \<times> place_key) list"
  benv_bind :: "socket_addr \<Rightarrow> socket_addr option"

datatype server_fault =
    TenantConfigFault path world_error
  | TenantWorldFault path world_error
  | OpenFault path db_error
  | WorldIdFault path db_error
  | AssemblyFault path boot_fault
  | BindFault socket_addr

record booted =
  bo_addr :: socket_addr
  bo_gateway :: gateway_config
  bo_world_id :: world_id
  bo_runtime :: tenant_runtime

text \<open>The adapter from the room registry to the pipeline's places (places.rs).\<close>

definition world_places :: "rooms \<Rightarrow> places" where
  "world_places rms = (\<lambda>i. rooms_get rms i)"

definition boot_entry ::
  "boot_env \<Rightarrow> unicode \<Rightarrow> (ustring \<Rightarrow> ustring option) \<Rightarrow> (ustring \<Rightarrow> ustring \<Rightarrow> bool option) \<Rightarrow> server_config \<Rightarrow> tenant_entry
    \<Rightarrow> (server_fault + booted) option" where
  "boot_entry env uni hash verify cfg te =
     (case config_load (benv_config env (te_dir te)) of
        Inl e \<Rightarrow> Some (Inl (TenantConfigFault (te_dir te) e))
      | Inr tc \<Rightarrow>
     (case load_world tc (benv_files env (te_dir te) tc) of
        Inl e \<Rightarrow> Some (Inl (TenantWorldFault (te_dir te) e))
      | Inr lw \<Rightarrow>
     (case benv_open env (te_dir te) of
        Inl e \<Rightarrow> Some (Inl (OpenFault (te_dir te) e))
      | Inr db \<Rightarrow>
     (case world_id (benv_draw env (te_dir te)) db of
        (Inl e, db1) \<Rightarrow> Some (Inl (WorldIdFault (te_dir te) e))
      | (Inr wid, db1) \<Rightarrow>
     (case boot_tenant uni hash verify db1 (te_tag te) (benv_order env (lw_rooms lw)) (world_places (lw_rooms lw))
             (tc_start_room tc) (lw_banner lw) (Locale (tc_locale tc)) of
        None \<Rightarrow> None
      | Some (Inl f) \<Rightarrow> Some (Inl (AssemblyFault (te_dir te) f))
      | Some (Inr rt) \<Rightarrow>
     (case benv_bind env (te_listen te) of
        None \<Rightarrow> Some (Inl (BindFault (te_listen te)))
      | Some addr \<Rightarrow>
          Some (Inr \<lparr>bo_addr = addr,
            bo_gateway = \<lparr>gc_world_id = wid, gc_rate = srv_rate cfg, gc_burst = srv_burst cfg,
              gc_palette = lw_palette lw, gc_tier = resolve_tier False DEFAULT_TENANT_TIER\<rparr>,
            bo_world_id = wid, bo_runtime = rt\<rparr>)))))))"

text \<open>The first tenant that fails to boot fails the server.\<close>

fun boot_entries ::
  "boot_env \<Rightarrow> unicode \<Rightarrow> (ustring \<Rightarrow> ustring option) \<Rightarrow> (ustring \<Rightarrow> ustring \<Rightarrow> bool option) \<Rightarrow> server_config
    \<Rightarrow> tenant_entry list \<Rightarrow> (server_fault + booted list) option" where
  "boot_entries env uni hash verify cfg [] = Some (Inr [])"
| "boot_entries env uni hash verify cfg (te # tes) =
     (case boot_entry env uni hash verify cfg te of
        None \<Rightarrow> None
      | Some (Inl e) \<Rightarrow> Some (Inl e)
      | Some (Inr b) \<Rightarrow>
          map_option (\<lambda>r. bindE r (\<lambda>bs. Inr (b # bs))) (boot_entries env uni hash verify cfg tes))"

definition boot ::
  "boot_env \<Rightarrow> unicode \<Rightarrow> (ustring \<Rightarrow> ustring option) \<Rightarrow> (ustring \<Rightarrow> ustring \<Rightarrow> bool option) \<Rightarrow> server_config
    \<Rightarrow> (server_fault + booted list) option" where
  "boot env uni hash verify cfg = boot_entries env uni hash verify cfg (srv_tenants cfg)"

text \<open>The configuration \<open>mudd serve\<close> boots, and how the process ends: a task's fault is the process's.\<close>

definition serve_config ::
  "(ustring \<Rightarrow> ustring option) \<Rightarrow> (raw_settings \<Rightarrow> path \<Rightarrow> raw_settings option) \<Rightarrow> toml_lib \<Rightarrow> path option \<Rightarrow> serve_args
    \<Rightarrow> server_config action" where
  "serve_config env figment toml cfg args =
     and_then (give (settings_resolve env figment cfg (sa_overrides args))) (\<lambda>s.
     and_then (serve_tenants toml s args) (\<lambda>tenants.
     give (Inr \<lparr>srv_rate = set_rate s, srv_burst = set_burst s, srv_tenants = tenants, srv_log_format = set_log_format s\<rparr>)))"

datatype 'e wake = CtrlC | TaskJoined "'e + unit" | TaskPanicked | NoTasks

fun process_end :: "'e wake \<Rightarrow> 'e option + unit" where
  "process_end CtrlC = Inr ()"
| "process_end (TaskJoined (Inr _)) = Inr ()"
| "process_end NoTasks = Inr ()"
| "process_end (TaskJoined (Inl e)) = Inl (Some e)"
| "process_end TaskPanicked = Inl None"

section \<open>Every tenant serves\<close>

text \<open>A tenant that can boot: content that loads, a consistent database that names its rooms, an address.\<close>

definition tenant_ready :: "boot_env \<Rightarrow> tenant_entry \<Rightarrow> bool" where
  "tenant_ready env te \<longleftrightarrow> (\<exists>tc lw db.
     config_load (benv_config env (te_dir te)) = Inr tc \<and> load_world tc (benv_files env (te_dir te) tc) = Inr lw \<and>
     (\<forall>fs. collect_kdl_files [] (tf_world (benv_files env (te_dir te) tc)) = Inr fs \<longrightarrow> node_count fs < 2 ^ 64) \<and>
     place_keys (lw_rooms lw) (benv_order env (lw_rooms lw)) \<and> tag_ok (te_tag te) \<and>
     benv_open env (te_dir te) = Inr db \<and> db_ok db \<and> length (db_entities db) \<le> 2 ^ 32 \<and> fault_free db \<and>
     (\<forall>s \<in> snd ` set (db_location db). rooms_id_of (lw_rooms lw) (PlaceKey s) \<noteq> None) \<and>
     (\<forall>n. db_server db = Some n \<longrightarrow> 0 < n) \<and> benv_bind env (te_listen te) \<noteq> None)"

definition serves_any_run :: "unicode \<Rightarrow> tenant_runtime \<Rightarrow> bool" where
  "serves_any_run uni rt \<longleftrightarrow> (\<forall>order evs. length evs < 2 ^ 64 \<longrightarrow>
     (\<exists>frames rt'. loop_run uni order rt evs = Some (frames, Inr rt') \<and> mirrors (rt_world rt') \<and>
        (\<forall>sid bd. ss_sessions (rt_sessions rt') sid = Some (InWorld bd) \<longrightarrow> live (pw_world (rt_world rt')) (bind_puppet bd))))"

lemma world_id_done:
  assumes "fault_free db" and "\<forall>n. db_server db = Some n \<longrightarrow> 0 < n"
  obtains wid n where "world_id draw db = (Inr wid, db\<lparr>db_server := Some n, db_clock := Suc (Suc (db_clock db))\<rparr>)" "0 < n"
proof (cases "db_server db")
  case None
  have "0 < uint draw + 1" by (simp add: add_nonneg_pos)
  then show ?thesis using None assms(1)
    by (intro that [of _ "uint draw + 1"])
      (simp_all add: world_id_def run_statement_def insert_server_def select_server_def nonzero_from_db_def fault_free_def)
next
  case (Some n)
  then show ?thesis using assms
    by (intro that [of _ n])
      (simp_all add: world_id_def run_statement_def insert_server_def select_server_def nonzero_from_db_def fault_free_def)
qed

lemma boot_entry_serves:
  assumes "tenant_ready env te"
  obtains b where "boot_entry env uni hash verify cfg te = Some (Inr b)" "benv_bind env (te_listen te) = Some (bo_addr b)"
    "serves_any_run uni (bo_runtime b)" "gc_world_id (bo_gateway b) = bo_world_id b"
proof -
  obtain tc lw db addr where r: "config_load (benv_config env (te_dir te)) = Inr tc"
      "load_world tc (benv_files env (te_dir te) tc) = Inr lw"
      "\<forall>fs. collect_kdl_files [] (tf_world (benv_files env (te_dir te) tc)) = Inr fs \<longrightarrow> node_count fs < 2 ^ 64"
      "place_keys (lw_rooms lw) (benv_order env (lw_rooms lw))" "tag_ok (te_tag te)"
      "benv_open env (te_dir te) = Inr db" "db_ok db" "length (db_entities db) \<le> 2 ^ 32" "fault_free db"
      "\<forall>s \<in> snd ` set (db_location db). rooms_id_of (lw_rooms lw) (PlaceKey s) \<noteq> None"
      "\<forall>n. db_server db = Some n \<longrightarrow> 0 < n" "benv_bind env (te_listen te) = Some addr"
    using assms unfolding tenant_ready_def by blast
  obtain wid n where w: "world_id (benv_draw env (te_dir te)) db = (Inr wid, db\<lparr>db_server := Some n, db_clock := Suc (Suc (db_clock db))\<rparr>)"
    by (rule world_id_done [OF r(9,11)])
  let ?db = "db\<lparr>db_server := Some n, db_clock := Suc (Suc (db_clock db))\<rparr>"
  have d: "db_ok ?db" "length (db_entities ?db) \<le> 2 ^ 32" "fault_free ?db"
      "\<forall>s \<in> snd ` set (db_location ?db). rooms_id_of (lw_rooms lw) (PlaceKey s) \<noteq> None"
    using r(7-10) by (simp_all add: db_ok_def fault_free_def)
  have run: "\<exists>rt frames rt'.
    boot_tenant uni hash verify ?db (te_tag te) (benv_order env (lw_rooms lw)) (rooms_get (lw_rooms lw)) (tc_start_room tc)
      (lw_banner lw) (Locale (tc_locale tc)) = Some (Inr rt) \<and>
    loop_run uni order rt evs = Some (frames, Inr rt') \<and> mirrors (rt_world rt') \<and>
    (\<forall>sid bd. ss_sessions (rt_sessions rt') sid = Some (InWorld bd) \<longrightarrow> live (pw_world (rt_world rt')) (bind_puppet bd))"
    if "length evs < 2 ^ 64" for order evs
    by (rule tenant_serves [OF r(2-5) d that])
  obtain rt where rt: "boot_tenant uni hash verify ?db (te_tag te) (benv_order env (lw_rooms lw)) (rooms_get (lw_rooms lw))
      (tc_start_room tc) (lw_banner lw) (Locale (tc_locale tc)) = Some (Inr rt)"
    using run [of "[]"] by auto
  have "serves_any_run uni rt" unfolding serves_any_run_def using run rt by fastforce
  let ?b = "\<lparr>bo_addr = addr, bo_gateway = \<lparr>gc_world_id = wid, gc_rate = srv_rate cfg, gc_burst = srv_burst cfg,
      gc_palette = lw_palette lw, gc_tier = resolve_tier False DEFAULT_TENANT_TIER\<rparr>, bo_world_id = wid, bo_runtime = rt\<rparr>"
  have "boot_entry env uni hash verify cfg te = Some (Inr ?b)" by (simp add: boot_entry_def world_places_def r(1,2,6,12) w rt)
  then show thesis by (rule that) (use r(12) \<open>serves_any_run uni rt\<close> in simp_all)
qed

text \<open>
  C2. The server comes up whole. If every tenant of the registry is ready, with content that loads, a
  consistent database that names only authored rooms, and an address to bind, then the boot succeeds,
  in registry order; the gateway and the world of each tenant agree in their handshake; and no run of
  fewer than \<open>2 ^ 64\<close> connects, lines, drops and ticks makes any tenant's loop panic or stop, ends with a
  database that differs from the world in memory, or with a player bound to a dead entity.
\<close>

theorem server_comes_up:
  assumes "\<forall>te \<in> set (srv_tenants cfg). tenant_ready env te"
  shows "\<exists>bs. boot env uni hash verify cfg = Some (Inr bs) \<and>
    map (\<lambda>te. benv_bind env (te_listen te)) (srv_tenants cfg) = map (\<lambda>b. Some (bo_addr b)) bs \<and>
    (\<forall>b \<in> set bs. serves_any_run uni (bo_runtime b) \<and>
       handshake (gc_world_id (bo_gateway b)) [] (bo_world_id b) = Some (Inr (), Inr []))"
proof -
  have "\<exists>bs. boot_entries env uni hash verify cfg tes = Some (Inr bs) \<and>
    map (\<lambda>te. benv_bind env (te_listen te)) tes = map (\<lambda>b. Some (bo_addr b)) bs \<and>
    (\<forall>b \<in> set bs. serves_any_run uni (bo_runtime b) \<and>
       handshake (gc_world_id (bo_gateway b)) [] (bo_world_id b) = Some (Inr (), Inr []))"
    if "\<forall>te \<in> set tes. tenant_ready env te" for tes
    using that
  proof (induction tes)
    case (Cons te tes)
    then obtain bs where bs: "boot_entries env uni hash verify cfg tes = Some (Inr bs)"
        "map (\<lambda>te. benv_bind env (te_listen te)) tes = map (\<lambda>b. Some (bo_addr b)) bs"
        "\<forall>b \<in> set bs. serves_any_run uni (bo_runtime b) \<and>
           handshake (gc_world_id (bo_gateway b)) [] (bo_world_id b) = Some (Inr (), Inr [])"
      by auto
    obtain b where b: "boot_entry env uni hash verify cfg te = Some (Inr b)" "benv_bind env (te_listen te) = Some (bo_addr b)"
        "serves_any_run uni (bo_runtime b)" "gc_world_id (bo_gateway b) = bo_world_id b"
      by (rule boot_entry_serves) (use Cons.prems in auto)
    show ?case by (rule exI [of _ "b # bs"]) (use bs b in \<open>simp add: handshake_result\<close>)
  qed simp
  from this [OF assms] show ?thesis by (simp add: boot_def)
qed

section \<open>A starter folder serves\<close>

text \<open>
  The third-party parsers: what the KDL library makes of a text, and what the TOML library extracts as a
  tenant's configuration. A folder of the host, as the loader sees it through them.
\<close>

record content_lib =
  cl_kdl :: "ustring \<Rightarrow> kdl_node list option"
  cl_config :: "ustring \<Rightarrow> raw_config option"

definition read_doc :: "content_lib \<Rightarrow> fs_entry option \<Rightarrow> read_fault + kdl_node list" where
  "read_doc lib f =
     (case f of
        Some (PlainFile t) \<Rightarrow> (case cl_kdl lib t of Some ns \<Rightarrow> Inr ns | None \<Rightarrow> Inl ReadKdl)
      | _ \<Rightarrow> Inl ReadIo)"

fun represents :: "content_lib \<Rightarrow> (path \<Rightarrow> fs_entry option) \<Rightarrow> path \<Rightarrow> fs_node \<Rightarrow> bool" where
  "represents lib fs p (File r) \<longleftrightarrow> (\<exists>t. fs p = Some (PlainFile t)) \<and> r = read_doc lib (fs p)"
| "represents lib fs p (Dir es) \<longleftrightarrow>
     fs p = Some Folder \<and> distinct (map fst es) \<and> (\<forall>n. fs (p @ [n]) \<noteq> None \<longleftrightarrow> n \<in> fst ` set es) \<and>
     (\<forall>(n, t) \<in> set es. represents lib fs (p @ [n]) t)"
| "represents lib fs p Unlisted \<longleftrightarrow> False"

definition folder_holds :: "content_lib \<Rightarrow> (path \<Rightarrow> fs_entry option) \<Rightarrow> path \<Rightarrow> tenant_config \<Rightarrow> tenant_files \<Rightarrow> bool" where
  "folder_holds lib fs dir tc files \<longleftrightarrow>
     represents lib fs (dir @ [lit ''world'']) (tf_world files) \<and>
     tf_banner files = read_doc lib (fs (push_path dir (tc_banner tc))) \<and>
     tf_palette files = (case fs (push_path dir (tc_palette tc)) of None \<Rightarrow> None | f \<Rightarrow> Some (read_doc lib f))"

definition config_read :: "content_lib \<Rightarrow> (path \<Rightarrow> fs_entry option) \<Rightarrow> path \<Rightarrow> raw_config option" where
  "config_read lib fs dir = (case fs (config_path dir) of Some (PlainFile t) \<Rightarrow> cl_config lib t | _ \<Rightarrow> None)"

text \<open>The parsers read the starter texts as KDL and TOML define them.\<close>

definition start_slug :: ustring where "start_slug = lit ''start''"

definition region_nodes :: "kdl_node list" where
  "region_nodes = [KdlNode (lit ''region'') [KdlString start_slug] [] [KdlNode (lit ''name'') [KdlString (lit ''Start'')] [] []]]"

definition room_nodes :: "kdl_node list" where
  "room_nodes = [KdlNode (lit ''room'') [KdlString start_slug] []
     [KdlNode (lit ''title'') [KdlString (lit ''Start'')] [] [],
      KdlNode (lit ''description'')
        [KdlString (lit ''A quiet starting room. Edit world/start/start.kdl to begin building.'')] [] []]]"

definition reads_starter :: "content_lib \<Rightarrow> tenant_name \<Rightarrow> bool" where
  "reads_starter lib name \<longleftrightarrow>
     cl_kdl lib (scaffold_banner name) =
       Some [KdlNode (lit ''banner'') [KdlString (lit ''Welcome to '' @ tenant_name_str name @ lit ''.'')] [] []] \<and>
     cl_kdl lib scaffold_region = Some region_nodes \<and> cl_kdl lib scaffold_room = Some room_nodes \<and>
     cl_config lib scaffold_config =
       Some \<lparr>rc_banner = None, rc_palette = None, rc_start_room = start_slug, rc_locale = None\<rparr>"

definition starter_world :: "(ustring \<times> fs_node) list \<Rightarrow> fs_node" where
  "starter_world es = Dir [(lit ''start'', Dir es)]"

definition starter_files :: "(ustring \<times> fs_node) list" where
  "starter_files = [(lit ''region.kdl'', File (Inr region_nodes)), (lit ''start.kdl'', File (Inr room_nodes))]"

lemma start_slug_parses: "PlaceKey_parse start_slug = Inr (PlaceKey start_slug)"
    "RegionKey_parse start_slug = Inr (RegionKey start_slug)"
  by (simp_all add: start_slug_def PlaceKey_parse_ok RegionKey_parse_ok slug_char_def lit_def is_ascii_lower_def is_ascii_digit_def)

lemma starter_collected:
  assumes "es = starter_files \<or> es = rev starter_files"
  shows "collect_kdl_files [] (starter_world es) =
    Inr [([lit ''start'', lit ''region.kdl''], Inr region_nodes), ([lit ''start'', lit ''start.kdl''], Inr room_nodes)]"
  using assms by (elim disjE) (simp_all add: starter_world_def starter_files_def extension_def lit_def)

lemma starter_binder: "binder_load [([lit ''start'', lit ''region.kdl''], Inr region_nodes)] =
    Inr \<lparr>rb_manifests = [([lit ''start''], RegionId 1)],
      rb_regions = \<lparr>rgn_by_id = [RegionId 1 \<mapsto> \<lparr>rd_key = RegionKey start_slug, rd_name = Some (RegionName (lit ''Start''))\<rparr>],
        rgn_key_to_id = [RegionKey start_slug \<mapsto> RegionId 1]\<rparr>\<rparr>"
  using start_slug_parses(2)
  by (simp add: binder_load_def parse_manifest_def read_file_def node_arg_def vec_get_def region_nodes_def)

lemma starter_loads:
  assumes "es = starter_files \<or> es = rev starter_files"
  obtains rms rgns where "load_rooms (starter_world es) p = Inr (rms, rgns)"
    and "slug_to_id rms = [PlaceKey start_slug \<mapsto> PlaceId 1]" and "id_to_slug rms = [PlaceId 1 \<mapsto> PlaceKey start_slug]"
proof -
  let ?b = "\<lparr>rb_manifests = [([lit ''start''], RegionId 1)],
      rb_regions = \<lparr>rgn_by_id = [RegionId 1 \<mapsto> \<lparr>rd_key = RegionKey start_slug, rd_name = Some (RegionName (lit ''Start''))\<rparr>],
        rgn_key_to_id = [RegionKey start_slug \<mapsto> RegionId 1]\<rparr>\<rparr>"
  obtain raw where raw: "parse_room (hd room_nodes) (PlaceId 1) (RegionId 1) p = Inr raw"
      "raw_slug raw = PlaceKey start_slug" "raw_id raw = PlaceId 1" "raw_exits raw = []"
    using start_slug_parses(1) by (simp add: parse_room_def room_nodes_def node_arg_def vec_get_def del: bindE_eq_Inr)
  have room: "room_nodes = [hd room_nodes]" "kn_name (hd room_nodes) = lit ''room''" by (simp_all add: room_nodes_def)
  have "scan_nodes p (RegionId 1) scan_new [hd room_nodes] = Inr \<lparr>sc_rooms = [raw], sc_slugs = [PlaceKey start_slug \<mapsto> PlaceId 1],
      sc_ids = [PlaceId 1 \<mapsto> PlaceKey start_slug], sc_next = advance 1\<rparr>"
    using raw by (simp add: scan_new_def room(2))
  then have scan: "scan_files p ?b scan_new [([lit ''start'', lit ''start.kdl''], Inr room_nodes)] =
      Inr \<lparr>sc_rooms = [raw], sc_slugs = [PlaceKey start_slug \<mapsto> PlaceId 1], sc_ids = [PlaceId 1 \<mapsto> PlaceKey start_slug], sc_next = advance 1\<rparr>"
    by (subst room(1)) (simp add: region_for_def read_file_def)
  obtain d where d: "resolve_room [PlaceKey start_slug \<mapsto> PlaceId 1] raw = Inr d"
    using raw(4) by (simp add: resolve_room_def Let_def)
  have ne: "lit ''start.kdl'' \<noteq> lit ''region.kdl''" by simp
  have "load_rooms (starter_world es) p = Inr (\<lparr>rooms_by_id = [PlaceId 1 \<mapsto> Room d], slug_to_id = [PlaceKey start_slug \<mapsto> PlaceId 1],
      id_to_slug = [PlaceId 1 \<mapsto> PlaceKey start_slug]\<rparr>, rb_regions ?b)"
    by (simp add: load_rooms_def starter_collected [OF assms] REGION_MANIFEST_def ne starter_binder scan d raw(3)
        del: bindE_eq_Inr scan_files.simps)
  then show thesis by (rule that) simp_all
qed

text \<open>What the loader finds in a scaffolded folder, whichever way the directory is listed.\<close>

lemma names_count: "distinct (map fst es) \<Longrightarrow> length es = card (fst ` set es)"
  using distinct_card [of "map fst es"] by simp

lemma singleton_names:
  assumes "distinct (map fst es)" and "fst ` set es = {n}"
  obtains t where "es = [(n, t)]"
proof -
  have "length es = 1" using names_count [OF assms(1)] assms(2) by simp
  then obtain e where "es = [e]" by (auto simp: length_Suc_conv)
  with assms(2) show ?thesis by (intro that [of "snd e"]) (cases e, simp)
qed

lemma pair_names:
  assumes "distinct (map fst es)" and "fst ` set es = {a, b}" and "a \<noteq> b"
  obtains s t where "es = [(a, s), (b, t)] \<or> es = [(b, t), (a, s)]"
proof -
  have "length es = Suc (Suc 0)" using names_count [OF assms(1)] assms(2,3) by simp
  then obtain e f where es: "es = [e, f]" by (auto simp: length_Suc_conv)
  with assms(2,3) have "fst e = a \<and> fst f = b \<or> fst e = b \<and> fst f = a" by (auto simp: doubleton_eq_iff)
  with es show ?thesis using that [of "snd e" "snd f"] that [of "snd f" "snd e"] by (cases e; cases f) auto
qed

lemma represents_Dir:
  assumes "represents lib fs p (Dir es)"
  shows "distinct (map fst es)" and "n \<in> fst ` set es \<longleftrightarrow> fs (p @ [n]) \<noteq> None"
    and "(n, t) \<in> set es \<Longrightarrow> represents lib fs (p @ [n]) t"
proof -
  show "distinct (map fst es)" using assms by simp
  have "\<forall>n. fs (p @ [n]) \<noteq> None \<longleftrightarrow> n \<in> fst ` set es" using assms unfolding represents.simps by blast
  then show "n \<in> fst ` set es \<longleftrightarrow> fs (p @ [n]) \<noteq> None" by blast
  show "(n, t) \<in> set es \<Longrightarrow> represents lib fs (p @ [n]) t" using assms by auto
qed

lemma starter_tree:
  assumes "represents lib (scaffold_fs dir name fs) (dir @ [lit ''world'']) t" and "reads_starter lib name"
    and "\<forall>q. fs (dir @ q) = None" and "dir \<noteq> []" and "dir \<noteq> [root_part]"
  obtains es where "t = starter_world es" "es = starter_files \<or> es = rev starter_files"
proof -
  let ?fs = "scaffold_fs dir name fs"
  have above: "dir @ q \<in> set (above (dir @ [lit ''world'', lit ''start''])) \<longleftrightarrow> prefix q [lit ''world'', lit ''start'']" for q
    using assms(4,5) by (auto simp: in_above append_eq_Cons_conv)
  have world: "?fs (dir @ [lit ''world'']) = Some Folder" by (simp add: scaffold_fs_def above)
  have start: "?fs (dir @ [lit ''world'', n]) = (if n = lit ''start'' then Some Folder else None)" for n
    using assms(3) by (simp add: scaffold_fs_def above)
  have files: "?fs (dir @ [lit ''world'', lit ''start'', n]) =
      (if n = lit ''region.kdl'' then Some (PlainFile scaffold_region) else if n = lit ''start.kdl'' then Some (PlainFile scaffold_room) else None)" for n
    using assms(3) by (simp add: scaffold_fs_def above)
  obtain es0 where t: "t = Dir es0" using assms(1) world by (cases t) auto
  have "n \<in> fst ` set es0 \<longleftrightarrow> n = lit ''start''" for n
    using represents_Dir(2) [OF assms(1) [unfolded t], of n] start [of n] by (simp split: if_splits)
  then have names: "fst ` set es0 = {lit ''start''}" by auto
  obtain u where es0: "es0 = [(lit ''start'', u)]"
    by (rule singleton_names [OF represents_Dir(1) [OF assms(1) [unfolded t]] names])
  then have u: "represents lib ?fs (dir @ [lit ''world'', lit ''start'']) u"
    using represents_Dir(3) [OF assms(1) [unfolded t es0], of "lit ''start''" u] by simp
  then obtain es where es: "u = Dir es" using start [of "lit ''start''"] by (cases u) auto
  have ne: "lit ''region.kdl'' \<noteq> lit ''start.kdl''" by simp
  have "n \<in> fst ` set es \<longleftrightarrow> n = lit ''region.kdl'' \<or> n = lit ''start.kdl''" for n
    using represents_Dir(2) [OF u [unfolded es], of n] files [of n] by (simp split: if_splits)
  then have "fst ` set es = {lit ''region.kdl'', lit ''start.kdl''}" by auto
  with represents_Dir(1) [OF u [unfolded es]] obtain a b where ab: "es = [(lit ''region.kdl'', a), (lit ''start.kdl'', b)] \<or> es = [(lit ''start.kdl'', b), (lit ''region.kdl'', a)]"
    using pair_names ne by metis
  then have "represents lib ?fs (dir @ [lit ''world'', lit ''start'', lit ''region.kdl'']) a"
      "represents lib ?fs (dir @ [lit ''world'', lit ''start'', lit ''start.kdl'']) b"
    using represents_Dir(3) [OF u [unfolded es]] by fastforce+
  then have "a = File (Inr region_nodes)" "b = File (Inr room_nodes)"
    using files assms(2) by (cases a; cases b; auto simp: read_doc_def reads_starter_def)+
  with ab have "es = starter_files \<or> es = rev starter_files" by (auto simp: starter_files_def)
  with t es0 es show ?thesis by (intro that) (auto simp: starter_world_def)
qed

lemma starter_represented:
  assumes "reads_starter lib name" and "\<forall>q. fs (dir @ q) = None" and "dir \<noteq> []" and "dir \<noteq> [root_part]"
  shows "represents lib (scaffold_fs dir name fs) (dir @ [lit ''world'']) (starter_world starter_files)"
proof -
  have above: "dir @ q \<in> set (above (dir @ [lit ''world'', lit ''start''])) \<longleftrightarrow> prefix q [lit ''world'', lit ''start'']" for q
    using assms(3,4) by (auto simp: in_above append_eq_Cons_conv)
  show ?thesis
    using assms(1,2)
    by (simp add: starter_world_def starter_files_def scaffold_fs_def above read_doc_def reads_starter_def)
qed

text \<open>The database of a folder that had none: migrated, with no rows.\<close>

definition empty_db :: tenant_db where
  "empty_db = \<lparr>db_entities = [], db_entity_seq = 0, db_accounts = [], db_account_seq = 0, db_puppets = [],
     db_location = [], db_inventory = [], db_server = None, db_faults = (\<lambda>_. False), db_clock = 0\<rparr>"

lemma empty_db_ok: "db_ok empty_db" "length (db_entities empty_db) \<le> 2 ^ 32" "fault_free empty_db" "db_location empty_db = []"
  by (simp_all add: empty_db_def db_ok_def fault_free_def i64_max_def)

lemma starter_boots:
  assumes "load_world tc files = Inr lw" and "place_keys (lw_rooms lw) pairs" and "tag_ok t"
    and "tf_world files = starter_world es" and "es = starter_files \<or> es = rev starter_files"
  obtains rt where "boot_tenant uni hash verify empty_db t pairs (rooms_get (lw_rooms lw)) (tc_start_room tc) (lw_banner lw)
      (Locale (tc_locale tc)) = Some (Inr rt)" "serves_any_run uni rt"
proof -
  have n: "\<forall>fs. collect_kdl_files [] (tf_world files) = Inr fs \<longrightarrow> node_count fs < 2 ^ 64"
    by (simp add: assms(4) starter_collected [OF assms(5)] node_count_def region_nodes_def room_nodes_def)
  have s: "\<forall>s \<in> snd ` set (db_location empty_db). rooms_id_of (lw_rooms lw) (PlaceKey s) \<noteq> None"
    by (simp add: empty_db_ok(4))
  have run: "\<exists>rt frames rt'.
    boot_tenant uni hash verify empty_db t pairs (rooms_get (lw_rooms lw)) (tc_start_room tc) (lw_banner lw) (Locale (tc_locale tc)) = Some (Inr rt) \<and>
    loop_run uni order rt evs = Some (frames, Inr rt') \<and> mirrors (rt_world rt') \<and>
    (\<forall>sid bd. ss_sessions (rt_sessions rt') sid = Some (InWorld bd) \<longrightarrow> live (pw_world (rt_world rt')) (bind_puppet bd))"
    if "length evs < 2 ^ 64" for order evs
    by (rule tenant_serves [OF assms(1) n assms(2,3) empty_db_ok(1-3) s that])
  obtain rt where rt: "boot_tenant uni hash verify empty_db t pairs (rooms_get (lw_rooms lw)) (tc_start_room tc) (lw_banner lw)
      (Locale (tc_locale tc)) = Some (Inr rt)"
    using run [of "[]"] by auto
  moreover have "serves_any_run uni rt" unfolding serves_any_run_def using run rt by fastforce
  ultimately show thesis by (rule that)
qed


section \<open>Samples\<close>

definition sample_lib :: content_lib where
  "sample_lib = \<lparr>
     cl_kdl = (\<lambda>t. if t = scaffold_region then Some region_nodes else if t = scaffold_room then Some room_nodes
       else if t = scaffold_banner (TenantName (lit ''mygame''))
       then Some [KdlNode (lit ''banner'') [KdlString (lit ''Welcome to mygame.'')] [] []] else None),
     cl_config = (\<lambda>t. if t = scaffold_config
       then Some \<lparr>rc_banner = None, rc_palette = None, rc_start_room = start_slug, rc_locale = None\<rparr> else None)\<rparr>"

lemma sample_lib_reads: "reads_starter sample_lib (TenantName (lit ''mygame''))"
  by (simp add: reads_starter_def sample_lib_def scaffold_banner_def scaffold_region_def scaffold_room_def lit_def)


definition sample_env :: boot_env where
  "sample_env = \<lparr>benv_config = (\<lambda>_. Some \<lparr>rc_banner = None, rc_palette = None, rc_start_room = start_slug, rc_locale = None\<rparr>),
     benv_files = (\<lambda>_ _. \<lparr>tf_world = starter_world starter_files,
       tf_banner = Inr [KdlNode (lit ''banner'') [KdlString (lit ''Hi'')] [] []], tf_palette = None\<rparr>),
     benv_open = (\<lambda>_. Inr empty_db), benv_draw = (\<lambda>_. 7), benv_order = (\<lambda>_. [(PlaceId 1, PlaceKey start_slug)]), benv_bind = Some\<rparr>"

lemma sample_env_ready: "tag_ok (te_tag te) \<Longrightarrow> tenant_ready sample_env te"
proof -
  assume tag: "tag_ok (te_tag te)"
  let ?tc = "\<lparr>tc_banner = default_banner, tc_palette = default_palette, tc_start_room = start_slug, tc_locale = default_locale\<rparr>"
  let ?files = "benv_files sample_env (te_dir te) ?tc"
  have inside: "ensure_contained ''banner'' default_banner = Inr ()" "ensure_contained ''palette'' default_palette = Inr ()"
    by (simp_all add: ensure_contained_def is_absolute_def components_def default_banner_def default_palette_def lit_def)
  have cfg: "config_load (benv_config sample_env (te_dir te)) = Inr ?tc" using inside by (simp add: sample_env_def config_load_def)
  obtain rms rgns where l: "load_rooms (starter_world starter_files) palette_baseline = Inr (rms, rgns)"
      "slug_to_id rms = [PlaceKey start_slug \<mapsto> PlaceId 1]" "id_to_slug rms = [PlaceId 1 \<mapsto> PlaceKey start_slug]"
    by (rule starter_loads) auto
  let ?lw = "\<lparr>lw_rooms = rms, lw_regions = rgns, lw_palette = palette_baseline, lw_banner = lit ''Hi'', lw_start = PlaceId 1\<rparr>"
  have w: "load_world ?tc ?files = Inr ?lw"
    using l start_slug_parses(1)
    by (simp add: sample_env_def load_world_def load_palette_def load_banner_def read_file_def node_arg_def vec_get_def rooms_id_of_def del: bindE_eq_Inr)
  have n: "\<forall>fs. collect_kdl_files [] (tf_world ?files) = Inr fs \<longrightarrow> node_count fs < 2 ^ 64"
    by (simp add: sample_env_def starter_collected node_count_def region_nodes_def room_nodes_def)
  have k: "place_keys (lw_rooms ?lw) (benv_order sample_env (lw_rooms ?lw))" using l(3) by (simp add: sample_env_def place_keys_def)
  have "benv_open sample_env (te_dir te) = Inr empty_db" "benv_bind sample_env (te_listen te) \<noteq> None"
      "\<forall>n. db_server empty_db = Some n \<longrightarrow> 0 < n" "\<forall>s \<in> snd ` set (db_location empty_db). rooms_id_of (lw_rooms ?lw) (PlaceKey s) \<noteq> None"
    by (simp_all add: sample_env_def empty_db_def)
  with cfg w n k tag empty_db_ok(1-3) show ?thesis unfolding tenant_ready_def by blast
qed

lemma server_comes_up_witness:
  "\<exists>bs. boot sample_env hall_uni (\<lambda>p. Some p) (\<lambda>h p. Some (h = p))
       \<lparr>srv_rate = DEFAULT_RATE, srv_burst = DEFAULT_BURST,
        srv_tenants = [\<lparr>te_dir = [lit ''a''], te_listen = SocketAddr LOCALHOST 4000, te_tag = TenantTag 0\<rparr>,
                       \<lparr>te_dir = [lit ''b''], te_listen = SocketAddr LOCALHOST 4001, te_tag = TenantTag 0\<rparr>], srv_log_format = LogText\<rparr> = Some (Inr bs) \<and>
     map (\<lambda>b. Some (bo_addr b)) bs = [Some (SocketAddr LOCALHOST 4000), Some (SocketAddr LOCALHOST 4001)] \<and>
     (\<forall>b \<in> set bs. serves_any_run hall_uni (bo_runtime b))"
proof -
  let ?cfg = "\<lparr>srv_rate = DEFAULT_RATE, srv_burst = DEFAULT_BURST,
        srv_tenants = [\<lparr>te_dir = [lit ''a''], te_listen = SocketAddr LOCALHOST 4000, te_tag = TenantTag 0\<rparr>,
                       \<lparr>te_dir = [lit ''b''], te_listen = SocketAddr LOCALHOST 4001, te_tag = TenantTag 0\<rparr>], srv_log_format = LogText\<rparr>"
  have r: "\<forall>te \<in> set (srv_tenants ?cfg). tenant_ready sample_env te" using sample_env_ready tag_ok_0 by simp
  have bind: "benv_bind sample_env = Some" by (simp add: sample_env_def)
  obtain bs where "boot sample_env hall_uni (\<lambda>p. Some p) (\<lambda>h p. Some (h = p)) ?cfg = Some (Inr bs)"
      "map (\<lambda>te. benv_bind sample_env (te_listen te)) (srv_tenants ?cfg) = map (\<lambda>b. Some (bo_addr b)) bs"
      "\<forall>b \<in> set bs. serves_any_run hall_uni (bo_runtime b)"
    using server_comes_up [OF r, of hall_uni "\<lambda>p. Some p" "\<lambda>h p. Some (h = p)"] by blast
  then show ?thesis by (intro exI [of _ bs]) (simp add: bind)
qed

end
