(* ===== verification/Service_Loop.thy ===== *)
theory Service_Loop
  imports Session_Service
begin

text \<open>
  The effect loop of the session service ends (crates/mud-engine/src/session/mod.rs, \<open>drive\<close>). The code loops
  without a bound; here its body runs under a counter, and a small counter is always enough.
\<close>

text \<open>\<open>drive\<close> with at most \<open>n\<close> turns of its loop; \<open>None\<close> when they do not suffice.\<close>

fun drive_within ::
  "nat \<Rightarrow> 'b login_backend \<Rightarrow> session_id \<Rightarrow> session_service \<Rightarrow> 'b \<Rightarrow> login_output list
    \<Rightarrow> (ustring \<times> output_kind) option \<Rightarrow> transition \<Rightarrow> (routing \<times> session_service \<times> 'b) option" where
  "drive_within 0 be sid svc b outs0 pending0 t = None"
| "drive_within (Suc n) be sid svc b outs0 pending0 t =
     (let (outs, pending) = emit svc sid outs0 pending0 t
      in (case terminal t of
            Some fin \<Rightarrow>
              (let ((close, bound), svc1, b1) = apply_terminal be sid svc b fin
               in Some (RoutingLogin (flush_pending sid outs pending) close bound, svc1, b1))
          | None \<Rightarrow>
              (case effect t of
                 None \<Rightarrow> Some (RoutingLogin (flush_pending sid outs pending) False None, svc, b)
               | Some e \<Rightarrow>
                   (let (result, b1) = perform be b e
                    in (case ss_sessions svc sid of
                          Some (Login fsm) \<Rightarrow>
                            (let (fsm1, t1) = on_effect fsm result
                             in drive_within n be sid (set_session svc sid (Some (Login fsm1))) b1 outs pending t1)
                        | _ \<Rightarrow> Some (RoutingLogin (flush_pending sid outs pending) False None, svc, b1))))))"

lemma drive_rank_bound: "drive_rank sid svc t \<le> 2"
  by (simp add: drive_rank_def split: option.split session_state.split fsm_state.split)

lemma drive_within_rank:
  "drive_rank sid svc t < n \<Longrightarrow> drive_within n be sid svc b outs pending t = Some (drive be sid svc b outs pending t)"
proof (induction n arbitrary: svc b outs pending t)
  case (Suc n)
  have step: "drive_within n be sid (set_session svc sid (Some (Login fsm1))) b1 outs1 pending1 t1 =
      Some (drive be sid (set_session svc sid (Some (Login fsm1))) b1 outs1 pending1 t1)"
    if "ss_sessions svc sid = Some (Login fsm)" "on_effect fsm r = (fsm1, t1)" "effect t \<noteq> None" for fsm r fsm1 t1 b1 outs1 pending1
    by (rule Suc.IH) (use drive_rank_decreases [OF that] Suc.prems in simp)
  show ?case
    by (subst drive.simps)
      (auto simp: Let_def step split: prod.split option.split session_state.split)
qed simp

text \<open>
  C31. The effect loop always ends, and soon: whatever the account store answers, whatever transition
  starts it and in whatever state the service is, three turns of the loop reach its result, so
  that one line of input causes at most two calls of the store.
\<close>

theorem effect_loop_ends:
  "drive_within 3 be sid svc b outs pending t = Some (drive be sid svc b outs pending t)"
  by (rule drive_within_rank) (use drive_rank_bound [of sid svc t] in simp)

end
