(* ===== verification/Transport.thy ===== *)
theory Transport
  imports Handshake
begin

text \<open>
  The socket endpoint between a gateway and a world in separate processes (crates/mud-ipc: transport.rs,
  crates/mud-schema: codec.rs). The postcard codec, the length-delimited framing and the socket are
  libraries: a frame is a list of bytes, and what the framing yields next is a frame, its own size
  error, or an I/O error. The in-memory endpoint of theory Handshake is its reference.
\<close>

section \<open>The codec\<close>

datatype schema_error = Postcard

record 'f postcard_lib =
  pc_write :: "'f \<Rightarrow> u8 list option"
  pc_read :: "u8 list \<Rightarrow> 'f option"

definition frame_encode :: "'f postcard_lib \<Rightarrow> 'f \<Rightarrow> schema_error + u8 list" where
  "frame_encode lib f = ok_or (pc_write lib f) Postcard"

definition frame_decode :: "'f postcard_lib \<Rightarrow> u8 list \<Rightarrow> schema_error + 'f" where
  "frame_decode lib bytes = ok_or (pc_read lib bytes) Postcard"

section \<open>The endpoint\<close>

definition MAX_FRAME_BYTES :: nat where "MAX_FRAME_BYTES = 1024 * 1024"

datatype framed_item = FramedBytes "u8 list" | FramedTooLong | FramedIo

text \<open>\<open>so_out\<close> holds the frames given to the framing and not yet received by the peer; \<open>so_broken\<close>: writes fail.\<close>

record socket_endpoint =
  so_out :: "u8 list list"
  so_in :: "framed_item list"
  so_open :: bool
  so_broken :: bool

definition from_stream :: socket_endpoint where
  "from_stream = \<lparr>so_out = [], so_in = [], so_open = True, so_broken = False\<rparr>"

fun map_inbound_framing_error :: "framed_item \<Rightarrow> ipc_error" where
  "map_inbound_framing_error FramedTooLong = FrameTooLarge None MAX_FRAME_BYTES"
| "map_inbound_framing_error _ = IpcIo"

definition socket_send :: "'s postcard_lib \<Rightarrow> socket_endpoint \<Rightarrow> 's \<Rightarrow> (ipc_error + unit) \<times> socket_endpoint" where
  "socket_send lib ep f =
     (case frame_encode lib f of
        Inl _ \<Rightarrow> (Inl IpcCodec, ep)
      | Inr bytes \<Rightarrow>
          if length bytes > MAX_FRAME_BYTES then (Inl (FrameTooLarge (Some (length bytes)) MAX_FRAME_BYTES), ep)
          else if so_broken ep then (Inl IpcIo, ep)
          else (Inr (), ep\<lparr>so_out := so_out ep @ [bytes]\<rparr>))"

text \<open>\<open>None\<close> waits for a frame.\<close>

definition socket_recv :: "'r postcard_lib \<Rightarrow> socket_endpoint \<Rightarrow> ((ipc_error + 'r option) \<times> socket_endpoint) option" where
  "socket_recv lib ep =
     (case so_in ep of
        [] \<Rightarrow> if so_open ep then None else Some (Inr None, ep)
      | FramedBytes bytes # rest \<Rightarrow>
          Some (case frame_decode lib bytes of Inl _ \<Rightarrow> Inl IpcCodec | Inr f \<Rightarrow> Inr (Some f), ep\<lparr>so_in := rest\<rparr>)
      | item # rest \<Rightarrow> Some (Inl (map_inbound_framing_error item), ep\<lparr>so_in := rest\<rparr>))"

section \<open>The same contract as in memory\<close>

text \<open>
  Postcard reads back what it writes. A link in order: every frame on it is one of the sender's, nothing
  has failed. What it holds, seen as an in-memory endpoint.
\<close>

definition codec_ok :: "'f postcard_lib \<Rightarrow> bool" where
  "codec_ok lib \<longleftrightarrow> (\<forall>f. \<exists>bytes. pc_write lib f = Some bytes \<and> pc_read lib bytes = Some f)"

definition link_ok :: "'s postcard_lib \<Rightarrow> 'r postcard_lib \<Rightarrow> socket_endpoint \<Rightarrow> bool" where
  "link_ok sl rl ep \<longleftrightarrow> so_open ep \<and> \<not> so_broken ep \<and> (\<forall>b \<in> set (so_out ep). pc_read sl b \<noteq> None) \<and>
     (\<forall>i \<in> set (so_in ep). \<exists>b f. i = FramedBytes b \<and> pc_read rl b = Some f)"

fun framed_bytes :: "framed_item \<Rightarrow> u8 list" where
  "framed_bytes (FramedBytes b) = b"
| "framed_bytes _ = []"

definition in_memory :: "'s postcard_lib \<Rightarrow> 'r postcard_lib \<Rightarrow> socket_endpoint \<Rightarrow> ('s, 'r) endpoint" where
  "in_memory sl rl ep =
     \<lparr>ep_out = List.map_filter (pc_read sl) (so_out ep),
      ep_in = List.map_filter (\<lambda>i. pc_read rl (framed_bytes i)) (so_in ep), ep_peer = so_open ep\<rparr>"

lemma map_filter_snoc: "List.map_filter g (xs @ [x]) = List.map_filter g xs @ (case g x of None \<Rightarrow> [] | Some y \<Rightarrow> [y])"
  by (simp add: List.map_filter_def split: option.split)

text \<open>
  C36. The socket transport refines the in-memory one. On a link in order a send either does what the
  in-memory send does and keeps the link in order, or reports a frame above one mebibyte and sends
  nothing; a receive gives the frame the in-memory receive gives, or waits exactly when that waits.
\<close>

theorem socket_refines_memory:
  assumes "codec_ok sl" and "link_ok sl rl ep"
  shows "(case socket_send sl ep f of
       (Inr _, ep') \<Rightarrow> link_ok sl rl ep' \<and> ep_send (in_memory sl rl ep) f = (Inr (), in_memory sl rl ep')
     | (Inl e, ep') \<Rightarrow> ep' = ep \<and> (\<exists>n > MAX_FRAME_BYTES. e = FrameTooLarge (Some n) MAX_FRAME_BYTES)) \<and>
    map_option (map_prod id (in_memory sl rl)) (socket_recv rl ep) = ep_recv (in_memory sl rl ep)"
proof
  obtain bytes where b: "pc_write sl f = Some bytes" "pc_read sl bytes = Some f"
    using assms(1) unfolding codec_ok_def by blast
  show "case socket_send sl ep f of
       (Inr _, ep') \<Rightarrow> link_ok sl rl ep' \<and> ep_send (in_memory sl rl ep) f = (Inr (), in_memory sl rl ep')
     | (Inl e, ep') \<Rightarrow> ep' = ep \<and> (\<exists>n > MAX_FRAME_BYTES. e = FrameTooLarge (Some n) MAX_FRAME_BYTES)"
    using assms(2) b
    by (auto simp: socket_send_def frame_encode_def link_ok_def ep_send_def in_memory_def map_filter_snoc)
  show "map_option (map_prod id (in_memory sl rl)) (socket_recv rl ep) = ep_recv (in_memory sl rl ep)"
  proof (cases "so_in ep")
    case Nil
    with assms(2) show ?thesis by (simp add: socket_recv_def ep_recv_def in_memory_def link_ok_def map_filter_simps)
  next
    case (Cons i rest)
    with assms(2) obtain b g where "i = FramedBytes b" "pc_read rl b = Some g" by (auto simp: link_ok_def)
    with Cons show ?thesis
      by (simp add: socket_recv_def ep_recv_def in_memory_def frame_decode_def map_filter_simps)
  qed
qed

definition byte_lib :: "u8 postcard_lib" where
  "byte_lib = \<lparr>pc_write = (\<lambda>b. Some [b]), pc_read = (\<lambda>bs. case bs of [b] \<Rightarrow> Some b | _ \<Rightarrow> None)\<rparr>"

lemma socket_refines_memory_witness:
  "\<exists>ep'. socket_send byte_lib from_stream 7 = (Inr (), ep') \<and>
     ep_send (in_memory byte_lib byte_lib from_stream) 7 = (Inr (), in_memory byte_lib byte_lib ep')"
proof -
  have "codec_ok byte_lib" "link_ok byte_lib byte_lib from_stream"
    by (simp_all add: codec_ok_def byte_lib_def link_ok_def from_stream_def)
  moreover have "socket_send byte_lib from_stream 7 = (Inr (), from_stream\<lparr>so_out := [[7]]\<rparr>)"
    by (simp add: socket_send_def frame_encode_def byte_lib_def from_stream_def MAX_FRAME_BYTES_def)
  ultimately show ?thesis using socket_refines_memory [of byte_lib byte_lib from_stream 7] by auto
qed

end
