(* ===== verification/Spec2Isabelle.thy ===== *)
theory Spec2Isabelle
  imports Scheduler Markup Place Command Telnet Items Speech Repository Tenant Wire Server Service_Loop Transport
begin

text \<open>
  A verification library for ferrodun, a multi-user text-world server written in Rust.

  The program. A gateway holds the players' telnet connections and exchanges frames with a world
  loop (crates mud-net, mud-gateway, mud-schema, mud-ipc). The world keeps entities in a
  generational arena with side tables for location, inventory and naming, and changes them only
  through effects a fixed-rate scheduler applies in batches (mud-core), each written through to the
  tenant's database (mud-db). A player first goes through a login state machine (mud-session,
  mud-account) driven by the engine's session service (mud-engine), then issues commands that a
  merged command table resolves and a pipeline runs (mud-cmd, mud-engine). Text for players is
  styled markup (mud-core/src/text) and messages of a catalog (mud-i18n). A tenant's rooms come
  from a folder of authored files (mud-world). The binary keeps the tenant catalogue, boots one
  gateway and one world per tenant and runs the loops (mudd).

  Theories, with the code each models (paths under src/crates). A theory with functions of the
  code also proves what those functions guarantee; the theories named in the second list hold no
  code of their own, or little, and state what several components guarantee together.
  \<^item> Prelude: machine integers, results, vectors, strings. Utf8: encoding lengths and the lossy
    decoding of the standard library.
  \<^item> Entity_Id (mud-core/src/entity/id.rs, key.rs): the packed 64-bit handle and its parts.
  \<^item> Handle_Pool: the locale of a pool that issues handles, interpreted for the arena in Arena
    (entity/arena.rs) and for the whole world in World: no handle is issued twice and a freed one
    stays stale.
  \<^item> Side_Tables (mud-core/src/side_tables): the three tables over dense vectors, with the locales
    of a per-slot table and of a slot register, each interpreted for the code's tables.
  \<^item> World (mud-core/src/world.rs, write_model.rs): the aggregate, its operations, the effect
    dispatch and the reads, with the invariant that the location table and its reverse index agree.
  \<^item> Scheduler (mud-core/src/scheduler.rs): the mutation queue and the tick, refined to a contract
    that knows no slots.
  \<^item> Locks (mud-core/src/locks): lock trees, their resolution and evaluation.
  \<^item> Styled_Text and Markup (mud-core/src/text): attributes, colors, palettes, spans and the markup
    compiler with its field policies.
  \<^item> Place (mud-core/src/slug.rs, region.rs, place): slugs, regions, rooms, directions, exits.
  \<^item> Trie and Command (mud-cmd, mud-engine/src/layers.rs): the prefix trie, command sets, their
    merge, the line parser and the source layers.
  \<^item> Telnet_Parser and Telnet (mud-net/src/telnet): framing, lines, option negotiation, output.
  \<^item> Render and Rate_Limit (mud-net: tier.rs, convert.rs, render.rs, ratelimit.rs): color tiers,
    the renderer and the per-session rate limiter.
  \<^item> Frames (mud-schema), Handshake (mud-ipc: handshake.rs, the in-memory endpoint of transport.rs)
    and Transport (the socket endpoint, mud-schema/src/codec.rs).
  \<^item> Gateway (mud-gateway): session ids, accept loop, router, connection task.
  \<^item> Account (mud-account): names, account states, puppets, credentials.
  \<^item> Session_Fsm (mud-session): the login machine, its inputs and effect results.
  \<^item> I18n (mud-i18n): the built-in catalog, its fallbacks and interpolation.
  \<^item> Session_Service (mud-engine/src/session): the loop that drives the login machine against the
    account store, with runs of the service over any sequence of connections and lines.
  \<^item> Sanitize, Objects, Engine, Builtins, Pipeline (mud-engine/src: text.rs, objects.rs, dispatch.rs
    with its neighbours, builtins, pipeline.rs): one input line to its outputs and effects. Engine
    has the locale of a session roster, interpreted for the registry.
  \<^item> Database and Persistent (mud-db): the tables, their statements and errors, the account
    repository, the write-through world and its boot load.
  \<^item> World_Loop (mudd: backend.rs, world_loop.rs): the loop of one tenant.
  \<^item> Loader (mud-world): palette, regions, rooms, banner, configuration.
  \<^item> Catalog (mudd: catalog.rs, scaffold.rs, config.rs, tenant.rs): the operator's commands over a
    file system whose calls may fail.
  \<^item> Server (mudd: boot.rs, main.rs): the boot of every tenant and the run of the assembled stacks.

  \<^item> Items: what item commands and a tick do together. Speech: what one player hears of another.
  \<^item> Service_Loop: the effect loop of the session service ends.
  \<^item> Durable: memory and database agree while no statement fails, the tables stay consistent
    whatever fails, and a restart restores. Repository: registration, login, puppet creation.
  \<^item> Live_Loop: the tenant loop never fails while its database does not, with the locale of an
    account store that keeps an invariant of the tenant, interpreted for the tenant's own store.
  \<^item> Gateway_Facts and Wire: the discipline of a connection's frames, the isolation of clients, and
    what the bytes on the wire show.
  \<^item> Content and Tenant: loaded content is well formed, and a tenant with it boots and serves.
  \<^item> Catalog_Facts: the catalogue's files, numbers and served tenants.

  Conventions. A struct is a record, an enum a datatype, a newtype a datatype with one constructor,
  a trait object a record of its methods; Result is a sum with Inl for Err; a panic or an early
  return is None or its own branch. u8 to u64 are words; usize values are natural numbers bounded
  by usize_max, with every checked operation of the code written out. Strings are lists of Unicode
  scalar values. A hash map is a partial function, a B-tree map the list of its entries in key
  order. A task is a function of the events its select takes, in the order it takes them, so a
  theorem about all event lists is about all interleavings.

  Bounds. The loops that are not structural (the markup scanner, the telnet text encoder, string
  replacement, the service's effect loop) are functions with termination proofs, not fuel. The effect loop's
  measure is the number of effects the login machine can still ask for, at most two; the counted
  loop of Service_Loop follows the code literally and reaches its result in three turns. Ids are
  64-bit counters: theorems on long runs assume fewer than 2 ^ 64 events, where the counters of
  the code would be exhausted.

  Parameters stand for code outside the repository: Unicode lower-casing and normalization, the
  deunicode transliteration, argon2 hashing and verification, the account store behind the trait
  LoginBackend, the iteration order of hash maps, the anstyle crates, the KDL and TOML libraries,
  figment, the postcard codec and its framing. What may fail is a parameter too: the schedule of
  failing SQL statements, the outcomes of file system calls and of sends and writes. A theorem that
  needs the contract of a library names it as a hypothesis (backend_ok, ansi_ok, reads_starter,
  a codec that reads back what it has written), and its witness instantiates it. The floating-point
  arithmetic of the rate limiter is taken to be exact.

  Not modelled: the lock-string grammar, which is written in the combinators of the chumsky crate;
  command-line parsing (clap); tracing, telemetry and logging set-up; sockets, timers, tasks and
  signals beyond the order of their events; the text of SQL statements and the byte formats of
  postcard, TOML and KDL; accessors and conversions between newtypes, which are selectors here.
  What is left of the code is this glue: imports, constructors, accessors and error display.
\<close>

end
